(* ===== verification/Phantom_Prelude.thy ===== *)
theory Phantom_Prelude
  imports Main "HOL-Library.Word" "HOL-Library.Monad_Syntax"
begin

text \<open>
  Vocabulary shared by every component of the PhantomOS development.

  C code that indexes outside an array or dereferences \<open>NULL\<close> has no defined meaning, so
  the model of every routine that touches memory returns an \<open>option\<close>: \<open>None\<close> is
  "the run leaves the defined behaviour of C", \<open>Some\<close> carries the result and the new state.
  This theory provides checked array access, the monadic \<open>for\<close> loop \<open>ofold\<close> with its
  loop rules, the total-correctness predicate \<open>yields\<close> ("is defined and the result
  satisfies \<dots>"), and the collections the component theories fill.
\<close>

section \<open>Lemma collections\<close>

named_theorems frame_simps \<open>fields that an operation leaves unchanged\<close>
named_theorems cstring_simps \<open>the contents of character arrays after a string operation\<close>

section \<open>Total correctness of a fallible computation\<close>

definition yields :: "'a option \<Rightarrow> ('a \<Rightarrow> bool) \<Rightarrow> bool" where
  "yields m P \<longleftrightarrow> (case m of None \<Rightarrow> False | Some x \<Rightarrow> P x)"

lemma yields_Some [simp]: "yields (Some x) P \<longleftrightarrow> P x"
  by (simp add: yields_def)

lemma yields_None [simp]: "\<not> yields None P"
  by (simp add: yields_def)

lemma yields_bind [simp]: "yields (Option.bind m f) P \<longleftrightarrow> yields m (\<lambda>x. yields (f x) P)"
  by (cases m) (auto simp: yields_def)

lemma yields_if [simp]:
  "yields (if b then m else n) P \<longleftrightarrow> (if b then yields m P else yields n P)"
  by simp

lemma yields_iff: "yields m P \<longleftrightarrow> (\<exists>x. m = Some x \<and> P x)"
  by (cases m) auto

lemma yields_mono: "yields m P \<Longrightarrow> (\<And>x. P x \<Longrightarrow> Q x) \<Longrightarrow> yields m Q"
  by (cases m) auto

lemma yieldsE:
  assumes "yields m P"
  obtains x where "m = Some x" and "P x"
  using assms by (auto simp: yields_iff)

lemma yields_pairE:
  assumes "yields m (\<lambda>(x, y). P x y)"
  obtains x y where "m = Some (x, y)" and "P x y"
  using assms by (auto simp: yields_iff)

lemma yieldsD: "yields m P \<Longrightarrow> m = Some x \<Longrightarrow> P x"
  by (auto simp: yields_iff)

lemma yields_conj: "yields m P \<Longrightarrow> yields m Q \<Longrightarrow> yields m (\<lambda>x. P x \<and> Q x)"
  by (cases m) auto

section \<open>Checked array access\<close>

definition arr_get :: "'a list \<Rightarrow> nat \<Rightarrow> 'a option" where
  "arr_get a i = (if i < length a then Some (a ! i) else None)"

definition arr_set :: "'a list \<Rightarrow> nat \<Rightarrow> 'a \<Rightarrow> 'a list option" where
  "arr_set a i v = (if i < length a then Some (a[i := v]) else None)"

lemma arr_get_Some [simp]: "i < length a \<Longrightarrow> arr_get a i = Some (a ! i)"
  by (simp add: arr_get_def)

lemma arr_set_Some [simp]: "i < length a \<Longrightarrow> arr_set a i v = Some (a[i := v])"
  by (simp add: arr_set_def)

lemma arr_get_None [simp]: "length a \<le> i \<Longrightarrow> arr_get a i = None"
  by (simp add: arr_get_def)

lemma arr_set_None [simp]: "length a \<le> i \<Longrightarrow> arr_set a i v = None"
  by (simp add: arr_set_def)

section \<open>Loops over a known range\<close>

text \<open>\<open>ofold f [a..<b] s\<close> is \<open>for (i = a; i < b; i++) s = f(i, s)\<close>, stopping at
  the first undefined step; a downward loop folds over the reversed range.\<close>

fun ofold :: "('a \<Rightarrow> 's \<Rightarrow> 's option) \<Rightarrow> 'a list \<Rightarrow> 's \<Rightarrow> 's option" where
  "ofold f [] s = Some s"
| "ofold f (x # xs) s = do { s' \<leftarrow> f x s; ofold f xs s' }"

lemma ofold_append: "ofold f (xs @ ys) s = do { s' \<leftarrow> ofold f xs s; ofold f ys s' }"
  by (induction xs arbitrary: s) (auto split: bind_split)

lemma ofold_upt_Suc:
  "a \<le> n \<Longrightarrow> ofold f [a..<Suc n] s = do { s' \<leftarrow> ofold f [a..<n] s; f n s' }"
  by (cases "ofold f [a..<n] s") (auto simp: ofold_append split: bind_split)

lemma ofold_inv:
  assumes "P s" and "\<And>x s. x \<in> set xs \<Longrightarrow> P s \<Longrightarrow> yields (f x s) P"
  shows "yields (ofold f xs s) P"
  using assms
proof (induction xs arbitrary: s)
  case (Cons x xs)
  from Cons.prems have "yields (f x s) P" by simp
  then have "yields (f x s) (\<lambda>s'. yields (ofold f xs s') P)"
    by (rule yields_mono) (use Cons in simp)
  then show ?case by simp
qed simp

lemma ofold_upt:
  assumes "P a s" and "a \<le> b"
    and "\<And>i s. a \<le> i \<Longrightarrow> i < b \<Longrightarrow> P i s \<Longrightarrow> yields (f i s) (P (Suc i))"
  shows "yields (ofold f [a..<b] s) (P b)"
  using assms(2) assms(1,3)
proof (induction b rule: dec_induct)
  case (step n)
  then have "yields (ofold f [a..<n] s) (P n)" by simp
  then have "yields (ofold f [a..<n] s) (\<lambda>s'. yields (f n s') (P (Suc n)))"
    by (rule yields_mono) (use step in simp)
  then show ?case using step by (simp add: ofold_append)
qed simp

lemma ofold_downto:
  assumes "P b s" and "a \<le> b"
    and "\<And>i s. a \<le> i \<Longrightarrow> i < b \<Longrightarrow> P (Suc i) s \<Longrightarrow> yields (f i s) (P i)"
  shows "yields (ofold f (rev [a..<b]) s) (P a)"
  using assms(2) assms(1,3)
proof (induction b arbitrary: s rule: dec_induct)
  case (step n)
  from step.prems step.hyps have "yields (f n s) (P n)" by simp
  then have "yields (f n s) (\<lambda>s'. yields (ofold f (rev [a..<n]) s') (P a))"
    by (rule yields_mono) (use step in simp)
  then show ?case using step by simp
qed simp

text \<open>Equality forms, for loops whose result is known at every index.\<close>

lemma ofold_upt_eq:
  assumes "a \<le> b" and "g a = s"
    and "\<And>i. a \<le> i \<Longrightarrow> i < b \<Longrightarrow> f i (g i) = Some (g (Suc i))"
  shows "ofold f [a..<b] s = Some (g b)"
proof -
  have "yields (ofold f [a..<b] s) (\<lambda>s'. s' = g b)"
    by (rule ofold_upt [where P = "\<lambda>i s. s = g i"]) (use assms in auto)
  then show ?thesis by (auto simp: yields_iff)
qed

lemma ofold_downto_eq:
  assumes "a \<le> b" and "g b = s"
    and "\<And>i. a \<le> i \<Longrightarrow> i < b \<Longrightarrow> f i (g (Suc i)) = Some (g i)"
  shows "ofold f (rev [a..<b]) s = Some (g a)"
proof -
  have "yields (ofold f (rev [a..<b]) s) (\<lambda>s'. s' = g a)"
    by (rule ofold_downto [where P = "\<lambda>i s. s = g i"]) (use assms in auto)
  then show ?thesis by (auto simp: yields_iff)
qed

section \<open>Loops over an array\<close>

text \<open>One iteration of a loop that fills an array: the prefix already written grows by one.\<close>

lemma overwrite_next:
  assumes "i < length d" and "length s = i"
  shows "(s @ drop i d)[i := c] = (s @ [c]) @ drop (Suc i) d"
proof -
  from assms(1) have "drop i d = d ! i # drop (Suc i) d"
    by (rule Cons_nth_drop_Suc [symmetric])
  with assms(2) show ?thesis by (simp add: list_update_append)
qed

text \<open>\<open>for (j = i; j < m; j++) a[j] = a[j + 1]\<close> drops the element at \<open>i\<close>.\<close>

definition shift_left_step :: "nat \<Rightarrow> 'a list \<Rightarrow> 'a list option" where
  "shift_left_step j a = do { c \<leftarrow> arr_get a (j + 1); arr_set a j c }"

lemma shift_left:
  assumes "i \<le> m" and "m < length a"
  shows "ofold shift_left_step [i..<m] a = Some (take i a @ take (m - i) (drop (Suc i) a) @ drop m a)"
proof (rule ofold_upt_eq [where g = "\<lambda>j. take i a @ take (j - i) (drop (Suc i) a) @ drop j a"])
  fix j assume j: "i \<le> j" "j < m"
  define s where "s = take i a @ take (j - i) (drop (Suc i) a)"
  have len: "length s = j" using j assms by (simp add: s_def)
  have "(s @ drop j a) ! Suc j = a ! Suc j"
    using len j assms by (simp add: nth_append)
  moreover have "take (Suc j - i) (drop (Suc i) a) = take (j - i) (drop (Suc i) a) @ [a ! Suc j]"
    using j assms by (simp add: Suc_diff_le take_Suc_conv_app_nth)
  ultimately show "shift_left_step j (take i a @ take (j - i) (drop (Suc i) a) @ drop j a) =
      Some (take i a @ take (Suc j - i) (drop (Suc i) a) @ drop (Suc j) a)"
    using overwrite_next [of j a s "a ! Suc j"] len j assms
    by (simp add: shift_left_step_def s_def)
qed (use assms in simp_all)

text \<open>\<open>for (j = m; j >= i; j--) a[j + 1] = a[j]\<close> opens a gap at \<open>i\<close>.\<close>

definition shift_right_step :: "nat \<Rightarrow> 'a list \<Rightarrow> 'a list option" where
  "shift_right_step j a = do { c \<leftarrow> arr_get a j; arr_set a (j + 1) c }"

lemma shift_right:
  assumes "i \<le> m" and "m < length a"
  shows "ofold shift_right_step (rev [i..<m]) a =
    Some (take (Suc i) a @ take (m - i) (drop i a) @ drop (Suc m) a)"
proof (rule ofold_downto_eq [where g = "\<lambda>j. take (Suc j) a @ take (m - j) (drop j a) @ drop (Suc m) a"])
  fix j assume j: "i \<le> j" "j < m"
  let ?t = "take (m - Suc j) (drop (Suc j) a) @ drop (Suc m) a"
  have tk: "take (Suc (Suc j)) a = take (Suc j) a @ [a ! Suc j]"
    using j assms by (simp add: take_Suc_conv_app_nth)
  have dr: "take (m - j) (drop j a) = a ! j # take (m - Suc j) (drop (Suc j) a)"
    using j assms by (simp add: Cons_nth_drop_Suc [symmetric] take_Cons' Suc_diff_Suc)
  have "(take (Suc (Suc j)) a @ ?t)[Suc j := a ! j] = take (Suc j) a @ a ! j # ?t"
    unfolding tk using j assms by (simp add: list_update_append)
  moreover have "(take (Suc (Suc j)) a @ ?t) ! j = a ! j"
    using j assms by (simp add: nth_append)
  ultimately show "shift_right_step j (take (Suc (Suc j)) a @ take (m - Suc j) (drop (Suc j) a) @ drop (Suc m) a)
      = Some (take (Suc j) a @ take (m - j) (drop j a) @ drop (Suc m) a)"
    using j assms unfolding dr by (simp add: shift_right_step_def)
qed (use assms in simp_all)

text \<open>The two results element by element.\<close>

lemma nth_shift_left:
  assumes "i \<le> m" and "m < length a" and "k < length a"
  shows "(take i a @ take (m - i) (drop (Suc i) a) @ drop m a) ! k = (if i \<le> k \<and> k < m then a ! Suc k else a ! k)"
  using assms by (auto simp: nth_append not_less)

lemma nth_shift_right:
  assumes "i \<le> m" and "m < length a" and "k < length a"
  shows "(take (Suc i) a @ take (m - i) (drop i a) @ drop (Suc m) a) ! k = (if i < k \<and> k \<le> m then a ! (k - 1) else a ! k)"
  using assms by (auto simp: nth_append not_less min_def)

section \<open>Arrays and loops indexed by \<open>int\<close>\<close>

definition int_get :: "'a list \<Rightarrow> int \<Rightarrow> 'a option" where
  "int_get a i = (if i < 0 then None else arr_get a (nat i))"

definition int_set :: "'a list \<Rightarrow> int \<Rightarrow> 'a \<Rightarrow> 'a list option" where
  "int_set a i v = (if i < 0 then None else arr_set a (nat i) v)"

lemma int_get_of_nat [simp]: "int_get a (int i) = arr_get a i"
  by (simp add: int_get_def)

lemma int_set_of_nat [simp]: "int_set a (int i) v = arr_set a i v"
  by (simp add: int_set_def)

lemma int_get_Some: "0 \<le> i \<Longrightarrow> i < int (length a) \<Longrightarrow> int_get a i = Some (a ! nat i)"
  by (simp add: int_get_def nat_less_iff)

lemma int_set_Some: "0 \<le> i \<Longrightarrow> i < int (length a) \<Longrightarrow> int_set a i v = Some (a[nat i := v])"
  by (simp add: int_set_def nat_less_iff)

text \<open>The range of \<open>for (int i = a; i < b; i++)\<close>.\<close>

lemma upto_map_int: "[int m..int n - 1] = map int [m..<n]"
proof (cases "m \<le> n")
  case True
  then show ?thesis
  proof (induction n rule: dec_induct)
    case (step n)
    have "[int m..int (Suc n) - 1] = [int m..int n - 1] @ [int n]"
      using step.hyps by (simp add: upto_rec2)
    then show ?case using step by simp
  qed simp
qed simp

lemma ofold_map: "ofold f (map g xs) s = ofold (\<lambda>x. f (g x)) xs s"
  by (induction xs arbitrary: s) (auto split: bind_split)

lemma ofold_cong:
  assumes "\<And>x s. x \<in> set xs \<Longrightarrow> f x s = g x s"
  shows "ofold f xs s = ofold g xs s"
  using assms by (induction xs arbitrary: s) (auto split: bind_split)

text \<open>A loop simulates another one if its body does.\<close>

lemma ofold_simulates:
  assumes "R s t" and "ofold g xs t = Some t'"
    and "\<And>x s t t'. x \<in> set xs \<Longrightarrow> R s t \<Longrightarrow> g x t = Some t' \<Longrightarrow> yields (f x s) (\<lambda>s'. R s' t')"
  shows "yields (ofold f xs s) (\<lambda>s'. R s' t')"
  using assms
proof (induction xs arbitrary: s t)
  case (Cons x xs)
  from Cons.prems(2) obtain u where u: "g x t = Some u" "ofold g xs u = Some t'"
    by (auto simp: bind_eq_Some_conv)
  have "yields (f x s) (\<lambda>s'. R s' u)" using Cons.prems(1,3) u(1) by simp
  then show ?case
    using Cons.IH [OF _ u(2)] Cons.prems(3) by (auto elim!: yields_mono)
qed simp

section \<open>Characters as signed bytes\<close>

abbreviation NUL :: char where "NUL \<equiv> CHR 0x00"
abbreviation NL :: char where "NL \<equiv> CHR 0x0A"

text \<open>\<open>char\<close> is signed on i386: the value an expression of type \<open>char\<close> promotes to.\<close>

definition c_int :: "char \<Rightarrow> int" where
  "c_int c = (let n = of_char c in if n < 128 then n else n - 256)"

lemma of_char_int_range: "0 \<le> (of_char c :: int)" "(of_char c :: int) < 256"
proof -
  have "(of_char c :: int) = int (of_char c)" by (simp add: of_nat_of_char)
  then show "0 \<le> (of_char c :: int)" "(of_char c :: int) < 256"
    using nat_of_char_less_256 [of c] by linarith+
qed

lemma c_int_inject [simp]: "c_int a = c_int b \<longleftrightarrow> a = b"
  using of_char_int_range [of a] of_char_int_range [of b]
  by (auto simp: c_int_def Let_def split: if_splits)

end
