(* ===== verification/C_String.thy ===== *)
theory C_String
  imports Phantom_Prelude
begin

text \<open>
  The freestanding string and memory routines of \<open>src/kernel/kernel.c\<close> (\<open>strlen\<close>,
  \<open>strcmp\<close>, \<open>strcpy\<close>, \<open>strncmp\<close>) and \<open>src/kernel/filesystem.c\<close> (\<open>memset\<close>,
  \<open>memcpy\<close>, \<open>strncpy\<close>, \<open>strcat\<close>).

  A \<open>char*\<close> is the list of the bytes from the pointer to the end of the array it points
  into. Reading or writing past that end is undefined (\<open>None\<close>). \<open>cstr a\<close> is the C string
  at the front of an array, \<open>terminated a\<close> says that it has one.
\<close>

section \<open>The routines\<close>

fun strlen :: "char list \<Rightarrow> nat option" where
  "strlen [] = None"
| "strlen (c # cs) = (if c \<noteq> NUL then map_option Suc (strlen cs) else Some 0)"

fun strcmp :: "char list \<Rightarrow> char list \<Rightarrow> int option" where
  "strcmp (a # as) (b # bs) =
     (if a \<noteq> NUL \<and> b \<noteq> NUL \<and> a = b then strcmp as bs else Some (c_int a - c_int b))"
| "strcmp [] bs = None"
| "strcmp as [] = None"

text \<open>\<open>while (*src) *dest++ = *src++; *dest = '\0'\<close> for a source and a destination
  that do not overlap.\<close>

fun strcpy :: "char list \<Rightarrow> char list \<Rightarrow> char list option" where
  "strcpy dest [] = None"
| "strcpy [] (c # cs) = None"
| "strcpy (d # ds) (c # cs) =
     (if c \<noteq> NUL then map_option ((#) c) (strcpy ds cs) else Some (NUL # ds))"

fun strncmp_from :: "char list \<Rightarrow> char list \<Rightarrow> nat \<Rightarrow> int option" where
  "strncmp_from as bs 0 = Some 0"
| "strncmp_from (a # as) (b # bs) (Suc n) =
     (if a \<noteq> b \<or> a = NUL \<or> b = NUL then Some (c_int a - c_int b)
      else strncmp_from as bs n)"
| "strncmp_from as bs (Suc n) = None"

definition strncmp :: "char list \<Rightarrow> char list \<Rightarrow> 32 word \<Rightarrow> int option" where
  "strncmp str1 str2 n = strncmp_from str1 str2 (unat n)"

text \<open>\<open>memset\<close> and \<open>memcpy\<close> write the first \<open>n\<close> (\<open>size\<close>) bytes.\<close>

definition memset :: "char list \<Rightarrow> char \<Rightarrow> nat \<Rightarrow> char list option" where
  "memset p v n = ofold (\<lambda>i p. arr_set p i v) [0..<n] p"

definition memcpy :: "char list \<Rightarrow> char list \<Rightarrow> nat \<Rightarrow> char list option" where
  "memcpy dest src n =
     ofold (\<lambda>i d. do { c \<leftarrow> arr_get src i; arr_set d i c }) [0..<n] dest"

text \<open>
  The repository's own \<open>strncpy\<close>: at most \<open>n - 1\<close> characters (the subtraction is on
  \<open>size_t\<close> and wraps at \<open>n = 0\<close>), always terminated, no padding. The loop test looks at
  the counter first, so the source is not read once the bound is reached.
\<close>

fun strncpy_loop :: "char list \<Rightarrow> char list \<Rightarrow> nat \<Rightarrow> char list option" where
  "strncpy_loop dest src 0 = arr_set dest 0 NUL"
| "strncpy_loop dest [] (Suc k) = None"
| "strncpy_loop dest (c # cs) (Suc k) =
     (if c \<noteq> NUL
      then (case dest of [] \<Rightarrow> None | _ # ds \<Rightarrow> map_option ((#) c) (strncpy_loop ds cs k))
      else arr_set dest 0 NUL)"

definition strncpy :: "char list \<Rightarrow> char list \<Rightarrow> 32 word \<Rightarrow> char list option" where
  "strncpy dest src n = strncpy_loop dest src (unat (n - 1))"

text \<open>\<open>strcat\<close> runs the copy loop of \<open>strcpy\<close> from the terminator of \<open>dest\<close> on.\<close>

definition strcat :: "char list \<Rightarrow> char list \<Rightarrow> char list option" where
  "strcat dest src = do {
     n \<leftarrow> strlen dest;
     tail \<leftarrow> strcpy (drop n dest) src;
     Some (take n dest @ tail) }"

section \<open>C strings\<close>

definition cstr :: "char list \<Rightarrow> string" where
  "cstr a = takeWhile (\<lambda>c. c \<noteq> NUL) a"

definition terminated :: "char list \<Rightarrow> bool" where
  "terminated a \<longleftrightarrow> NUL \<in> set a"

definition lit :: "string \<Rightarrow> char list" where \<comment> \<open>a string literal in the source\<close>
  "lit s = s @ [NUL]"

text \<open>A terminated array is its string, the terminator, and bytes nobody looks at.\<close>

lemma terminatedE:
  assumes "terminated a"
  obtains r where "a = cstr a @ NUL # r" and "NUL \<notin> set (cstr a)"
proof -
  from assms obtain s r where "a = s @ NUL # r" "NUL \<notin> set s"
    by (auto simp: terminated_def dest: split_list_first)
  moreover from this have "cstr a = s"
    by (simp add: cstr_def takeWhile_append)
  ultimately show ?thesis using that by metis
qed

lemma NUL_notin_cstr [simp]: "NUL \<notin> set (cstr a)"
  by (auto simp: cstr_def dest: set_takeWhileD)

lemma cstr_append [cstring_simps]: "NUL \<notin> set s \<Longrightarrow> cstr (s @ NUL # r) = s"
  by (simp add: cstr_def takeWhile_append)

lemma cstr_lit [cstring_simps]: "NUL \<notin> set s \<Longrightarrow> cstr (lit s) = s"
  by (simp add: lit_def cstr_append)

lemma cstr_Cons: "cstr (c # cs) = (if c = NUL then [] else c # cstr cs)"
  by (simp add: cstr_def)

lemma cstr_cstr [simp]: "cstr (cstr a) = cstr a"
  by (simp add: cstr_def)

lemma terminated_Nil [simp]: "\<not> terminated []"
  by (simp add: terminated_def)

lemma terminated_append [simp]: "terminated (s @ NUL # r)"
  by (simp add: terminated_def)

lemma terminated_lit [simp]: "terminated (lit s)"
  by (simp add: lit_def)

lemma terminated_Cons: "terminated (c # cs) \<longleftrightarrow> c = NUL \<or> terminated cs"
  by (auto simp: terminated_def)

lemma length_cstr_le: "length (cstr a) \<le> length a"
  by (simp add: cstr_def length_takeWhile_le)

lemma length_cstr_less: "terminated a \<Longrightarrow> length (cstr a) < length a"
  by (erule terminatedE, metis length_append length_Cons less_add_Suc1 add_Suc_right)

lemma length_lit [simp]: "length (lit s) = Suc (length s)"
  by (simp add: lit_def)

section \<open>What the routines compute\<close>

lemma strlen_eq: "strlen a = (if terminated a then Some (length (cstr a)) else None)"
  by (induction a rule: strlen.induct) (auto simp: terminated_def cstr_def)

lemma strcmp_defined: "terminated a \<Longrightarrow> terminated b \<Longrightarrow> yields (strcmp a b) (\<lambda>r. r = 0 \<longleftrightarrow> cstr a = cstr b)"
  by (induction a b rule: strcmp.induct)
     (auto simp: terminated_Cons cstr_Cons elim!: yields_mono)

lemma strcmp_lit:
  assumes "terminated a" and "NUL \<notin> set w"
  obtains r where "strcmp a (lit w) = Some r" and "r = 0 \<longleftrightarrow> cstr a = w"
proof -
  have "terminated (lit w)" "cstr (lit w) = w" using assms(2) by (simp_all add: terminated_def lit_def cstr_append)
  then have "yields (strcmp a (lit w)) (\<lambda>r. r = 0 \<longleftrightarrow> cstr a = w)"
    using strcmp_defined [OF assms(1), of "lit w"] by simp
  then show ?thesis by (rule yieldsE) (rule that)
qed

lemma strcmp_antisym: "strcmp a b = Some r \<Longrightarrow> strcmp b a = Some (- r)"
  by (induction a b arbitrary: r rule: strcmp.induct) (auto split: if_splits)

lemma strcpy_append:
  "NUL \<notin> set s \<Longrightarrow> strcpy dest (s @ NUL # r) =
     (if length s < length dest then Some (s @ NUL # drop (Suc (length s)) dest) else None)"
proof (induction s arbitrary: dest)
  case Nil
  show ?case by (cases dest) simp_all
next
  case (Cons c s)
  then show ?case by (cases dest) auto
qed

lemma strcpy_unterminated: "\<not> terminated src \<Longrightarrow> strcpy dest src = None"
  by (induction dest src rule: strcpy.induct) (auto simp: terminated_def)

lemma strcpy_eq:
  "strcpy dest src =
     (if terminated src \<and> length (cstr src) < length dest
      then Some (cstr src @ NUL # drop (Suc (length (cstr src))) dest) else None)"
proof (cases "terminated src")
  case True
  then obtain r where "src = cstr src @ NUL # r" by (rule terminatedE)
  then show ?thesis
    using strcpy_append [of "cstr src" dest r] True by simp
qed (simp add: strcpy_unterminated)

lemma strncpy_loop_append:
  "NUL \<notin> set s \<Longrightarrow> strncpy_loop dest (s @ NUL # r) k =
     (if length (take k s) < length dest
      then Some (take k s @ NUL # drop (Suc (length (take k s))) dest) else None)"
proof (induction s arbitrary: dest k)
  case Nil
  show ?case by (cases dest; cases k) (simp_all add: arr_set_def)
next
  case (Cons c s)
  then show ?case by (cases dest; cases k) (auto simp: arr_set_def)
qed

lemma strncpy_eq:
  assumes "terminated src"
  shows "strncpy dest src n =
     (let s = take (unat (n - 1)) (cstr src) in
      if length s < length dest then Some (s @ NUL # drop (Suc (length s)) dest) else None)"
proof -
  from assms obtain r where "src = cstr src @ NUL # r" by (rule terminatedE)
  then show ?thesis
    using strncpy_loop_append [of "cstr src" dest r] by (simp add: strncpy_def Let_def)
qed

lemma strcat_eq:
  assumes "terminated dest" and "terminated src"
  shows "strcat dest src =
     (let s = cstr dest @ cstr src in
      if length s < length dest then Some (s @ NUL # drop (Suc (length s)) dest) else None)"
proof -
  have "take (length (cstr dest)) dest = cstr dest"
    by (metis assms(1) append_eq_conv_conj terminatedE)
  then show ?thesis
    using assms length_cstr_less [OF assms(1)]
    by (auto simp: strcat_def strlen_eq strcpy_eq Let_def add.commute)
qed

lemma strncmp_from_refl_prefix:
  "strncmp_from as bs n = Some 0 \<Longrightarrow> take n (cstr as) = take n (cstr bs)"
  by (induction as bs n rule: strncmp_from.induct) (auto simp: cstr_Cons split: if_splits)

lemma memset_eq:
  assumes "n \<le> length p"
  shows "memset p v n = Some (replicate n v @ drop n p)"
  unfolding memset_def
proof (rule ofold_upt_eq [where g = "\<lambda>i. replicate i v @ drop i p"])
  fix i assume "i < n"
  with assms overwrite_next [of i p "replicate i v" v]
  show "arr_set (replicate i v @ drop i p) i v = Some (replicate (Suc i) v @ drop (Suc i) p)"
    by (simp add: replicate_app_Cons_same)
qed simp_all

lemma memcpy_eq:
  assumes "n \<le> length dest" and "n \<le> length src"
  shows "memcpy dest src n = Some (take n src @ drop n dest)"
  unfolding memcpy_def
proof (rule ofold_upt_eq [where g = "\<lambda>i. take i src @ drop i dest"])
  fix i assume "i < n"
  with assms overwrite_next [of i dest "take i src" "src ! i"]
  show "do { c \<leftarrow> arr_get src i; arr_set (take i src @ drop i dest) i c } =
        Some (take (Suc i) src @ drop (Suc i) dest)"
    by (simp add: take_Suc_conv_app_nth)
qed simp_all

lemma memcpy_in_bounds:
  "memcpy dest src n = Some d \<Longrightarrow> length d = length dest \<and> n \<le> length src \<and> n \<le> length dest"
proof (induction n arbitrary: d)
  case 0
  then show ?case by (simp add: memcpy_def)
next
  case (Suc n)
  from Suc.prems obtain d' where d': "memcpy dest src n = Some d'"
    and step: "do { c \<leftarrow> arr_get src n; arr_set d' n c } = Some d"
    unfolding memcpy_def ofold_upt_Suc [OF le0] bind_eq_Some_conv [of "ofold _ _ _"] by blast
  from Suc.IH [OF d'] step show ?case
    by (auto simp: arr_get_def arr_set_def split: if_splits)
qed

lemma memcpy_overrun: "length src < n \<or> length dest < n \<Longrightarrow> memcpy dest src n = None"
  using memcpy_in_bounds [of dest src n] by (cases "memcpy dest src n") auto

text \<open>Lengths, termination and contents of the result, for use as rewrite rules.\<close>

lemma strcpy_Some:
  assumes "strcpy dest src = Some d"
  shows "length d = length dest" and "terminated d" and "cstr d = cstr src"
  using assms by (auto simp: strcpy_eq cstr_append split: if_splits)

lemma strncpy_Some:
  assumes "strncpy dest src n = Some d" and "terminated src"
  shows "length d = length dest" and "terminated d" and "cstr d = take (unat (n - 1)) (cstr src)"
proof -
  have "NUL \<notin> set (take k (cstr src))" for k
    by (metis NUL_notin_cstr in_set_takeD)
  then show "length d = length dest" "terminated d" "cstr d = take (unat (n - 1)) (cstr src)"
    using assms by (auto simp: strncpy_eq Let_def cstr_append split: if_splits)
qed

lemma strcat_Some:
  assumes "strcat dest src = Some d" and "terminated dest" and "terminated src"
  shows "length d = length dest" and "terminated d" and "cstr d = cstr dest @ cstr src"
proof -
  have d: "d = (cstr dest @ cstr src) @ NUL # drop (Suc (length (cstr dest @ cstr src))) dest"
    and n: "length (cstr dest @ cstr src) < length dest"
    using assms by (simp_all add: strcat_eq Let_def split: if_splits)
  show "length d = length dest" using n by (subst d) simp
  show "terminated d" by (subst d) (rule terminated_append)
  show "cstr d = cstr dest @ cstr src" by (subst d) (rule cstr_append, simp)
qed

text \<open>\<open>sets_string a x m\<close>: the operation with outcome \<open>m\<close> makes the array \<open>a\<close> hold the
  string \<open>x\<close>, or overruns \<open>a\<close> because \<open>x\<close> does not fit.\<close>

definition sets_string :: "char list \<Rightarrow> string \<Rightarrow> char list option \<Rightarrow> bool" where
  "sets_string a x m \<longleftrightarrow> (case m of
       None \<Rightarrow> length a \<le> length x
     | Some a' \<Rightarrow> length a' = length a \<and> terminated a' \<and> cstr a' = x)"

lemma sets_string_Some:
  "sets_string a x (Some a') \<longleftrightarrow> length a' = length a \<and> terminated a' \<and> cstr a' = x"
  by (simp add: sets_string_def)

lemma sets_string_None: "sets_string a x None \<longleftrightarrow> length a \<le> length x"
  by (simp add: sets_string_def)

lemmas sets_string_simps [simp] = sets_string_Some sets_string_None

lemma sets_string_fits:
  assumes "sets_string a x m" and "length x < length a"
  obtains a' where "m = Some a'" "length a' = length a" "terminated a'" "cstr a' = x"
  using assms by (cases m) auto

lemma sets_string_overrun:
  assumes "sets_string a x m" and "length a \<le> length x"
  shows "m = None"
proof (cases m)
  case (Some a')
  with assms(1) have a': "length a' = length a" "terminated a'" "cstr a' = x" by simp_all
  from length_cstr_less [OF a'(2)] a'(1,3) assms(2) show ?thesis by simp
qed

lemma strcpy_sets:
  assumes "terminated src"
  shows "sets_string dest (cstr src) (strcpy dest src)"
proof (cases "strcpy dest src")
  case None
  then have "\<not> length (cstr src) < length dest" using strcpy_eq [of dest src] assms
    by (simp split: if_splits)
  then show ?thesis by (simp add: None)
next
  case (Some d)
  then show ?thesis using strcpy_Some [OF Some] by simp
qed

lemma strcat_sets:
  assumes "terminated dest" and "terminated src"
  shows "sets_string dest (cstr dest @ cstr src) (strcat dest src)"
proof (cases "strcat dest src")
  case None
  then have "\<not> length (cstr dest @ cstr src) < length dest"
    using strcat_eq [OF assms] by (simp add: Let_def split: if_splits)
  then show ?thesis by (simp add: None)
next
  case (Some d)
  then show ?thesis using strcat_Some [OF Some assms] by simp
qed

lemma strcpy_fits:
  assumes "terminated src" and "length (cstr src) < length dest"
  shows "yields (strcpy dest src) (\<lambda>d. length d = length dest \<and> terminated d \<and> cstr d = cstr src)"
  using strcpy_sets [OF assms(1), of dest] assms(2) by (cases "strcpy dest src") auto

text \<open>A second operation that only makes the string longer.\<close>

lemma sets_string_bind:
  assumes "sets_string a x m" and "length x \<le> length y"
    and "\<And>a'. length a' = length a \<Longrightarrow> terminated a' \<Longrightarrow> cstr a' = x \<Longrightarrow> sets_string a' y (f a')"
  shows "sets_string a y (Option.bind m f)"
proof (cases m)
  case None
  then show ?thesis using assms(1,2) by simp
next
  case (Some a')
  with assms(1) have a': "length a' = length a" "terminated a'" "cstr a' = x" by simp_all
  with assms(3) [OF this] Some show ?thesis by (simp add: sets_string_def split: option.splits)
qed

end
