(* ===== verification/Fs_Store.thy ===== *)
theory Fs_Store
  imports C_String
begin

text \<open>
  The object store under the file system (\<open>src/kernel/filesystem.h\<close> and the first part of
  \<open>filesystem.c\<close>): the bump allocator over the 64KB pool, the logical clock, the node
  structure, and \<open>fs_create_file\<close>.

  A pointer is the offset of the object in \<open>memory_pool\<close>. The bytes of the pool are typed
  by what the code puts there: \<open>node_at\<close> holds the \<open>fs_node_t\<close> objects, \<open>block_at\<close> the
  4096-byte data buffers. \<open>NULL\<close> is \<open>None\<close>, and dereferencing an offset with no object is
  undefined.
\<close>

section \<open>Constants and types\<close>

definition MAX_FILENAME_LENGTH :: nat where "MAX_FILENAME_LENGTH = 64"
definition MAX_PATH_LENGTH :: nat where "MAX_PATH_LENGTH = 256"
definition MAX_FILES_PER_DIR :: nat where "MAX_FILES_PER_DIR = 32"
definition MAX_FILE_SIZE :: nat where "MAX_FILE_SIZE = 4096"
definition MAX_TOTAL_FILES :: "32 word" where "MAX_TOTAL_FILES = 128"

definition POOL_SIZE :: "32 word" where "POOL_SIZE = 64 * 1024"

text \<open>\<open>sizeof(fs_node_t)\<close> on i386: 64 + 4 + 4 + 4 + 4 + 4 + 4 + 32 * 4 + 4 + 4.\<close>

definition SIZEOF_FS_NODE :: nat where "SIZEOF_FS_NODE = 224"

lemmas fs_consts = MAX_FILENAME_LENGTH_def MAX_PATH_LENGTH_def MAX_FILES_PER_DIR_def
  MAX_FILE_SIZE_def MAX_TOTAL_FILES_def POOL_SIZE_def SIZEOF_FS_NODE_def

type_synonym ptr = nat

datatype file_type = FILE_TYPE_REGULAR | FILE_TYPE_DIRECTORY

lemma not_directory [simp]: "t \<noteq> FILE_TYPE_DIRECTORY \<longleftrightarrow> t = FILE_TYPE_REGULAR"
  by (cases t) simp_all

record fs_node =
  node_name :: "char list"
  node_type :: file_type
  node_size :: nat
  creation_time :: "32 word"
  modification_time :: "32 word"
  node_data :: "ptr option"
  node_parent :: "ptr option"
  node_children :: "ptr option list"
  child_count :: nat
  node_next :: "ptr option"

record fs_state =
  memory_offset :: "32 word"
  time_counter :: "32 word"
  node_at :: "ptr \<rightharpoonup> fs_node"
  block_at :: "ptr \<rightharpoonup> char list"
  fs_root :: "ptr option"
  fs_current_dir :: "ptr option"
  file_list_head :: "ptr option"
  total_files :: "32 word"
  current_path :: "char list"

text \<open>The statics before \<open>fs_init\<close> runs (C zero-initialises them).\<close>

definition fs_boot :: fs_state where
  "fs_boot = \<lparr> memory_offset = 0, time_counter = 0, node_at = Map.empty, block_at = Map.empty,
     fs_root = None, fs_current_dir = None, file_list_head = None, total_files = 0,
     current_path = replicate MAX_PATH_LENGTH NUL \<rparr>"

text \<open>What \<open>memset(node, 0, sizeof(fs_node_t))\<close> leaves in a node.\<close>

definition zero_node :: fs_node where
  "zero_node = \<lparr> node_name = replicate MAX_FILENAME_LENGTH NUL, node_type = FILE_TYPE_REGULAR,
     node_size = 0, creation_time = 0, modification_time = 0, node_data = None,
     node_parent = None, node_children = replicate MAX_FILES_PER_DIR None, child_count = 0,
     node_next = None \<rparr>"

section \<open>Operations\<close>

definition kmalloc :: "32 word \<Rightarrow> fs_state \<Rightarrow> ptr option \<times> fs_state" where
  "kmalloc n s =
     (if memory_offset s + n \<ge> POOL_SIZE then (None, s)
      else (Some (unat (memory_offset s)), s\<lparr>memory_offset := memory_offset s + n\<rparr>))"

definition kfree :: "ptr option \<Rightarrow> fs_state \<Rightarrow> fs_state" where
  "kfree p s = s"

definition get_current_time :: "fs_state \<Rightarrow> 32 word \<times> fs_state" where
  "get_current_time s = (time_counter s + 1, s\<lparr>time_counter := time_counter s + 1\<rparr>)"

definition set_node :: "ptr \<Rightarrow> fs_node \<Rightarrow> fs_state \<Rightarrow> fs_state" where
  "set_node p d s = s\<lparr>node_at := (node_at s)(p \<mapsto> d)\<rparr>"

definition fs_create_file :: "char list \<Rightarrow> file_type \<Rightarrow> fs_state \<Rightarrow> (ptr option \<times> fs_state) option" where
  "fs_create_file nm ty s =
     (if total_files s \<ge> MAX_TOTAL_FILES then Some (None, s)
      else case kmalloc (of_nat SIZEOF_FS_NODE) s of
        (None, s1) \<Rightarrow> Some (None, s1)
      | (Some node, s1) \<Rightarrow> do {
          nm' \<leftarrow> strncpy (node_name zero_node) nm (of_nat (MAX_FILENAME_LENGTH - 1));
          let (now, s2) = get_current_time s1;
          let (data, s3) =
            (if ty = FILE_TYPE_DIRECTORY then (None, s2)
             else case kmalloc (of_nat MAX_FILE_SIZE) s2 of
               (None, s') \<Rightarrow> (None, s')
             | (Some b, s') \<Rightarrow>
                 (Some b, s'\<lparr>block_at := (block_at s')(b \<mapsto> replicate MAX_FILE_SIZE NUL)\<rparr>));
          let d = zero_node\<lparr> node_name := nm', node_type := ty, creation_time := now,
            modification_time := now, node_data := data, node_size := 0,
            node_next := file_list_head s3 \<rparr>;
          Some (Some node, (set_node node d s3)\<lparr> file_list_head := Some node,
            total_files := total_files s3 + 1 \<rparr>) })"

section \<open>Well-formed stores\<close>

text \<open>\<open>kids d\<close> are the live entries of the children array; \<open>label s k\<close> is the name of the
  node at \<open>k\<close>.\<close>

definition kids :: "fs_node \<Rightarrow> ptr list" where
  "kids d = map the (take (child_count d) (node_children d))"

definition label :: "fs_state \<Rightarrow> ptr \<Rightarrow> string" where
  "label s k = (case node_at s k of None \<Rightarrow> [] | Some e \<Rightarrow> cstr (node_name e))"

text \<open>A node taken on its own: its arrays have their C lengths, the name is terminated, the
  children array is a packed prefix followed by \<open>NULL\<close>s, only directories have children, only
  regular files have data, and the data buffer is the allocation right after the node.\<close>

definition node_shape :: "ptr \<Rightarrow> fs_node \<Rightarrow> bool" where
  "node_shape p d \<longleftrightarrow>
     length (node_name d) = MAX_FILENAME_LENGTH \<and> terminated (node_name d) \<and>
     length (node_children d) = MAX_FILES_PER_DIR \<and> child_count d \<le> MAX_FILES_PER_DIR \<and>
     node_children d = map Some (kids d) @ replicate (MAX_FILES_PER_DIR - child_count d) None \<and>
     (node_type d = FILE_TYPE_REGULAR \<longrightarrow> child_count d = 0) \<and>
     (node_type d = FILE_TYPE_DIRECTORY \<longrightarrow> node_data d = None \<and> node_size d = 0) \<and>
     node_size d \<le> MAX_FILE_SIZE \<and>
     (\<forall>b. node_data d = Some b \<longrightarrow> b = p + SIZEOF_FS_NODE)"

text \<open>The links of a node: its children point back to it, come later in the pool and have
  distinct names; its parent, if it has one, is an attached directory that comes earlier in
  the pool (the root is its own parent).\<close>

definition node_links :: "fs_state \<Rightarrow> ptr \<Rightarrow> fs_node \<Rightarrow> bool" where
  "node_links s p d \<longleftrightarrow>
     (\<forall>k \<in> set (kids d). p < k \<and> (\<exists>e. node_at s k = Some e \<and> node_parent e = Some p)) \<and>
     distinct (map (label s) (kids d)) \<and>
     (\<forall>q. node_parent d = Some q \<longrightarrow>
        (\<exists>e. node_at s q = Some e \<and> node_type e = FILE_TYPE_DIRECTORY \<and> node_parent e \<noteq> None) \<and>
        (q < p \<or> q = p \<and> fs_root s = Some p))"

text \<open>Every object lies in the allocated part of the pool and objects do not overlap.\<close>

definition pool_ok :: "fs_state \<Rightarrow> bool" where
  "pool_ok s \<longleftrightarrow>
     memory_offset s < POOL_SIZE \<and>
     (\<forall>p d. node_at s p = Some d \<longrightarrow>
        p + SIZEOF_FS_NODE \<le> unat (memory_offset s) \<and>
        (\<forall>b. node_data d = Some b \<longrightarrow> b + MAX_FILE_SIZE \<le> unat (memory_offset s) \<and>
          (\<exists>blk. block_at s b = Some blk \<and> length blk = MAX_FILE_SIZE)) \<and>
        (\<forall>q e. node_at s q = Some e \<longrightarrow> p < q \<longrightarrow> p + SIZEOF_FS_NODE \<le> q \<and>
          (\<forall>b. node_data d = Some b \<longrightarrow> b + MAX_FILE_SIZE \<le> q)))"

definition attached_dir :: "fs_state \<Rightarrow> ptr option \<Rightarrow> bool" where
  "attached_dir s p \<longleftrightarrow> (\<exists>q d. p = Some q \<and> node_at s q = Some d \<and>
     node_type d = FILE_TYPE_DIRECTORY \<and> node_parent d \<noteq> None)"

definition store_ok :: "fs_state \<Rightarrow> bool" where
  "store_ok s \<longleftrightarrow> pool_ok s \<and>
     (\<forall>p d. node_at s p = Some d \<longrightarrow> node_shape p d \<and> node_links s p d)"

definition wf_fs :: "fs_state \<Rightarrow> bool" where
  "wf_fs s \<longleftrightarrow> store_ok s \<and>
     attached_dir s (fs_root s) \<and> attached_dir s (fs_current_dir s) \<and>
     (\<exists>d. node_at s (the (fs_root s)) = Some d \<and> node_parent d = fs_root s) \<and>
     length (current_path s) = MAX_PATH_LENGTH \<and> terminated (current_path s)"

text \<open>What every operation of the file system guarantees about the nodes that exist: they stay,
  with their type, name and data pointer, and an attached node keeps its parent.\<close>

definition fs_extends :: "fs_state \<Rightarrow> fs_state \<Rightarrow> bool" where
  "fs_extends s s' \<longleftrightarrow> (\<forall>q f. node_at s q = Some f \<longrightarrow> (\<exists>f'. node_at s' q = Some f' \<and>
     node_type f' = node_type f \<and> node_name f' = node_name f \<and> node_data f' = node_data f \<and>
     (node_parent f \<noteq> None \<longrightarrow> node_parent f' = node_parent f)))"

lemma fs_extends_refl [simp]: "fs_extends s s"
  by (simp add: fs_extends_def)

lemma fs_extends_trans: "fs_extends s t \<Longrightarrow> fs_extends t u \<Longrightarrow> fs_extends s u"
  unfolding fs_extends_def by (metis (no_types, lifting))

lemma fs_extendsD:
  assumes "fs_extends s s'" and "node_at s q = Some f"
  obtains f' where "node_at s' q = Some f'" "node_type f' = node_type f" "node_name f' = node_name f"
    "node_data f' = node_data f" "node_parent f \<noteq> None \<Longrightarrow> node_parent f' = node_parent f"
  using assms unfolding fs_extends_def by blast

lemma attached_extends: "attached_dir s p \<Longrightarrow> fs_extends s s' \<Longrightarrow> attached_dir s' p"
  by (auto simp: attached_dir_def elim!: fs_extendsD)

text \<open>The file-system invariant follows for a successor that keeps the root, is well-formed as a
  store and has its current directory on an attached directory.\<close>

lemma wf_fs_step:
  assumes "wf_fs s" and "store_ok s'" and ext: "fs_extends s s'" and root: "fs_root s' = fs_root s"
    and "attached_dir s' (fs_current_dir s')"
    and "length (current_path s') = MAX_PATH_LENGTH" and "terminated (current_path s')"
  shows "wf_fs s'"
proof -
  from assms(1) obtain r d where r: "fs_root s = Some r" "node_at s r = Some d" "node_parent d = Some r"
    by (auto simp: wf_fs_def attached_dir_def)
  then obtain d' where "node_at s' r = Some d'" "node_parent d' = Some r"
    using fs_extendsD [OF ext] by (metis option.distinct(1))
  moreover have "attached_dir s' (fs_root s')"
    using assms(1) root attached_extends [OF _ ext] by (simp add: wf_fs_def)
  ultimately show ?thesis using assms(2,5-7) r root by (simp add: wf_fs_def)
qed

section \<open>The allocator\<close>

lemma kmalloc_None: "kmalloc n s = (None, s') \<Longrightarrow> s' = s"
  by (simp add: kmalloc_def split: if_splits)

text \<open>A successful allocation of at most 64KB starts at the old offset, ends at the new one and
  stays inside the pool.\<close>

lemma kmalloc_Some:
  assumes "kmalloc n s = (Some p, s')" and "memory_offset s < POOL_SIZE" and "n \<le> POOL_SIZE"
  shows "p = unat (memory_offset s)" and "s' = s\<lparr>memory_offset := memory_offset s + n\<rparr>"
    and "unat (memory_offset s') = p + unat n" and "memory_offset s' < POOL_SIZE"
proof -
  show p: "p = unat (memory_offset s)" and s': "s' = s\<lparr>memory_offset := memory_offset s + n\<rparr>"
    using assms(1) by (simp_all add: kmalloc_def split: if_splits)
  have "unat (memory_offset s) < 65536" "unat n \<le> 65536"
    using assms(2,3) by (simp_all add: POOL_SIZE_def word_less_nat_alt word_le_nat_alt)
  then have "unat (memory_offset s + n) = unat (memory_offset s) + unat n"
    by (subst unat_add_lem [THEN iffD1]) simp_all
  then show "unat (memory_offset s') = p + unat n" by (simp add: p s')
  show "memory_offset s' < POOL_SIZE"
    using assms(1) by (simp add: kmalloc_def s' split: if_splits)
qed

section \<open>Reading a well-formed store\<close>

lemma store_ok_cong:
  assumes "node_at s' = node_at s" "block_at s' = block_at s"
    "memory_offset s' = memory_offset s" "fs_root s' = fs_root s"
  shows "store_ok s' \<longleftrightarrow> store_ok s"
proof -
  have "label s' = label s" by (simp add: label_def assms(1) fun_eq_iff)
  then show ?thesis by (simp add: assms store_ok_def pool_ok_def node_links_def)
qed

lemma store_ok_frame [frame_simps]:
  "store_ok (s\<lparr>time_counter := t\<rparr>) \<longleftrightarrow> store_ok s"
  "store_ok (s\<lparr>file_list_head := h\<rparr>) \<longleftrightarrow> store_ok s"
  "store_ok (s\<lparr>total_files := n\<rparr>) \<longleftrightarrow> store_ok s"
  "store_ok (s\<lparr>current_path := cp\<rparr>) \<longleftrightarrow> store_ok s"
  "store_ok (s\<lparr>fs_current_dir := c\<rparr>) \<longleftrightarrow> store_ok s"
  by (rule store_ok_cong; simp)+

lemma store_okD:
  assumes "store_ok s" and "node_at s p = Some d"
  shows store_ok_shape: "node_shape p d" and store_ok_links: "node_links s p d"
  using assms by (auto simp: store_ok_def)

lemma node_shapeD:
  assumes "node_shape p d"
  shows "length (node_name d) = MAX_FILENAME_LENGTH" and "terminated (node_name d)"
    and "child_count d \<le> MAX_FILES_PER_DIR"
    and "node_children d = map Some (kids d) @ replicate (MAX_FILES_PER_DIR - child_count d) None"
    and "node_size d \<le> MAX_FILE_SIZE"
  using assms by (simp_all add: node_shape_def)

lemma length_children: "node_shape p d \<Longrightarrow> length (node_children d) = MAX_FILES_PER_DIR"
  unfolding node_shape_def by blast

lemma length_kids: "node_shape p d \<Longrightarrow> length (kids d) = child_count d"
  by (simp add: kids_def length_children node_shapeD(3))

lemma kids_frame [frame_simps, simp]:
  "kids (d\<lparr>node_name := a\<rparr>) = kids d" "kids (d\<lparr>node_parent := q\<rparr>) = kids d"
  "kids (d\<lparr>modification_time := t\<rparr>) = kids d" "kids (d\<lparr>node_size := n\<rparr>) = kids d"
  by (simp_all add: kids_def)

lemma node_shape_frame [frame_simps, simp]:
  "node_shape p (d\<lparr>node_parent := q\<rparr>) = node_shape p d"
  "node_shape p (d\<lparr>modification_time := t\<rparr>) = node_shape p d"
  by (simp_all add: node_shape_def)

lemma node_shape_children:
  assumes "node_shape p d" and "node_type d = FILE_TYPE_DIRECTORY"
    and "ch = map Some ks @ replicate (MAX_FILES_PER_DIR - length ks) None"
    and "length ks \<le> MAX_FILES_PER_DIR"
  shows "kids (d\<lparr>node_children := ch, child_count := length ks\<rparr>) = ks"
    and "node_shape p (d\<lparr>node_children := ch, child_count := length ks\<rparr>)"
proof -
  show k: "kids (d\<lparr>node_children := ch, child_count := length ks\<rparr>) = ks"
    by (simp add: kids_def assms(3))
  have "length ch = MAX_FILES_PER_DIR" using assms(3,4) by simp
  then show "node_shape p (d\<lparr>node_children := ch, child_count := length ks\<rparr>)"
    using assms(1,2,3,4) unfolding node_shape_def k by simp
qed

lemma children_nth:
  "node_shape p d \<Longrightarrow> i < child_count d \<Longrightarrow> node_children d ! i = Some (kids d ! i)"
  by (subst node_shapeD(4)) (simp_all add: nth_append length_kids)

lemma child_present:
  assumes "store_ok s" and "node_at s p = Some d" and "k \<in> set (kids d)"
  obtains e where "node_at s k = Some e" and "node_parent e = Some p" and "p < k"
    and "terminated (node_name e)" and "label s k = cstr (node_name e)"
proof -
  from store_ok_links [OF assms(1,2)] assms(3) obtain e
    where e: "node_at s k = Some e" "node_parent e = Some p" "p < k"
    by (auto simp: node_links_def)
  moreover have "terminated (node_name e)"
    using node_shapeD(2) [OF store_ok_shape [OF assms(1) e(1)]] .
  ultimately show ?thesis using that by (simp add: label_def)
qed

lemma parent_present:
  assumes "store_ok s" and "node_at s p = Some d" and "node_parent d = Some q"
  shows "attached_dir s (Some q)"
  using store_ok_links [OF assms(1,2)] assms(3) by (auto simp: node_links_def attached_dir_def)

lemma attached_dirE:
  assumes "attached_dir s p"
  obtains q d where "p = Some q" and "node_at s q = Some d"
    and "node_type d = FILE_TYPE_DIRECTORY" and "node_parent d \<noteq> None"
  using assms by (auto simp: attached_dir_def)

text \<open>Every object lies below the allocation offset, so the next allocation is fresh.\<close>

lemma fresh_offset:
  assumes "store_ok s" and "node_at s p = Some d"
  shows "p + SIZEOF_FS_NODE \<le> unat (memory_offset s)"
  using assms by (auto simp: store_ok_def pool_ok_def)

lemma fresh_None: "store_ok s \<Longrightarrow> node_at s (unat (memory_offset s)) = None"
  using fresh_offset [of s "unat (memory_offset s)"] by (fastforce simp: SIZEOF_FS_NODE_def)

lemma data_block:
  assumes "store_ok s" and "node_at s p = Some d" and "node_data d = Some b"
  obtains blk where "block_at s b = Some blk" and "length blk = MAX_FILE_SIZE"
    and "b = p + SIZEOF_FS_NODE" and "node_type d = FILE_TYPE_REGULAR"
proof -
  have "b = p + SIZEOF_FS_NODE" "node_type d = FILE_TYPE_REGULAR"
    using store_ok_shape [OF assms(1,2)] assms(3)
    by (cases "node_type d"; simp add: node_shape_def)+
  moreover from assms have "\<exists>blk. block_at s b = Some blk \<and> length blk = MAX_FILE_SIZE"
    unfolding store_ok_def pool_ok_def by blast
  ultimately show ?thesis using that by blast
qed

section \<open>Updates that keep the store well-formed\<close>

text \<open>A new, unattached node at the allocation offset.\<close>

lemma store_ok_extend:
  assumes ok: "store_ok s" and p: "p = unat (memory_offset s)"
    and shape: "node_shape p d" and empty: "kids d = []" "node_parent d = None"
    and nodes: "node_at s' = (node_at s)(p \<mapsto> d)" and root: "fs_root s' = fs_root s"
    and blocks: "\<And>q. q < p \<Longrightarrow> block_at s' q = block_at s q"
    and off: "memory_offset s' < POOL_SIZE" "p + SIZEOF_FS_NODE \<le> unat (memory_offset s')"
    and data: "\<And>b. node_data d = Some b \<Longrightarrow> b + MAX_FILE_SIZE \<le> unat (memory_offset s') \<and>
          (\<exists>blk. block_at s' b = Some blk \<and> length blk = MAX_FILE_SIZE)"
  shows "store_ok s'"
proof -
  have old: "q + SIZEOF_FS_NODE \<le> p" if "node_at s q = Some e" for q e
    using fresh_offset [OF ok that] p by simp
  have old_lt: "q < p" if "node_at s q = Some e" for q e
    using old [OF that] by (simp add: SIZEOF_FS_NODE_def)
  have old_data: "b + MAX_FILE_SIZE \<le> p" "b < p" "\<exists>blk. block_at s b = Some blk \<and> length blk = MAX_FILE_SIZE"
    if "node_at s q = Some e" "node_data e = Some b" for q e b
    using ok that p by (auto simp: store_ok_def pool_ok_def MAX_FILE_SIZE_def) (fastforce)+
  have le: "p \<le> unat (memory_offset s')" using off(2) by simp
  have lab: "label s' k = label s k" if "k < p" for k
    using that nodes by (simp add: label_def)
  have links: "node_links s' q e" if q: "node_at s q = Some e" for q e
  proof -
    note L = store_ok_links [OF ok q]
    have "map (label s') (kids e) = map (label s) (kids e)"
      using L old_lt by (auto simp: node_links_def intro!: lab)
    moreover have "node_at s' k = node_at s k" if "node_at s k = Some e'" for k e'
      using old_lt [OF that] nodes by simp
    ultimately show ?thesis using L root unfolding node_links_def by metis
  qed
  have "pool_ok s'"
    unfolding pool_ok_def
  proof (intro conjI allI impI)
    show "memory_offset s' < POOL_SIZE" by (rule off(1))
  next
    fix q e assume q: "node_at s' q = Some e"
    show "q + SIZEOF_FS_NODE \<le> unat (memory_offset s')"
      using q old [of q e] le off(2) by (cases "q = p") (auto simp: nodes)
    {
      fix b assume b: "node_data e = Some b"
      show "b + MAX_FILE_SIZE \<le> unat (memory_offset s')"
        using q b old_data(1) [of q e b] le data by (cases "q = p") (auto simp: nodes)
      show "\<exists>blk. block_at s' b = Some blk \<and> length blk = MAX_FILE_SIZE"
        using q b old_data [of q e b] blocks [of b] data by (cases "q = p") (auto simp: nodes)
    }
    fix r f assume r: "node_at s' r = Some f" "q < r"
    then have qs: "node_at s q = Some e"
      using q old_lt [of r f] by (cases "q = p") (auto simp: nodes split: if_splits)
    show "q + SIZEOF_FS_NODE \<le> r"
      using r qs old [OF qs] ok by (cases "r = p") (auto simp: nodes store_ok_def pool_ok_def)
    fix b assume b: "node_data e = Some b"
    show "b + MAX_FILE_SIZE \<le> r"
      using r qs b old_data(1) [OF qs b] ok
      by (cases "r = p") (auto simp: nodes store_ok_def pool_ok_def)
  qed
  moreover have "node_shape q e \<and> node_links s' q e" if "node_at s' q = Some e" for q e
  proof (cases "q = p")
    case True
    then show ?thesis using that shape empty by (simp add: nodes node_links_def)
  next
    case False
    then show ?thesis using that store_ok_shape [OF ok] links by (simp add: nodes)
  qed
  ultimately show ?thesis by (simp add: store_ok_def)
qed

text \<open>A node whose name, type, parent and data pointer stay, with an admissible new list of
  children.\<close>

lemma store_ok_update:
  assumes ok: "store_ok s" and p: "node_at s p = Some d" and shape: "node_shape p d'"
    and same: "node_name d' = node_name d" "node_type d' = node_type d"
      "node_parent d' = node_parent d" "node_data d' = node_data d"
    and kids: "\<And>k. k \<in> set (kids d') \<Longrightarrow> p < k \<and> (\<exists>e. node_at s k = Some e \<and> node_parent e = Some p)"
      "distinct (map (label s) (kids d'))"
  shows "store_ok (set_node p d' s)"
proof -
  let ?s = "set_node p d' s"
  have lab: "label ?s = label s" using p same(1) by (simp add: label_def set_node_def fun_eq_iff)
  have links: "node_links ?s q e" if "node_at ?s q = Some e" for q e
  proof (cases "q = p")
    case True
    then show ?thesis
      using that kids store_ok_links [OF ok p] same p unfolding node_links_def lab
      by (auto simp: set_node_def)
  next
    case False
    then have "node_links s q e" using that store_ok_links [OF ok] by (simp add: set_node_def)
    then show ?thesis using p same unfolding node_links_def lab
      by (auto simp: set_node_def)
  qed
  have "pool_ok ?s"
    using ok p same(4) unfolding store_ok_def pool_ok_def
    by (auto simp: set_node_def split: if_splits)
  then show ?thesis
    using links store_ok_shape [OF ok] shape by (auto simp: store_ok_def set_node_def split: if_splits)
qed

text \<open>Giving an unattached node a parent.\<close>

lemma store_ok_attach:
  assumes ok: "store_ok s" and c: "node_at s c = Some d" "node_parent d = None"
    and q: "attached_dir s (Some q)" and "q < c"
  shows "store_ok (set_node c (d\<lparr>node_parent := Some q\<rparr>) s)"
proof -
  let ?s = "set_node c (d\<lparr>node_parent := Some q\<rparr>) s"
  have lab: "label ?s = label s" using c by (simp add: label_def set_node_def fun_eq_iff)
  have links: "node_links ?s p e" if "node_at ?s p = Some e" for p e
  proof (cases "p = c")
    case True
    then show ?thesis
      using that store_ok_links [OF ok c(1)] c q \<open>q < c\<close> unfolding node_links_def lab
      by (auto simp: set_node_def attached_dir_def kids_def)
  next
    case False
    then have "node_links s p e" using that store_ok_links [OF ok] by (simp add: set_node_def)
    then show ?thesis using c unfolding node_links_def lab
      by (auto simp: set_node_def)
  qed
  have "pool_ok ?s"
    using ok c unfolding store_ok_def pool_ok_def
    by (auto simp: set_node_def split: if_splits)
  moreover have "node_shape c (d\<lparr>node_parent := Some q\<rparr>)"
    using store_ok_shape [OF ok c(1)] by (simp add: node_shape_def kids_def)
  ultimately show ?thesis
    using links store_ok_shape [OF ok] by (auto simp: store_ok_def set_node_def split: if_splits)
qed

section \<open>Creating a node\<close>

lemma kmalloc_nat:
  assumes "memory_offset s < POOL_SIZE" and "n \<le> 65536"
  shows "kmalloc (of_nat n) s =
      (if unat (memory_offset s) + n < 65536
       then (Some (unat (memory_offset s)), s\<lparr>memory_offset := memory_offset s + of_nat n\<rparr>)
       else (None, s))"
    and "unat (memory_offset s + of_nat n) = unat (memory_offset s) + n"
proof -
  have mo: "unat (memory_offset s) < 65536"
    using assms(1) by (simp add: POOL_SIZE_def word_less_nat_alt)
  have n: "unat (of_nat n :: 32 word) = n"
    using assms(2) by (simp add: unat_of_nat)
  show sum: "unat (memory_offset s + of_nat n) = unat (memory_offset s) + n"
    using mo assms(2) by (subst unat_add_lem [THEN iffD1]) (simp_all add: n)
  show "kmalloc (of_nat n) s =
      (if unat (memory_offset s) + n < 65536
       then (Some (unat (memory_offset s)), s\<lparr>memory_offset := memory_offset s + of_nat n\<rparr>)
       else (None, s))"
    by (simp add: kmalloc_def POOL_SIZE_def word_le_nat_alt sum)
qed

text \<open>What a successful \<open>fs_create_file\<close> leaves: one unattached node at the old offset, with
  the name cut to 62 characters, and for a regular file a zeroed buffer if the pool has room.\<close>

definition created :: "fs_state \<Rightarrow> char list \<Rightarrow> file_type \<Rightarrow> ptr \<Rightarrow> fs_node \<Rightarrow> fs_state \<Rightarrow> bool" where
  "created s nm ty p d s' \<longleftrightarrow>
     p = unat (memory_offset s) \<and> node_at s p = None \<and> node_at s' = (node_at s)(p \<mapsto> d) \<and>
     node_shape p d \<and> kids d = [] \<and> node_parent d = None \<and> node_type d = ty \<and>
     cstr (node_name d) = take (MAX_FILENAME_LENGTH - 2) (cstr nm) \<and> node_size d = 0 \<and>
     node_data d = (if ty = FILE_TYPE_REGULAR \<and> p + SIZEOF_FS_NODE + MAX_FILE_SIZE < 65536
                    then Some (p + SIZEOF_FS_NODE) else None) \<and>
     (\<forall>b. node_data d = Some b \<longrightarrow> block_at s' b = Some (replicate MAX_FILE_SIZE NUL)) \<and>
     (\<forall>q<p. block_at s' q = block_at s q) \<and>
     fs_root s' = fs_root s \<and> fs_current_dir s' = fs_current_dir s \<and>
     current_path s' = current_path s \<and> total_files s' = total_files s + 1 \<and> store_ok s' \<and>
     unat (memory_offset s') = p + SIZEOF_FS_NODE + (if node_data d = None then 0 else MAX_FILE_SIZE)"

lemma created_extends: "created s nm ty p d s' \<Longrightarrow> fs_extends s s'"
  by (auto simp: created_def fs_extends_def)

lemma created_wf: "created s nm ty p d s' \<Longrightarrow> wf_fs s \<Longrightarrow> wf_fs s'"
  by (frule created_extends, rule wf_fs_step, assumption)
     (auto simp: created_def wf_fs_def intro: attached_extends)

definition can_create :: "fs_state \<Rightarrow> bool" where
  "can_create s \<longleftrightarrow> total_files s < MAX_TOTAL_FILES \<and>
     unat (memory_offset s) + SIZEOF_FS_NODE < 65536"

lemma kids_zero [simp]: "kids zero_node = []"
  by (simp add: kids_def zero_node_def)

lemma created_name:
  assumes "terminated nm"
  obtains a where "strncpy (node_name zero_node) nm (of_nat (MAX_FILENAME_LENGTH - 1)) = Some a"
    and "length a = MAX_FILENAME_LENGTH" and "terminated a"
    and "cstr a = take (MAX_FILENAME_LENGTH - 2) (cstr nm)"
proof -
  have len: "unat (of_nat (MAX_FILENAME_LENGTH - 1) - 1 :: 32 word) = MAX_FILENAME_LENGTH - 2"
    by (simp add: MAX_FILENAME_LENGTH_def)
  have "\<exists>a. strncpy (node_name zero_node) nm (of_nat (MAX_FILENAME_LENGTH - 1)) = Some a"
    unfolding strncpy_eq [OF assms] len
    by (simp add: zero_node_def Let_def MAX_FILENAME_LENGTH_def)
  then obtain a where a: "strncpy (node_name zero_node) nm (of_nat (MAX_FILENAME_LENGTH - 1)) = Some a" ..
  from strncpy_Some [OF a assms] show ?thesis
    by (intro that [OF a]) (simp_all only: len, simp_all add: zero_node_def)
qed

lemma fs_create_file_full: "\<not> can_create s \<Longrightarrow> store_ok s \<Longrightarrow> fs_create_file nm ty s = Some (None, s)"
  using kmalloc_nat(1) [of s SIZEOF_FS_NODE]
  by (auto simp: fs_create_file_def can_create_def store_ok_def pool_ok_def SIZEOF_FS_NODE_def)

lemma fs_create_file_created:
  assumes ok: "store_ok s" and nm: "terminated nm" and can: "can_create s"
  obtains p d s' where "fs_create_file nm ty s = Some (Some p, s')" and "created s nm ty p d s'"
proof -
  have off: "memory_offset s < POOL_SIZE" using ok by (simp add: store_ok_def pool_ok_def)
  define p where "p = unat (memory_offset s)"
  have room: "p + SIZEOF_FS_NODE < 65536" using can by (simp add: can_create_def p_def)
  obtain a where a: "strncpy (node_name zero_node) nm (of_nat (MAX_FILENAME_LENGTH - 1)) = Some a"
    and a_ok: "length a = MAX_FILENAME_LENGTH" "terminated a"
      "cstr a = take (MAX_FILENAME_LENGTH - 2) (cstr nm)"
    using nm by (rule created_name)
  define s1 where "s1 = s\<lparr>memory_offset := memory_offset s + of_nat SIZEOF_FS_NODE\<rparr>"
  define s2 where "s2 = s1\<lparr>time_counter := time_counter s + 1\<rparr>"
  have k1: "kmalloc (of_nat SIZEOF_FS_NODE) s = (Some p, s1)"
    using kmalloc_nat(1) [OF off, of SIZEOF_FS_NODE] room by (simp add: p_def s1_def SIZEOF_FS_NODE_def)
  have off2: "unat (memory_offset s2) = p + SIZEOF_FS_NODE"
    using kmalloc_nat(2) [OF off, of SIZEOF_FS_NODE] by (simp add: s2_def s1_def p_def SIZEOF_FS_NODE_def)
  then have off2': "memory_offset s2 < POOL_SIZE"
    using room by (simp add: POOL_SIZE_def word_less_nat_alt)
  note k2 = kmalloc_nat [OF off2', of MAX_FILE_SIZE, unfolded off2]
  define has where "has \<longleftrightarrow> ty = FILE_TYPE_REGULAR \<and> p + SIZEOF_FS_NODE + MAX_FILE_SIZE < 65536"
  define data where "data = (if has then Some (p + SIZEOF_FS_NODE) else None)"
  define s3 where "s3 = (if has then s2\<lparr>memory_offset := memory_offset s2 + of_nat MAX_FILE_SIZE,
      block_at := (block_at s2)(p + SIZEOF_FS_NODE \<mapsto> replicate MAX_FILE_SIZE NUL)\<rparr> else s2)"
  define d where "d = zero_node\<lparr> node_name := a, node_type := ty, creation_time := time_counter s + 1,
      modification_time := time_counter s + 1, node_data := data, node_size := 0,
      node_next := file_list_head s3 \<rparr>"
  define s' where "s' = (set_node p d s3)\<lparr> file_list_head := Some p, total_files := total_files s3 + 1 \<rparr>"
  have eq: "fs_create_file nm ty s = Some (Some p, s')"
  proof -
    have t: "get_current_time s1 = (time_counter s + 1, s2)"
      by (simp add: get_current_time_def s1_def s2_def)
    have "\<not> total_files s \<ge> MAX_TOTAL_FILES" using can by (simp add: can_create_def not_le)
    moreover have "(if ty = FILE_TYPE_DIRECTORY then (None, s2)
       else case kmalloc (of_nat MAX_FILE_SIZE) s2 of (None, s') \<Rightarrow> (None, s')
         | (Some b, s') \<Rightarrow> (Some b, s'\<lparr>block_at := (block_at s')(b \<mapsto> replicate MAX_FILE_SIZE NUL)\<rparr>))
      = (data, s3)"
      using k2(1) by (cases ty) (simp_all add: data_def s3_def has_def MAX_FILE_SIZE_def)
    ultimately show ?thesis
      unfolding fs_create_file_def by (simp only: k1 a t if_False prod.case option.case Let_def
        bind.bind_lunit d_def s'_def)
  qed
  have shape: "node_shape p d" and kids: "kids d = []"
    using a_ok by (auto simp: node_shape_def d_def data_def has_def kids_def zero_node_def)
  have none: "node_at s p = None" using fresh_None [OF ok] by (simp add: p_def)
  have off3: "memory_offset s3 < POOL_SIZE"
    "unat (memory_offset s3) = p + SIZEOF_FS_NODE + (if has then MAX_FILE_SIZE else 0)"
    using off2 off2' k2(2) by (auto simp: s3_def has_def POOL_SIZE_def word_less_nat_alt MAX_FILE_SIZE_def)
  have same: "node_at s3 = node_at s" "fs_root s3 = fs_root s" "fs_current_dir s3 = fs_current_dir s"
    "current_path s3 = current_path s" "total_files s3 = total_files s"
    by (simp_all add: s3_def s2_def s1_def)
  have blk: "block_at s3 q = block_at s q" if "q < p" for q
    using that by (simp add: s3_def s2_def s1_def)
  have blk_new: "block_at s3 b = Some (replicate MAX_FILE_SIZE NUL) \<and> b = p + SIZEOF_FS_NODE \<and> has"
    if "data = Some b" for b
    using that by (auto simp: data_def s3_def split: if_splits)
  have "store_ok s'"
    by (rule store_ok_extend [OF ok p_def shape kids])
       (use off3 same blk blk_new in \<open>auto simp: s'_def set_node_def d_def zero_node_def\<close>)
  moreover have "node_parent d = None" "node_type d = ty" "node_size d = 0"
    "cstr (node_name d) = take (MAX_FILENAME_LENGTH - 2) (cstr nm)"
    "node_data d = (if has then Some (p + SIZEOF_FS_NODE) else None)"
    using a_ok(3) by (simp_all add: d_def zero_node_def data_def)
  moreover have "\<forall>b. node_data d = Some b \<longrightarrow> block_at s3 b = Some (replicate MAX_FILE_SIZE NUL)"
    using blk_new by (simp add: d_def)
  moreover have "node_at s' = (node_at s)(p \<mapsto> d)" "block_at s' = block_at s3" "fs_root s' = fs_root s"
    "fs_current_dir s' = fs_current_dir s" "current_path s' = current_path s"
    "total_files s' = total_files s + 1" "memory_offset s' = memory_offset s3"
    using same by (simp_all add: s'_def set_node_def)
  ultimately have "created s nm ty p d s'"
    using shape kids none blk off3(2) unfolding created_def p_def [symmetric] has_def by simp
  with eq show ?thesis by (rule that)
qed

end
