(* ===== verification/Fs_Dir.thy ===== *)
theory Fs_Dir
  imports Fs_Store
begin

text \<open>
  Directories (\<open>fs_find_child\<close>, \<open>fs_add_child\<close>, \<open>fs_remove_child\<close> of
  \<open>filesystem.c\<close>): a directory is an array of 32 child pointers with a count, searched
  linearly by name. The abstract view is a finite map from names to nodes
  (\<open>dir_map\<close>). The interface is the locale \<open>directory\<close>: a client of the three operations
  needs only its map laws, which the interpretation at the end discharges for the code.
\<close>

section \<open>Operations\<close>

text \<open>The loop header that \<open>fs_find_child\<close> and \<open>fs_remove_child\<close> share: the first index
  whose child is not \<open>NULL\<close> and has the given name.\<close>

fun child_index :: "fs_state \<Rightarrow> fs_node \<Rightarrow> char list \<Rightarrow> nat list \<Rightarrow> nat option option" where
  "child_index s d nm [] = Some None"
| "child_index s d nm (i # is) = do {
     c \<leftarrow> arr_get (node_children d) i;
     case c of
       None \<Rightarrow> child_index s d nm is
     | Some k \<Rightarrow> do {
         e \<leftarrow> node_at s k;
         r \<leftarrow> strcmp (node_name e) nm;
         if r = 0 then Some (Some i) else child_index s d nm is } }"

definition fs_find_child :: "ptr option \<Rightarrow> char list \<Rightarrow> fs_state \<Rightarrow> ptr option option" where
  "fs_find_child parent nm s =
     (case parent of
        None \<Rightarrow> Some None
      | Some p \<Rightarrow> do {
          d \<leftarrow> node_at s p;
          if node_type d \<noteq> FILE_TYPE_DIRECTORY then Some None
          else do {
            r \<leftarrow> child_index s d nm [0..<child_count d];
            case r of None \<Rightarrow> Some None | Some i \<Rightarrow> arr_get (node_children d) i } })"

definition fs_add_child :: "ptr option \<Rightarrow> ptr option \<Rightarrow> fs_state \<Rightarrow> (int \<times> fs_state) option" where
  "fs_add_child parent child s =
     (case (parent, child) of
        (Some p, Some c) \<Rightarrow> do {
          d \<leftarrow> node_at s p;
          if node_type d \<noteq> FILE_TYPE_DIRECTORY then Some (-1, s)
          else if child_count d \<ge> MAX_FILES_PER_DIR then Some (-1, s)
          else do {
            e \<leftarrow> node_at s c;
            clash \<leftarrow> fs_find_child parent (node_name e) s;
            if clash \<noteq> None then Some (-1, s)
            else do {
              ch \<leftarrow> arr_set (node_children d) (child_count d) child;
              let s1 = set_node p (d\<lparr>node_children := ch, child_count := child_count d + 1\<rparr>) s;
              e \<leftarrow> node_at s1 c;
              let s2 = set_node c (e\<lparr>node_parent := parent\<rparr>) s1;
              let (now, s3) = get_current_time s2;
              d \<leftarrow> node_at s3 p;
              Some (0, set_node p (d\<lparr>modification_time := now\<rparr>) s3) } } }
      | _ \<Rightarrow> Some (-1, s))"

definition fs_remove_child :: "ptr option \<Rightarrow> char list \<Rightarrow> fs_state \<Rightarrow> (int \<times> fs_state) option" where
  "fs_remove_child parent nm s =
     (case parent of
        None \<Rightarrow> Some (-1, s)
      | Some p \<Rightarrow> do {
          d \<leftarrow> node_at s p;
          if node_type d \<noteq> FILE_TYPE_DIRECTORY then Some (-1, s)
          else do {
            r \<leftarrow> child_index s d nm [0..<child_count d];
            case r of
              None \<Rightarrow> Some (-1, s)
            | Some i \<Rightarrow> do {
                ch \<leftarrow> ofold shift_left_step [i..<child_count d - 1] (node_children d);
                ch \<leftarrow> arr_set ch (child_count d - 1) None;
                let (now, s1) = get_current_time s;
                Some (0, set_node p (d\<lparr>node_children := ch, child_count := child_count d - 1,
                  modification_time := now\<rparr>) s1) } } })"

section \<open>The abstract view\<close>

definition dir_map :: "fs_state \<Rightarrow> ptr \<Rightarrow> string \<rightharpoonup> ptr" where
  "dir_map s p = (case node_at s p of None \<Rightarrow> Map.empty
     | Some d \<Rightarrow> map_of (map (\<lambda>k. (label s k, k)) (kids d)))"

lemma dir_map_eq:
  "node_at s p = Some d \<Longrightarrow> dir_map s p = map_of (map (\<lambda>k. (label s k, k)) (kids d))"
  by (simp add: dir_map_def)

section \<open>Searching\<close>

lemma child_index_spec:
  assumes ok: "store_ok s" and p: "node_at s p = Some d" and nm: "terminated nm"
    and "i \<le> child_count d"
  shows "yields (child_index s d nm [i..<child_count d]) (\<lambda>r. case r of
      None \<Rightarrow> \<forall>j. i \<le> j \<and> j < child_count d \<longrightarrow> label s (kids d ! j) \<noteq> cstr nm
    | Some j \<Rightarrow> i \<le> j \<and> j < child_count d \<and> label s (kids d ! j) = cstr nm)"
  using assms(4)
proof (induction i rule: inc_induct)
  case (step i)
  note shape = store_ok_shape [OF ok p]
  have "kids d ! i \<in> set (kids d)" using step.hyps length_kids [OF shape] by simp
  then obtain e where e: "node_at s (kids d ! i) = Some e" "terminated (node_name e)"
    "label s (kids d ! i) = cstr (node_name e)"
    using child_present [OF ok p] by metis
  obtain r where r: "strcmp (node_name e) nm = Some r" "r = 0 \<longleftrightarrow> cstr (node_name e) = cstr nm"
    using strcmp_defined [OF e(2) nm] by (auto elim: yieldsE)
  have "i < length (node_children d)"
    using step.hyps length_children [OF shape] node_shapeD(3) [OF shape] by simp
  then have "child_index s d nm [i..<child_count d] =
      (if r = 0 then Some (Some i) else child_index s d nm [Suc i..<child_count d])"
    using step.hyps e r by (simp add: upt_conv_Cons children_nth [OF shape])
  moreover have "yields (child_index s d nm [Suc i..<child_count d]) (\<lambda>r. case r of
      None \<Rightarrow> \<forall>j. i \<le> j \<and> j < child_count d \<longrightarrow> label s (kids d ! j) \<noteq> cstr nm
    | Some j \<Rightarrow> i \<le> j \<and> j < child_count d \<and> label s (kids d ! j) = cstr nm)" if "r \<noteq> 0"
    using step.IH
    by (rule yields_mono) (use that r e in \<open>auto split: option.splits simp: le_less_Suc_eq dest: le_neq_implies_less\<close>)
  ultimately show ?case using step.hyps r e by simp
qed auto

lemma map_of_labels_nth:
  assumes "distinct (map f ks)" and "j < length ks"
  shows "map_of (map (\<lambda>k. (f k, k)) ks) (f (ks ! j)) = Some (ks ! j)"
  using assms by (simp add: map_of_eq_Some_iff comp_def)

lemma map_of_labels_None: "\<forall>j < length ks. f (ks ! j) \<noteq> x \<Longrightarrow> map_of (map (\<lambda>k. (f k, k)) ks) x = None"
  by (auto simp: map_of_eq_None_iff in_set_conv_nth)

lemma distinct_labels: "store_ok s \<Longrightarrow> node_at s p = Some d \<Longrightarrow> distinct (map (label s) (kids d))"
  using store_ok_links by (auto simp: node_links_def)

lemma card_dir_map:
  assumes ok: "store_ok s" and p: "node_at s p = Some d"
  shows "card (dom (dir_map s p)) = child_count d"
proof -
  have "dom (dir_map s p) = set (map (label s) (kids d))"
    by (simp add: dir_map_eq [OF p] dom_map_of_conv_image_fst image_image)
  then show ?thesis
    using distinct_card [OF distinct_labels [OF ok p]] length_kids [OF store_ok_shape [OF ok p]] by simp
qed

lemma fs_find_child_eq:
  assumes ok: "store_ok s" and p: "node_at s p = Some d" and dir: "node_type d = FILE_TYPE_DIRECTORY"
    and nm: "terminated nm"
  shows "fs_find_child (Some p) nm s = Some (dir_map s p (cstr nm))"
proof -
  note shape = store_ok_shape [OF ok p]
  note kids = length_kids [OF shape]
  obtain r where r: "child_index s d nm [0..<child_count d] = Some r" and
    spec: "case r of None \<Rightarrow> \<forall>j. 0 \<le> j \<and> j < child_count d \<longrightarrow> label s (kids d ! j) \<noteq> cstr nm
      | Some j \<Rightarrow> 0 \<le> j \<and> j < child_count d \<and> label s (kids d ! j) = cstr nm"
    using child_index_spec [OF ok p nm, of 0] unfolding yields_iff by blast
  show ?thesis
  proof (cases r)
    case None
    with spec kids have "dir_map s p (cstr nm) = None"
      by (simp add: dir_map_eq [OF p] map_of_labels_None)
    with None r p dir show ?thesis by (simp add: fs_find_child_def)
  next
    case (Some j)
    with spec kids have "dir_map s p (cstr nm) = Some (kids d ! j)"
      using map_of_labels_nth [OF distinct_labels [OF ok p], of j] by (simp add: dir_map_eq [OF p])
    moreover have "arr_get (node_children d) j = Some (Some (kids d ! j))"
      using Some spec children_nth [OF shape] length_children [OF shape] node_shapeD(3) [OF shape] by simp
    ultimately show ?thesis using Some r p dir by (simp add: fs_find_child_def)
  qed
qed

lemma dir_map_present:
  assumes "store_ok s" and "dir_map s p x = Some k"
  obtains e where "node_at s k = Some e" and "node_parent e = Some p" and "p < k" and "label s k = x"
proof -
  from assms(2) obtain d where d: "node_at s p = Some d" "k \<in> set (kids d)" "label s k = x"
    by (auto simp: dir_map_def dest!: map_of_SomeD split: option.splits)
  from child_present [OF assms(1) d(1,2)] d(3) that show ?thesis by metis
qed

section \<open>Updating a directory\<close>

text \<open>The directory operations write nodes and tick the clock, nothing else.\<close>

definition only_nodes :: "fs_state \<Rightarrow> fs_state \<Rightarrow> bool" where
  "only_nodes s s' \<longleftrightarrow> block_at s' = block_at s \<and> memory_offset s' = memory_offset s \<and>
     fs_root s' = fs_root s \<and> fs_current_dir s' = fs_current_dir s \<and>
     file_list_head s' = file_list_head s \<and> total_files s' = total_files s \<and>
     current_path s' = current_path s"

lemma only_nodes_refl [simp]: "only_nodes s s"
  by (simp add: only_nodes_def)

lemma only_nodes_trans: "only_nodes s t \<Longrightarrow> only_nodes t u \<Longrightarrow> only_nodes s u"
  by (simp add: only_nodes_def)

text \<open>A directory whose list of children and whose children's names are the same has the same map.\<close>

lemma dir_map_cong:
  assumes "label s' = label s" and "map_option kids (node_at s' q) = map_option kids (node_at s q)"
  shows "dir_map s' q = dir_map s q"
  using assms by (auto simp: dir_map_def split: option.splits)

definition dir_updated :: "fs_state \<Rightarrow> ptr \<Rightarrow> (string \<rightharpoonup> ptr) \<Rightarrow> fs_state \<Rightarrow> bool" where
  "dir_updated s p m s' \<longleftrightarrow> only_nodes s s' \<and> store_ok s' \<and> dir_map s' p = m \<and>
     (\<forall>q. q \<noteq> p \<longrightarrow> dir_map s' q = dir_map s q) \<and> label s' = label s \<and> fs_extends s s' \<and>
     (\<forall>q. map_option node_size (node_at s' q) = map_option node_size (node_at s q))"

lemma dir_updated_wf: "dir_updated s p m s' \<Longrightarrow> wf_fs s \<Longrightarrow> wf_fs s'"
  by (rule wf_fs_step [of s])
     (auto simp: dir_updated_def only_nodes_def wf_fs_def intro: attached_extends)

lemma kids_append:
  fixes c :: ptr
  assumes shape: "node_shape p d" and "child_count d < MAX_FILES_PER_DIR"
    and "node_type d = FILE_TYPE_DIRECTORY"
  defines "d' \<equiv> d\<lparr>node_children := (node_children d)[child_count d := Some c],
                  child_count := child_count d + 1\<rparr>"
  shows "kids d' = kids d @ [c]" and "node_shape p d'"
proof -
  let ?n = "child_count d"
  have len: "length (kids d) = ?n" by (rule length_kids [OF shape])
  have "replicate (MAX_FILES_PER_DIR - ?n) (None :: ptr option) = None # replicate (MAX_FILES_PER_DIR - Suc ?n) None"
    using assms(2) by (metis Suc_diff_Suc replicate_Suc)
  then have ch: "(node_children d)[?n := Some c] =
      map Some (kids d @ [c]) @ replicate (MAX_FILES_PER_DIR - length (kids d @ [c])) None"
    by (subst node_shapeD(4) [OF shape]) (simp add: list_update_append len)
  show "kids d' = kids d @ [c]" and "node_shape p d'"
    using node_shape_children [OF shape assms(3) ch] assms(2) by (simp_all add: d'_def len)
qed

lemma fs_add_child_refused:
  assumes ok: "store_ok s" and p: "node_at s p = Some d" "node_type d = FILE_TYPE_DIRECTORY"
    and c: "node_at s c = Some e"
    and no: "child_count d = MAX_FILES_PER_DIR \<or> dir_map s p (label s c) \<noteq> None"
  shows "fs_add_child (Some p) (Some c) s = Some (-1, s)"
proof -
  have "terminated (node_name e)" using node_shapeD(2) [OF store_ok_shape [OF ok c]] .
  then have "fs_find_child (Some p) (node_name e) s = Some (dir_map s p (label s c))"
    using fs_find_child_eq [OF ok p] c by (simp add: label_def)
  then show ?thesis using p c no by (auto simp: fs_add_child_def)
qed

lemma fs_add_child_added:
  assumes ok: "store_ok s" and p: "node_at s p = Some d" "node_type d = FILE_TYPE_DIRECTORY"
      "node_parent d \<noteq> None"
    and c: "node_at s c = Some e" "node_parent e = None" "p < c"
    and yes: "child_count d < MAX_FILES_PER_DIR" "dir_map s p (label s c) = None"
  obtains s' where "fs_add_child (Some p) (Some c) s = Some (0, s')"
    and "dir_updated s p ((dir_map s p)(label s c \<mapsto> c)) s'"
    and "\<And>q f. node_at s q = Some f \<Longrightarrow> \<exists>f'. node_at s' q = Some f' \<and>
          node_parent f' = (if q = c then Some p else node_parent f)"
proof -
  note shape = store_ok_shape [OF ok p(1)]
  have "terminated (node_name e)" using node_shapeD(2) [OF store_ok_shape [OF ok c(1)]] .
  then have find: "fs_find_child (Some p) (node_name e) s = Some None"
    using fs_find_child_eq [OF ok p(1,2)] c yes by (simp add: label_def)
  let ?ch = "(node_children d)[child_count d := Some c]"
  define d1 where "d1 = d\<lparr>node_children := ?ch, child_count := child_count d + 1\<rparr>"
  define d2 where "d2 = d1\<lparr>modification_time := time_counter s + 1\<rparr>"
  define e' where "e' = e\<lparr>node_parent := Some p\<rparr>"
  define s' where "s' = s\<lparr>node_at := (node_at s)(p \<mapsto> d2, c \<mapsto> e'), time_counter := time_counter s + 1\<rparr>"
  have eq: "fs_add_child (Some p) (Some c) s = Some (0, s')"
    using p c yes find length_children [OF shape]
    by (simp add: fs_add_child_def set_node_def get_current_time_def s'_def d2_def d1_def e'_def
        fun_upd_twist [of c p])
  have k1: "kids d2 = kids d @ [c]" and shape2: "node_shape p d2"
    using kids_append [OF shape yes(1) p(2), of c] by (simp_all add: d1_def d2_def)
  have ok1: "store_ok (set_node c e' s)"
    unfolding e'_def using p c by (intro store_ok_attach ok) (auto simp: attached_dir_def)
  have lab1: "label (set_node c e' s) = label s"
    using c by (simp add: label_def set_node_def fun_eq_iff e'_def)
  have fresh: "label s c \<notin> set (map (label s) (kids d))"
    using yes(2) by (simp add: dir_map_eq [OF p(1)] map_of_eq_None_iff image_image)
  have "store_ok (set_node p d2 (set_node c e' s))"
  proof (rule store_ok_update [OF ok1 _ shape2])
    show "node_at (set_node c e' s) p = Some d" using c p by (simp add: set_node_def)
    show "distinct (map (label (set_node c e' s)) (kids d2))"
      using distinct_labels [OF ok p(1)] fresh by (simp add: lab1 k1)
    show "p < k \<and> (\<exists>f. node_at (set_node c e' s) k = Some f \<and> node_parent f = Some p)"
      if "k \<in> set (kids d2)" for k
      using that c child_present [OF ok p(1), of k] k1 by (auto simp: set_node_def e'_def)
  qed (simp_all add: d2_def d1_def)
  moreover have "set_node p d2 (set_node c e' s) = s'\<lparr>time_counter := time_counter s\<rparr>"
    using c by (simp add: set_node_def s'_def fun_upd_twist [of c p])
  ultimately have ok': "store_ok s'" by (metis store_ok_frame(1))
  have lab: "label s' = label s"
    using c p by (simp add: label_def s'_def fun_eq_iff e'_def d2_def d1_def)
  have "dir_map s' p = (dir_map s p)(label s c \<mapsto> c)"
  proof -
    have "map_of (map (\<lambda>k. (label s k, k)) (kids d) @ [(label s c, c)]) = (dir_map s p)(label s c \<mapsto> c)"
      using yes(2) by (simp add: dir_map_eq [OF p(1)] map_add_def fun_eq_iff split: option.split)
    then show ?thesis using c by (simp add: dir_map_def s'_def lab [unfolded s'_def] k1)
  qed
  moreover have "dir_map s' q = dir_map s q" if "q \<noteq> p" for q
    using that c by (intro dir_map_cong lab) (auto simp: s'_def e'_def kids_def)
  moreover have "fs_extends s s'"
    using c p by (auto simp: fs_extends_def s'_def e'_def d2_def d1_def)
  ultimately have upd: "dir_updated s p ((dir_map s p)(label s c \<mapsto> c)) s'"
    using ok' lab c p by (auto simp: dir_updated_def only_nodes_def s'_def e'_def d2_def d1_def)
  have par: "\<exists>f'. node_at s' q = Some f' \<and> node_parent f' = (if q = c then Some p else node_parent f)"
    if "node_at s q = Some f" for q f
    using that c p by (auto simp: s'_def e'_def d2_def d1_def)
  show ?thesis by (rule that [OF eq upd par])
qed

lemma map_of_labels_remove:
  assumes "distinct (map f (xs @ y # zs))"
  shows "map_of (map (\<lambda>k. (f k, k)) (xs @ zs)) = (map_of (map (\<lambda>k. (f k, k)) (xs @ y # zs)))(f y := None)"
proof -
  have "map_of (map (\<lambda>k. (f k, k)) xs) (f y) = None" "map_of (map (\<lambda>k. (f k, k)) zs) (f y) = None"
    using assms by (auto simp: map_of_eq_None_iff)
  then show ?thesis by (auto simp: fun_eq_iff map_add_def split: option.split)
qed

text \<open>Closing the gap at index \<open>i\<close> and clearing the last slot.\<close>

lemma children_remove:
  assumes ch: "ch = map Some ks @ replicate (m - length ks) None" and i: "i < length ks"
    and m: "length ks \<le> m"
  shows "do { ch \<leftarrow> ofold shift_left_step [i..<length ks - 1] ch; arr_set ch (length ks - 1) None }
    = Some (map Some (take i ks @ drop (Suc i) ks) @ replicate (m - (length ks - 1)) None)"
proof -
  let ?n = "length ks - 1"
  let ?ks' = "take i ks @ drop (Suc i) ks"
  have "?n < length ch" using ch m i by simp
  then have "ofold shift_left_step [i..<?n] ch =
      Some (take i ch @ take (?n - i) (drop (Suc i) ch) @ drop ?n ch)"
    using i by (intro shift_left) auto
  moreover have "take i ch = map Some (take i ks)" "take (?n - i) (drop (Suc i) ch) = map Some (drop (Suc i) ks)"
    using i by (simp_all add: ch take_map drop_map)
  moreover have "drop ?n ch = Some (last ks) # replicate (m - length ks) None"
  proof -
    from i have "ks = take ?n ks @ [last ks]"
      by (metis append_butlast_last_id butlast_conv_take length_greater_0_conv less_nat_zero_code not_gr0)
    then have "drop ?n ks = [last ks]" by (metis append_eq_conv_conj length_take diff_le_self min.absorb2)
    then show ?thesis by (simp add: ch drop_map)
  qed
  moreover have "replicate (m - ?n) (None :: 'a option) = None # replicate (m - length ks) None"
    using i m by (simp add: replicate_Suc [symmetric] Suc_diff_le [symmetric] del: replicate_Suc)
  moreover have "length (map Some ?ks') = ?n" using i by simp
  ultimately show ?thesis
    by (simp add: arr_set_def list_update_append del: length_append) (simp add: i)
qed

lemma fs_remove_child_absent:
  assumes ok: "store_ok s" and p: "node_at s p = Some d" "node_type d = FILE_TYPE_DIRECTORY"
    and nm: "terminated nm" and absent: "dir_map s p (cstr nm) = None"
  shows "fs_remove_child (Some p) nm s = Some (-1, s)"
proof -
  note shape = store_ok_shape [OF ok p(1)]
  have no: "label s (kids d ! j) \<noteq> cstr nm" if "j < child_count d" for j
  proof -
    have "kids d ! j \<in> set (kids d)" using that length_kids [OF shape] by simp
    with absent show ?thesis by (force simp: dir_map_eq [OF p(1)] map_of_eq_None_iff)
  qed
  have "child_index s d nm [0..<child_count d] = Some None"
    using child_index_spec [OF ok p(1) nm, of 0] no unfolding yields_iff
    by (auto split: option.splits)
  then show ?thesis using p by (simp add: fs_remove_child_def)
qed

lemma fs_remove_child_removed:
  assumes ok: "store_ok s" and p: "node_at s p = Some d" "node_type d = FILE_TYPE_DIRECTORY"
    and nm: "terminated nm" and present: "dir_map s p (cstr nm) = Some k"
  obtains s' where "fs_remove_child (Some p) nm s = Some (0, s')"
    and "dir_updated s p ((dir_map s p)(cstr nm := None)) s'"
    and "\<And>q. map_option node_parent (node_at s' q) = map_option node_parent (node_at s q)"
    and "\<And>q. q \<noteq> p \<Longrightarrow> node_at s' q = node_at s q"
    and "\<And>d'. node_at s' p = Some d' \<Longrightarrow> child_count d' = child_count d - 1"
proof -
  note shape = store_ok_shape [OF ok p(1)]
  note len = length_kids [OF shape]
  obtain r where r: "child_index s d nm [0..<child_count d] = Some r" and
    spec: "case r of None \<Rightarrow> \<forall>j. 0 \<le> j \<and> j < child_count d \<longrightarrow> label s (kids d ! j) \<noteq> cstr nm
      | Some j \<Rightarrow> 0 \<le> j \<and> j < child_count d \<and> label s (kids d ! j) = cstr nm"
    using child_index_spec [OF ok p(1) nm, of 0] unfolding yields_iff by blast
  have "r \<noteq> None"
  proof
    assume "r = None"
    with spec len have "dir_map s p (cstr nm) = None" by (simp add: dir_map_eq [OF p(1)] map_of_labels_None)
    with present show False by simp
  qed
  with spec obtain i where r_i: "r = Some i" and i: "i < child_count d" "label s (kids d ! i) = cstr nm"
    by auto
  define xs zs where "xs = take i (kids d)" and "zs = drop (Suc i) (kids d)"
  have split: "kids d = xs @ kids d ! i # zs" unfolding xs_def zs_def using i len by (simp add: id_take_nth_drop)
  define ch where "ch = map Some (xs @ zs) @ replicate (MAX_FILES_PER_DIR - (child_count d - 1)) None"
  have len': "length (xs @ zs) = child_count d - 1" using i len by (simp add: xs_def zs_def)
  have rm: "do { ch \<leftarrow> ofold shift_left_step [i..<child_count d - 1] (node_children d);
       arr_set ch (child_count d - 1) None } = Some ch"
    using children_remove [OF node_shapeD(4) [OF shape, folded len], of i] i node_shapeD(3) [OF shape]
    by (simp add: len ch_def xs_def zs_def)
  define d' where "d' = d\<lparr>node_children := ch, child_count := child_count d - 1,
      modification_time := time_counter s + 1\<rparr>"
  define s' where "s' = (set_node p d' s)\<lparr>time_counter := time_counter s + 1\<rparr>"
  have eq: "fs_remove_child (Some p) nm s = Some (0, s')"
    using p r r_i rm by (auto simp: fs_remove_child_def get_current_time_def s'_def d'_def set_node_def
        bind_eq_Some_conv)
  have k': "kids d' = xs @ zs" and shape': "node_shape p d'"
    using node_shape_children [OF shape p(2), of ch "xs @ zs"] len' node_shapeD(3) [OF shape]
    by (simp_all add: d'_def ch_def [folded len'])
  have "store_ok (set_node p d' s)"
  proof (rule store_ok_update [OF ok p(1) shape'])
    have "distinct (map (label s) (xs @ kids d ! i # zs))"
      using distinct_labels [OF ok p(1)] split by simp
    then show "distinct (map (label s) (kids d'))" by (simp add: k')
    show "p < k \<and> (\<exists>f. node_at s k = Some f \<and> node_parent f = Some p)" if "k \<in> set (kids d')" for k
    proof -
      have "k \<in> set (kids d)" using that by (subst split) (auto simp: k')
      then show ?thesis using child_present [OF ok p(1)] by metis
    qed
  qed (simp_all add: d'_def)
  then have ok': "store_ok s'" by (simp add: s'_def frame_simps)
  have lab: "label s' = label s" using p by (simp add: label_def s'_def set_node_def fun_eq_iff d'_def)
  have "dir_map s' p = (dir_map s p)(cstr nm := None)"
  proof -
    have "node_at s' p = Some d'" by (simp add: s'_def set_node_def)
    then show ?thesis
      using map_of_labels_remove [of "label s" xs "kids d ! i" zs] distinct_labels [OF ok p(1)] split i(2)
      by (simp add: dir_map_eq p(1) lab k')
  qed
  moreover have "dir_map s' q = dir_map s q" if "q \<noteq> p" for q
    using that by (intro dir_map_cong lab) (simp add: s'_def set_node_def)
  moreover have "fs_extends s s'"
    using p by (auto simp: fs_extends_def s'_def d'_def set_node_def)
  ultimately have upd: "dir_updated s p ((dir_map s p)(cstr nm := None)) s'"
    using ok' lab p by (simp add: dir_updated_def only_nodes_def s'_def set_node_def d'_def)
  show ?thesis by (rule that [OF eq upd]) (use p in \<open>auto simp: s'_def set_node_def d'_def\<close>)
qed

section \<open>The interface of a directory\<close>

text \<open>
  \<open>entries\<close> is the map a directory presents, \<open>name_of\<close> the name a node would be entered
  under, \<open>fresh s p c\<close> says that \<open>c\<close> is a node that may be entered into \<open>p\<close>, \<open>full\<close> that
  \<open>p\<close> has no free slot. \<open>add\<close> and \<open>remove\<close> return the C status code.
\<close>

locale directory =
  fixes inv :: "'s \<Rightarrow> bool"
    and isdir :: "'s \<Rightarrow> 'p \<Rightarrow> bool"
    and entries :: "'s \<Rightarrow> 'p \<Rightarrow> string \<rightharpoonup> 'p"
    and name_of :: "'s \<Rightarrow> 'p \<Rightarrow> string"
    and fresh :: "'s \<Rightarrow> 'p \<Rightarrow> 'p \<Rightarrow> bool"
    and full :: "'s \<Rightarrow> 'p \<Rightarrow> bool"
    and find :: "'p \<Rightarrow> char list \<Rightarrow> 's \<Rightarrow> 'p option option"
    and add :: "'p \<Rightarrow> 'p \<Rightarrow> 's \<Rightarrow> (int \<times> 's) option"
    and remove :: "'p \<Rightarrow> char list \<Rightarrow> 's \<Rightarrow> (int \<times> 's) option"
  assumes find_entries: "\<lbrakk>inv s; isdir s p; terminated nm\<rbrakk> \<Longrightarrow>
      find p nm s = Some (entries s p (cstr nm))"
    and add_refused: "\<lbrakk>inv s; isdir s p; fresh s p c; full s p \<or> entries s p (name_of s c) \<noteq> None\<rbrakk> \<Longrightarrow>
      add p c s = Some (-1, s)"
    and add_enters: "\<lbrakk>inv s; isdir s p; fresh s p c; \<not> full s p; entries s p (name_of s c) = None\<rbrakk> \<Longrightarrow>
      yields (add p c s) (\<lambda>(r, s'). r = 0 \<and> inv s' \<and> (\<forall>q. isdir s q \<longrightarrow> isdir s' q) \<and>
        entries s' p = (entries s p)(name_of s c \<mapsto> c) \<and> (\<forall>q. q \<noteq> p \<longrightarrow> entries s' q = entries s q))"
    and remove_absent: "\<lbrakk>inv s; isdir s p; terminated nm; entries s p (cstr nm) = None\<rbrakk> \<Longrightarrow>
      remove p nm s = Some (-1, s)"
    and remove_drops: "\<lbrakk>inv s; isdir s p; terminated nm; entries s p (cstr nm) \<noteq> None\<rbrakk> \<Longrightarrow>
      yields (remove p nm s) (\<lambda>(r, s'). r = 0 \<and> inv s' \<and> (\<forall>q. isdir s q \<longrightarrow> isdir s' q) \<and> \<not> full s' p \<and>
        entries s' p = (entries s p)(cstr nm := None) \<and> (\<forall>q. q \<noteq> p \<longrightarrow> entries s' q = entries s q))"
begin

lemma find_after_add:
  assumes "inv s" "isdir s p" "fresh s p c" "\<not> full s p" "entries s p (name_of s c) = None"
    and q: "isdir s q" and nm: "terminated nm"
  shows "yields (do { (r, s') \<leftarrow> add p c s; f \<leftarrow> find q nm s'; Some (r, f) })
    (\<lambda>(r, f). r = 0 \<and> f = (if q = p \<and> cstr nm = name_of s c then Some c else entries s q (cstr nm)))"
  using add_enters [OF assms(1-5)] q nm
  by (cases "q = p") (auto simp: yields_iff find_entries split_def)

lemma find_after_remove:
  assumes "inv s" "isdir s p" "terminated nm" "entries s p (cstr nm) \<noteq> None"
    and q: "isdir s q" and nm': "terminated nm'"
  shows "yields (do { (r, s') \<leftarrow> remove p nm s; f \<leftarrow> find q nm' s'; Some (r, f) })
    (\<lambda>(r, f). r = 0 \<and> f = (if q = p \<and> cstr nm' = cstr nm then None else entries s q (cstr nm')))"
  using remove_drops [OF assms(1-4)] q nm'
  by (cases "q = p") (auto simp: yields_iff find_entries split_def)

text \<open>Removing what was just entered gives the directory back.\<close>

lemma add_remove:
  assumes "inv s" "isdir s p" "fresh s p c" "\<not> full s p" "entries s p (name_of s c) = None"
    and nm: "terminated nm" "cstr nm = name_of s c"
  shows "yields (do { (r, s1) \<leftarrow> add p c s; (r', s2) \<leftarrow> remove p nm s1; Some (r, r', s2) })
    (\<lambda>(r, r', s2). r = 0 \<and> r' = 0 \<and> (\<forall>q. entries s2 q = entries s q))"
proof -
  from add_enters [OF assms(1-5)] obtain s1 where s1: "add p c s = Some (0, s1)" "inv s1"
    "isdir s1 p" "entries s1 p = (entries s p)(name_of s c \<mapsto> c)"
    "\<forall>q. q \<noteq> p \<longrightarrow> entries s1 q = entries s q"
    using assms(2) by (auto simp: yields_iff)
  then have "entries s1 p (cstr nm) \<noteq> None" using nm by simp
  from remove_drops [OF s1(2,3) nm(1) this] obtain s2 where "remove p nm s1 = Some (0, s2)"
    "entries s2 p = (entries s1 p)(cstr nm := None)" "\<forall>q. q \<noteq> p \<longrightarrow> entries s2 q = entries s1 q"
    by (auto simp: yields_iff)
  moreover from calculation have "entries s2 q = entries s q" for q
    using s1(4,5) nm(2) assms(5) by (cases "q = p") auto
  ultimately show ?thesis using s1(1) by simp
qed

end

text \<open>The model of \<open>filesystem.c\<close> provides the interface.\<close>

definition enterable :: "fs_state \<Rightarrow> ptr \<Rightarrow> ptr \<Rightarrow> bool" where
  "enterable s p c \<longleftrightarrow> p < c \<and> (case node_at s c of None \<Rightarrow> False | Some e \<Rightarrow> node_parent e = None)"

definition dir_full :: "fs_state \<Rightarrow> ptr \<Rightarrow> bool" where
  "dir_full s p \<longleftrightarrow> (case node_at s p of None \<Rightarrow> True | Some d \<Rightarrow> child_count d \<ge> MAX_FILES_PER_DIR)"

interpretation fs_dir: directory store_ok "\<lambda>s p. attached_dir s (Some p)" dir_map label enterable dir_full
  "\<lambda>p. fs_find_child (Some p)" "\<lambda>p c. fs_add_child (Some p) (Some c)" "\<lambda>p. fs_remove_child (Some p)"
proof (unfold_locales, goal_cases)
  case (1 s p nm)
  then show ?case by (auto simp: attached_dir_def fs_find_child_eq)
next
  case (2 s p c)
  then obtain d e where d: "node_at s p = Some d" "node_type d = FILE_TYPE_DIRECTORY" "node_at s c = Some e"
    by (auto simp: attached_dir_def enterable_def split: option.splits)
  have "child_count d \<le> MAX_FILES_PER_DIR"
    by (rule node_shapeD(3) [OF store_ok_shape [OF 2(1) d(1)]])
  with 2 d show ?case by (intro fs_add_child_refused) (auto simp: dir_full_def)
next
  case (3 s p c)
  then obtain d e where d: "node_at s p = Some d" "node_type d = FILE_TYPE_DIRECTORY"
      "node_parent d \<noteq> None" and e: "node_at s c = Some e" "node_parent e = None" "p < c"
    by (auto simp: attached_dir_def enterable_def split: option.splits)
  from 3 d(1) have "child_count d < MAX_FILES_PER_DIR" by (simp add: dir_full_def not_le)
  from fs_add_child_added [OF 3(1) d e this 3(5)]
  obtain s' where "fs_add_child (Some p) (Some c) s = Some (0, s')"
    "dir_updated s p ((dir_map s p)(label s c \<mapsto> c)) s'" by metis
  then show ?case by (auto simp: dir_updated_def intro: attached_extends)
next
  case (4 s p nm)
  then show ?case by (auto simp: attached_dir_def fs_remove_child_absent)
next
  case (5 s p nm)
  then obtain d k where d: "node_at s p = Some d" "node_type d = FILE_TYPE_DIRECTORY"
    and k: "dir_map s p (cstr nm) = Some k"
    by (auto simp: attached_dir_def)
  obtain s' where s': "fs_remove_child (Some p) nm s = Some (0, s')"
    "dir_updated s p ((dir_map s p)(cstr nm := None)) s'"
    "\<And>d'. node_at s' p = Some d' \<Longrightarrow> child_count d' = child_count d - 1"
    using fs_remove_child_removed [OF 5(1) d 5(3) k] by metis
  have "child_count d \<le> MAX_FILES_PER_DIR"
    by (rule node_shapeD(3) [OF store_ok_shape [OF 5(1) d(1)]])
  moreover have "node_at s' p \<noteq> None"
    using s'(2) d(1) by (auto simp: dir_updated_def elim: fs_extendsD)
  ultimately have "\<not> dir_full s' p"
    using s'(3) by (auto simp: dir_full_def MAX_FILES_PER_DIR_def)
  with s' show ?case by (auto simp: dir_updated_def intro: attached_extends)
qed

end
