(* ===== verification/Fs_Path.thy ===== *)
theory Fs_Path
  imports Fs_Dir
begin

text \<open>
  Paths (\<open>fs_resolve_path\<close>, \<open>fs_change_directory\<close>, \<open>fs_update_current_path\<close>,
  \<open>fs_get_parent_path\<close>, \<open>fs_get_filename\<close> of \<open>filesystem.c\<close>).

  Resolution is proved equal to a walk along the abstract directory maps (\<open>walk\<close> over
  \<open>comps\<close>), the rebuilt path string to the names on the way up (\<open>ancestors\<close>). Local arrays
  of the source are uninitialised; the model starts them as \<open>NUL\<close>s, and every routine writes
  a terminated string into them before it reads.
\<close>

section \<open>Resolution\<close>

fun next_sep :: "char list \<Rightarrow> nat option" where
  "next_sep [] = None"
| "next_sep (c # cs) = (if c \<noteq> NUL \<and> c \<noteq> CHR ''/'' then map_option Suc (next_sep cs) else Some 0)"

text \<open>One path component. \<open>Inl ()\<close> is the early \<open>return NULL\<close>, \<open>Inr\<close> carries the new
  value of \<open>current\<close>.\<close>

definition resolve_step :: "fs_state \<Rightarrow> ptr option \<Rightarrow> char list \<Rightarrow> (unit + ptr option) option" where
  "resolve_step s current token = do {
     r \<leftarrow> strcmp token (lit ''.'');
     if r = 0 then Some (Inr current)
     else do {
       r \<leftarrow> strcmp token (lit ''..'');
       if r = 0 then do { p \<leftarrow> current; d \<leftarrow> node_at s p; Some (Inr (node_parent d)) }
       else do {
         f \<leftarrow> fs_find_child current token s;
         Some (if f = None then Inl () else Inr f) } } }"

text \<open>The \<open>while (token && *token)\<close> loop over the private copy of the path. \<open>token\<close> is the
  rest of the copy; a separator is overwritten by the terminator of the component.\<close>

function resolve_loop :: "fs_state \<Rightarrow> ptr option \<Rightarrow> char list option \<Rightarrow> ptr option option" where
  "resolve_loop s current token =
     (case token of
        None \<Rightarrow> Some current
      | Some [] \<Rightarrow> None
      | Some (c # cs) \<Rightarrow>
          if c = NUL then Some current
          else (case next_sep (c # cs) of
              None \<Rightarrow> None
            | Some k \<Rightarrow>
                (let t = c # cs;
                     sep = (t ! k = CHR ''/'');
                     comp = (if sep then t[k := NUL] else t);
                     next_token = (if sep then Some (drop (Suc k) t) else None)
                 in case resolve_step s current comp of
                      None \<Rightarrow> None
                    | Some (Inl u) \<Rightarrow> Some None
                    | Some (Inr current') \<Rightarrow> resolve_loop s current' next_token)))"
  by pat_completeness auto
termination
  by (relation "measure (\<lambda>(s, current, token). case token of None \<Rightarrow> 0 | Some t \<Rightarrow> Suc (length t))")
     (auto split: if_splits)

declare resolve_loop.simps [simp del]

definition fs_resolve_path :: "char list option \<Rightarrow> fs_state \<Rightarrow> ptr option option" where
  "fs_resolve_path path s =
     (case path of
        None \<Rightarrow> Some (fs_current_dir s)
      | Some p \<Rightarrow> do {
          n \<leftarrow> strlen p;
          if n = 0 then Some (fs_current_dir s)
          else do {
            c \<leftarrow> arr_get p 0;
            let (current, p) =
              (if c = CHR ''/'' then (fs_root s, drop 1 p) else (fs_current_dir s, p));
            n \<leftarrow> strlen p;
            if n = 0 then Some current
            else do {
              path_copy \<leftarrow> strncpy (replicate MAX_PATH_LENGTH NUL) p (of_nat (MAX_PATH_LENGTH - 1));
              resolve_loop s current (Some path_copy) } } })"

section \<open>The current path\<close>

text \<open>\<open>while (node != fs.root && depth < 16)\<close>: copy the names on the way up.\<close>

function climb_loop :: "fs_state \<Rightarrow> ptr option \<Rightarrow> nat \<Rightarrow> char list list \<Rightarrow> (nat \<times> char list list) option" where
  "climb_loop s node depth components =
     (if node \<noteq> fs_root s \<and> depth < 16 then do {
        p \<leftarrow> node;
        d \<leftarrow> node_at s p;
        row \<leftarrow> arr_get components depth;
        row \<leftarrow> strcpy row (node_name d);
        components \<leftarrow> arr_set components depth row;
        climb_loop s (node_parent d) (depth + 1) components }
      else Some (depth, components))"
  by pat_completeness auto
termination
  by (relation "measure (\<lambda>(s, node, depth, components). 16 - depth)") auto

declare climb_loop.simps [simp del]

definition append_component :: "char list list \<Rightarrow> nat \<Rightarrow> char list \<Rightarrow> char list option" where
  "append_component components i cp = do {
     n \<leftarrow> strlen cp;
     cp \<leftarrow> (if n > 1 then strcat cp (lit ''/'') else Some cp);
     c \<leftarrow> arr_get components i;
     strcat cp c }"

definition fs_update_current_path :: "fs_state \<Rightarrow> fs_state option" where
  "fs_update_current_path s =
     (if fs_current_dir s = fs_root s then do {
        cp \<leftarrow> strcpy (current_path s) (lit ''/'');
        Some (s\<lparr>current_path := cp\<rparr>) }
      else do {
        (depth, components) \<leftarrow> climb_loop s (fs_current_dir s) 0
          (replicate 16 (replicate MAX_FILENAME_LENGTH NUL));
        cp \<leftarrow> strcpy (current_path s) (lit ''/'');
        cp \<leftarrow> ofold (append_component components) (rev [0..<depth]) cp;
        Some (s\<lparr>current_path := cp\<rparr>) })"

definition fs_change_directory :: "char list option \<Rightarrow> fs_state \<Rightarrow> (int \<times> fs_state) option" where
  "fs_change_directory path s = do {
     target \<leftarrow> fs_resolve_path path s;
     case target of
       None \<Rightarrow> Some (-1, s)
     | Some t \<Rightarrow> do {
         d \<leftarrow> node_at s t;
         if node_type d \<noteq> FILE_TYPE_DIRECTORY then Some (-2, s)
         else do {
           s' \<leftarrow> fs_update_current_path (s\<lparr>fs_current_dir := target\<rparr>);
           Some (0, s') } } }"

definition fs_get_current_dir :: "fs_state \<Rightarrow> ptr option" where
  "fs_get_current_dir s = fs_current_dir s"

definition fs_get_current_path :: "fs_state \<Rightarrow> char list" where
  "fs_get_current_path s = current_path s"

section \<open>Splitting a path\<close>

text \<open>\<open>for (int i = n - 1; i >= 0; i--) if (a[i] == '/') return i\<close>, \<open>-1\<close> if there is none.\<close>

fun last_slash :: "char list \<Rightarrow> nat \<Rightarrow> int option" where
  "last_slash a 0 = Some (-1)"
| "last_slash a (Suc i) = do {
     c \<leftarrow> arr_get a i;
     if c = CHR ''/'' then Some (int i) else last_slash a i }"

definition fs_get_parent_path :: "char list \<Rightarrow> char list \<Rightarrow> char list option" where
  "fs_get_parent_path path parent = do {
     parent \<leftarrow> strcpy parent path;
     n \<leftarrow> strlen parent;
     k \<leftarrow> last_slash parent n;
     if k \<le> 0 then strcpy parent (lit ''/'') else arr_set parent (nat k) NUL }"

definition fs_get_filename :: "char list \<Rightarrow> char list \<Rightarrow> char list option" where
  "fs_get_filename path filename = do {
     n \<leftarrow> strlen path;
     k \<leftarrow> last_slash path n;
     if k = -1 then strcpy filename path else strcpy filename (drop (nat (k + 1)) path) }"

section \<open>Specification of resolution\<close>

text \<open>The components of a path: split at every slash; nothing after a final slash.\<close>

function comps :: "string \<Rightarrow> string list" where
  "comps [] = []"
| "comps (c # cs) = takeWhile (\<lambda>x. x \<noteq> CHR ''/'') (c # cs) #
     comps (drop 1 (dropWhile (\<lambda>x. x \<noteq> CHR ''/'') (c # cs)))"
  by pat_completeness auto
termination
proof (relation "measure length")
  fix c :: char and cs :: string
  have "length (dropWhile (\<lambda>x. x \<noteq> CHR ''/'') cs) \<le> length cs" by (rule length_dropWhile_le)
  then show "(drop 1 (dropWhile (\<lambda>x. x \<noteq> CHR ''/'') (c # cs)), c # cs) \<in> measure length" by auto
qed simp

declare comps.simps(2) [simp del]

definition parent_of :: "fs_state \<Rightarrow> ptr \<Rightarrow> ptr" where
  "parent_of s p = the (node_parent (the (node_at s p)))"

fun walk :: "fs_state \<Rightarrow> ptr \<Rightarrow> string list \<Rightarrow> ptr option" where
  "walk s p [] = Some p"
| "walk s p (x # xs) =
     (if x = ''.'' then walk s p xs
      else if x = ''..'' then walk s (parent_of s p) xs
      else case dir_map s p x of None \<Rightarrow> None | Some q \<Rightarrow> walk s q xs)"

definition resolve_spec :: "fs_state \<Rightarrow> string \<Rightarrow> ptr option" where
  "resolve_spec s path =
     (case path of
        [] \<Rightarrow> fs_current_dir s
      | c # cs \<Rightarrow>
          if c = CHR ''/'' then walk s (the (fs_root s)) (comps (take (MAX_PATH_LENGTH - 2) cs))
          else walk s (the (fs_current_dir s)) (comps (take (MAX_PATH_LENGTH - 2) path)))"

text \<open>Nodes that resolution can stand on: present and attached.\<close>

definition attached :: "fs_state \<Rightarrow> ptr \<Rightarrow> bool" where
  "attached s p \<longleftrightarrow> (\<exists>d. node_at s p = Some d \<and> node_parent d \<noteq> None)"

lemma attached_dir_attached: "attached_dir s (Some p) \<Longrightarrow> attached s p"
  by (auto simp: attached_dir_def attached_def)

lemma attached_parent:
  assumes "store_ok s" and "attached s p"
  shows "attached_dir s (Some (parent_of s p))" and "attached s (parent_of s p)"
proof -
  from assms(2) obtain d q where "node_at s p = Some d" "node_parent d = Some q"
    by (auto simp: attached_def)
  then show "attached_dir s (Some (parent_of s p))"
    using parent_present [OF assms(1)] by (simp add: parent_of_def)
  then show "attached s (parent_of s p)" by (rule attached_dir_attached)
qed

lemma attached_child: "store_ok s \<Longrightarrow> dir_map s p x = Some q \<Longrightarrow> attached s q"
  by (auto simp: attached_def elim: dir_map_present)

lemma walk_attached: "store_ok s \<Longrightarrow> attached s p \<Longrightarrow> walk s p xs = Some q \<Longrightarrow> attached s q"
  by (induction s p xs rule: walk.induct)
     (auto split: if_splits option.splits intro: attached_parent attached_child)

text \<open>On a regular file the children array is empty, and so is its map.\<close>

lemma dir_map_regular:
  assumes "store_ok s" and "node_at s p = Some d" and "node_type d = FILE_TYPE_REGULAR"
  shows "dir_map s p = Map.empty"
proof -
  have "child_count d = 0" using store_ok_shape [OF assms(1,2)] assms(3) by (simp add: node_shape_def)
  then show ?thesis by (simp add: dir_map_eq [OF assms(2)] kids_def)
qed

lemma fs_find_child_attached:
  assumes "store_ok s" and "attached s p" and "terminated nm"
  shows "fs_find_child (Some p) nm s = Some (dir_map s p (cstr nm))"
proof -
  from assms(2) obtain d where d: "node_at s p = Some d" by (auto simp: attached_def)
  show ?thesis
  proof (cases "node_type d")
    case FILE_TYPE_DIRECTORY
    then show ?thesis using fs_find_child_eq [OF assms(1) d _ assms(3)] by simp
  next
    case FILE_TYPE_REGULAR
    then show ?thesis using d dir_map_regular [OF assms(1) d] by (simp add: fs_find_child_def)
  qed
qed

lemma resolve_step_eq:
  assumes ok: "store_ok s" and p: "attached s p" and t: "terminated token"
  shows "resolve_step s (Some p) token = Some (
      if cstr token = ''.'' then Inr (Some p)
      else if cstr token = ''..'' then Inr (Some (parent_of s p))
      else case dir_map s p (cstr token) of None \<Rightarrow> Inl () | Some q \<Rightarrow> Inr (Some q))"
proof -
  have lits: "cstr (lit ''.'') = ''.''" "cstr (lit ''..'') = ''..''"
    by (simp_all add: cstr_lit)
  obtain r1 where r1: "strcmp token (lit ''.'') = Some r1" "r1 = 0 \<longleftrightarrow> cstr token = ''.''"
    using strcmp_defined [OF t, of "lit ''.''"] unfolding yields_iff lits by auto
  obtain r2 where r2: "strcmp token (lit ''..'') = Some r2" "r2 = 0 \<longleftrightarrow> cstr token = ''..''"
    using strcmp_defined [OF t, of "lit ''..''"] unfolding yields_iff lits by auto
  from p obtain d q where d: "node_at s p = Some d" "node_parent d = Some q"
    by (auto simp: attached_def)
  show ?thesis
    using r1 r2 d fs_find_child_attached [OF ok p t]
    by (simp add: resolve_step_def parent_of_def split: option.split)
qed

section \<open>The loop walks the components\<close>

abbreviation not_sep :: "char \<Rightarrow> bool" where "not_sep c \<equiv> c \<noteq> NUL \<and> c \<noteq> CHR ''/''"

lemma next_sep_append:
  "\<forall>c \<in> set w. not_sep c \<Longrightarrow> \<not> not_sep x \<Longrightarrow> next_sep (w @ x # r) = Some (length w)"
  by (induction w) auto

lemma comps_nonempty:
  "t \<noteq> [] \<Longrightarrow> comps t = takeWhile (\<lambda>x. x \<noteq> CHR ''/'') t # comps (drop 1 (dropWhile (\<lambda>x. x \<noteq> CHR ''/'') t))"
  by (cases t) (simp_all add: comps.simps(2))

lemma takeWhile_no: "\<forall>c\<in>set w. P c \<Longrightarrow> \<not> P x \<Longrightarrow> takeWhile P (w @ x # r) = w \<and> dropWhile P (w @ x # r) = x # r"
  by (simp add: takeWhile_append2 dropWhile_append2)

text \<open>A terminated token is a component followed by a slash or by the end.\<close>

lemma token_split:
  assumes "terminated t"
  obtains w x r where "t = w @ x # r" "\<forall>c \<in> set w. not_sep c" "x = NUL \<or> x = CHR ''/'' \<and> terminated r"
proof -
  from assms have "\<exists>c \<in> set t. \<not> not_sep c" by (auto simp: terminated_def)
  then obtain w x r where t: "t = w @ x # r" "\<not> not_sep x" "\<forall>c \<in> set w. not_sep c"
    using split_list_first_prop [of t "\<lambda>c. \<not> not_sep c"] by metis
  moreover have "terminated r" if "x \<noteq> NUL"
    using assms t that by (auto simp: terminated_def)
  ultimately show ?thesis using that by metis
qed

lemma comps_single:
  assumes "w \<noteq> []" and "\<forall>c \<in> set w. c \<noteq> CHR ''/''"
  shows "comps w = [w]"
proof -
  have tw: "takeWhile (\<lambda>x. x \<noteq> CHR ''/'') w = w" and dw: "dropWhile (\<lambda>x. x \<noteq> CHR ''/'') w = []"
    using assms(2) by (simp_all add: takeWhile_eq_all_conv dropWhile_eq_Nil_conv)
  show ?thesis unfolding comps_nonempty [OF assms(1)] tw dw by simp
qed

lemma comps_no_sep: "x \<in> set (comps p) \<Longrightarrow> CHR ''/'' \<notin> set x"
  by (induction p rule: comps.induct) (auto simp: comps.simps(2) dest: set_takeWhileD)

lemma comps_sep:
  assumes "\<forall>c \<in> set w. not_sep c"
  shows "comps (w @ CHR ''/'' # u) = w # comps u" and "w \<noteq> [] \<Longrightarrow> comps w = [w]"
proof -
  have w: "\<forall>c \<in> set w. c \<noteq> CHR ''/''" using assms by auto
  have "comps (w @ CHR ''/'' # u) = takeWhile (\<lambda>x. x \<noteq> CHR ''/'') (w @ CHR ''/'' # u) #
      comps (drop 1 (dropWhile (\<lambda>x. x \<noteq> CHR ''/'') (w @ CHR ''/'' # u)))"
    by (rule comps_nonempty) simp
  then show "comps (w @ CHR ''/'' # u) = w # comps u"
    using takeWhile_no [of w "\<lambda>x. x \<noteq> CHR ''/''" "CHR ''/''" u] w by simp
  show "comps w = [w]" if "w \<noteq> []" using comps_single [OF that w] .
qed

lemma resolve_loop_unfold:
  assumes "t \<noteq> []" and "hd t \<noteq> NUL" and "next_sep t = Some k"
  shows "resolve_loop s current (Some t) =
    (case resolve_step s current (if t ! k = CHR ''/'' then t[k := NUL] else t) of
       None \<Rightarrow> None
     | Some (Inl u) \<Rightarrow> Some None
     | Some (Inr c) \<Rightarrow> resolve_loop s c (if t ! k = CHR ''/'' then Some (drop (Suc k) t) else None))"
proof -
  from assms(1) obtain c cs where t: "t = c # cs" by (cases t) auto
  show ?thesis
    using assms(2,3) unfolding t
    by (subst resolve_loop.simps) (simp add: Let_def del: next_sep.simps)
qed

lemma resolve_loop_eq:
  assumes ok: "store_ok s"
  shows "attached s p \<Longrightarrow> terminated t \<Longrightarrow>
    resolve_loop s (Some p) (Some t) = Some (walk s p (comps (cstr t)))"
proof (induction "length t" arbitrary: p t rule: less_induct)
  case less
  obtain w x r where t: "t = w @ x # r" "\<forall>c \<in> set w. not_sep c" "x = NUL \<or> x = CHR ''/'' \<and> terminated r"
    using token_split [OF less.prems(2)] .
  have w: "NUL \<notin> set w" using t(2) by auto
  have sep: "next_sep t = Some (length w)" unfolding t(1) using t(2,3) by (intro next_sep_append) auto
  have t_ne: "t \<noteq> []" unfolding t(1) by simp
  show ?case
  proof (cases "x = NUL")
    case True
    then have c: "cstr t = w" using cstr_append [OF w] t(1) by simp
    show ?thesis
    proof (cases "w = []")
      case True
      then show ?thesis using \<open>x = NUL\<close> c by (subst resolve_loop.simps) (simp add: t(1))
    next
      case False
      then have hd: "hd t \<noteq> NUL" using w t(1) by (cases w) auto
      have "t ! length w \<noteq> CHR ''/''" using \<open>x = NUL\<close> by (simp add: t(1))
      then have "resolve_loop s (Some p) (Some t) = (case resolve_step s (Some p) t of
          None \<Rightarrow> None | Some (Inl u) \<Rightarrow> Some None | Some (Inr c) \<Rightarrow> resolve_loop s c None)"
        using resolve_loop_unfold [OF t_ne hd sep] by simp
      also have "\<dots> = Some (walk s p (comps w))"
        using resolve_step_eq [OF ok less.prems] False comps_sep(2) [OF t(2)]
        by (auto simp: c resolve_loop.simps [of s _ None] split: option.split)
      finally show ?thesis by (simp add: c)
    qed
  next
    case False
    then have x: "x = CHR ''/''" and r: "terminated r" using t(3) by auto
    have hd: "hd t \<noteq> NUL" using w x t(1) by (cases w) auto
    have c: "cstr t = w @ CHR ''/'' # cstr r"
      using w by (simp add: t(1) x cstr_def takeWhile_append)
    have tok: "t[length w := NUL] = w @ NUL # r" and rest: "drop (Suc (length w)) t = r"
      and idx: "t ! length w = CHR ''/''"
      by (simp_all add: t(1) x)
    have "resolve_loop s (Some p) (Some t) = (case resolve_step s (Some p) (w @ NUL # r) of
        None \<Rightarrow> None | Some (Inl u) \<Rightarrow> Some None | Some (Inr c) \<Rightarrow> resolve_loop s c (Some r))"
      using resolve_loop_unfold [OF t_ne hd sep] unfolding idx tok rest by simp
    moreover have "resolve_loop s (Some q) (Some r) = Some (walk s q (comps (cstr r)))" if "attached s q" for q
      by (rule less.hyps) (use t(1) r that in auto)
    ultimately have "resolve_loop s (Some p) (Some t) = Some (walk s p (w # comps (cstr r)))"
      using resolve_step_eq [OF ok less.prems(1), of "w @ NUL # r"] less.prems(1)
        attached_parent [OF ok less.prems(1)] attached_child [OF ok, of p w]
      by (auto simp: cstr_append [OF w] split: option.split)
    then show ?thesis by (simp add: c comps_sep(1) [OF t(2)])
  qed
qed

lemma wf_fsE:
  assumes "wf_fs s"
  obtains r c where "fs_root s = Some r" "attached s r" "fs_current_dir s = Some c" "attached s c"
    "attached_dir s (Some r)" "attached_dir s (Some c)" "parent_of s r = r"
proof -
  from assms obtain r c where rc: "fs_root s = Some r" "fs_current_dir s = Some c"
    and dirs: "attached_dir s (Some r)" "attached_dir s (Some c)"
    unfolding wf_fs_def attached_dir_def by metis
  moreover have "parent_of s r = r" using assms rc(1) by (auto simp: wf_fs_def parent_of_def)
  ultimately show ?thesis using that attached_dir_attached by metis
qed

text \<open>Resolution never leaves defined behaviour and computes the walk.\<close>

lemma fs_resolve_path_eq:
  assumes wf: "wf_fs s" and path: "terminated path"
  shows "fs_resolve_path (Some path) s = Some (resolve_spec s (cstr path))"
proof -
  have ok: "store_ok s" using wf by (simp add: wf_fs_def)
  obtain r c where r: "fs_root s = Some r" "attached s r" and c: "fs_current_dir s = Some c" "attached s c"
    by (rule wf_fsE [OF wf])
  have copy: "do { path_copy \<leftarrow> strncpy (replicate MAX_PATH_LENGTH NUL) p (of_nat (MAX_PATH_LENGTH - 1));
        resolve_loop s (Some q) (Some path_copy) } = Some (walk s q (comps (take (MAX_PATH_LENGTH - 2) (cstr p))))"
    if "terminated p" "attached s q" for p q
  proof -
    have len: "unat (of_nat (MAX_PATH_LENGTH - 1) - 1 :: 32 word) = MAX_PATH_LENGTH - 2"
      by (simp add: MAX_PATH_LENGTH_def)
    have "\<exists>a. strncpy (replicate MAX_PATH_LENGTH NUL) p (of_nat (MAX_PATH_LENGTH - 1)) = Some a"
      unfolding strncpy_eq [OF that(1)] len by (simp add: Let_def MAX_PATH_LENGTH_def)
    then obtain a where a: "strncpy (replicate MAX_PATH_LENGTH NUL) p (of_nat (MAX_PATH_LENGTH - 1)) = Some a" ..
    from strncpy_Some(2,3) [OF a that(1)] show ?thesis
      using resolve_loop_eq [OF ok that(2), of a] a unfolding len by simp
  qed
  show ?thesis
  proof (cases path)
    case Nil
    then show ?thesis using path by simp
  next
    case (Cons x xs)
    show ?thesis
    proof (cases "x = NUL")
      case True
      then show ?thesis using Cons by (simp add: fs_resolve_path_def resolve_spec_def cstr_def)
    next
      case False
      then have xs: "terminated xs" using path Cons by (simp add: terminated_Cons)
      have cs: "cstr path = x # cstr xs" using False Cons by (simp add: cstr_Cons)
      have "strlen path = Some (Suc (length (cstr xs)))" using strlen_eq [of path] path cs by simp
      then show ?thesis
        using copy [OF xs r(2)] copy [OF path c(2)] r(1) c(1) xs cs Cons
        by (auto simp: fs_resolve_path_def resolve_spec_def strlen_eq)
    qed
  qed
qed

lemma resolve_spec_attached:
  assumes "wf_fs s" and "resolve_spec s path = Some q"
  shows "attached s q"
proof -
  obtain r c where rc: "fs_root s = Some r" "attached s r" "fs_current_dir s = Some c" "attached s c"
    by (rule wf_fsE [OF assms(1)])
  have "store_ok s" using assms(1) by (simp add: wf_fs_def)
  note walk_attached [OF this]
  with rc assms(2) show ?thesis
    unfolding resolve_spec_def by (auto split: list.splits if_splits)
qed

section \<open>The current path string\<close>

text \<open>The names met on the way up, at most \<open>n\<close> of them; the string the code builds from them.\<close>

fun ancestors :: "fs_state \<Rightarrow> nat \<Rightarrow> ptr \<Rightarrow> string list" where
  "ancestors s 0 p = []"
| "ancestors s (Suc n) p =
     (if fs_root s = Some p then [] else label s p # ancestors s n (parent_of s p))"

definition path_append :: "string \<Rightarrow> string \<Rightarrow> string" where
  "path_append cp x = (if length cp > 1 then cp @ ''/'' @ x else cp @ x)"

definition path_string :: "fs_state \<Rightarrow> ptr \<Rightarrow> string" where
  "path_string s p = foldl path_append ''/'' (rev (ancestors s 16 p))"

lemma length_ancestors: "length (ancestors s n p) \<le> n"
  by (induction s n p rule: ancestors.induct) auto

lemma climb_loop_root: "fs_root s = Some p \<Longrightarrow> climb_loop s (Some p) depth rows = Some (depth, rows)"
  by (subst climb_loop.simps) simp

lemma climb_loop_eq:
  assumes ok: "store_ok s"
  shows "attached s p \<Longrightarrow> n + depth = 16 \<Longrightarrow> length rows = 16 \<Longrightarrow>
      \<forall>r \<in> set rows. length r = MAX_FILENAME_LENGTH \<Longrightarrow>
    yields (climb_loop s (Some p) depth rows) (\<lambda>(depth', rows').
      depth' = depth + length (ancestors s n p) \<and> length rows' = 16 \<and>
      (\<forall>j < depth. rows' ! j = rows ! j) \<and>
      (\<forall>i < length (ancestors s n p). terminated (rows' ! (depth + i)) \<and>
         cstr (rows' ! (depth + i)) = ancestors s n p ! i))"
proof (induction n arbitrary: p depth rows)
  case 0
  then show ?case by (subst climb_loop.simps) simp
next
  case (Suc n)
  show ?case
  proof (cases "fs_root s = Some p")
    case True
    then show ?thesis using Suc.prems by (simp add: climb_loop_root)
  next
    case False
    from Suc.prems(1) obtain d q where d: "node_at s p = Some d" "node_parent d = Some q"
      by (auto simp: attached_def)
    then have q: "parent_of s p = q" by (simp add: parent_of_def)
    note shape = node_shapeD [OF store_ok_shape [OF ok d(1)]]
    have depth: "depth < length rows" using Suc.prems by simp
    have "length (cstr (node_name d)) < length (rows ! depth)"
      using length_cstr_less [OF shape(2)] shape(1) Suc.prems(4) depth by simp
    then obtain row where row: "strcpy (rows ! depth) (node_name d) = Some row"
      using strcpy_eq [of "rows ! depth" "node_name d"] shape(2) by auto
    note row' = strcpy_Some [OF row]
    let ?rows = "rows[depth := row]"
    have rows: "\<forall>r \<in> set ?rows. length r = MAX_FILENAME_LENGTH"
      using Suc.prems(4) row'(1) depth by (auto dest!: in_set_conv_nth [THEN iffD1] simp: nth_list_update)
    have lab: "label s p = cstr (node_name d)" using d by (simp add: label_def)
    have "climb_loop s (Some p) depth rows = climb_loop s (Some q) (depth + 1) ?rows"
      using False depth d row Suc.prems(2) by (subst climb_loop.simps) simp
    moreover have anc: "ancestors s (Suc n) p = label s p # ancestors s n q"
      using False q by simp
    moreover have "yields (climb_loop s (Some q) (depth + 1) ?rows) (\<lambda>(depth', rows').
      depth' = (depth + 1) + length (ancestors s n q) \<and> length rows' = 16 \<and>
      (\<forall>j < depth + 1. rows' ! j = ?rows ! j) \<and>
      (\<forall>i < length (ancestors s n q). terminated (rows' ! (depth + 1 + i)) \<and>
         cstr (rows' ! (depth + 1 + i)) = ancestors s n q ! i))"
      using attached_parent(2) [OF ok Suc.prems(1)] q Suc.prems rows by (intro Suc.IH) auto
    ultimately obtain rows' where H: "climb_loop s (Some p) depth rows =
        Some (depth + length (ancestors s (Suc n) p), rows')" "length rows' = 16"
      "\<forall>j < depth + 1. rows' ! j = ?rows ! j"
      "\<forall>i < length (ancestors s n q). terminated (rows' ! (depth + 1 + i)) \<and>
         cstr (rows' ! (depth + 1 + i)) = ancestors s n q ! i"
      unfolding yields_iff by auto
    have "rows' ! j = rows ! j" if "j < depth" for j using H(3) that by simp
    moreover have "terminated (rows' ! (depth + i)) \<and> cstr (rows' ! (depth + i)) = ancestors s (Suc n) p ! i"
      if "i < length (ancestors s (Suc n) p)" for i
      using that H(3,4) row' depth lab unfolding anc by (cases i) auto
    ultimately show ?thesis using H(1,2) by simp
  qed
qed

lemma length_path_append: "length cp \<le> length (path_append cp x)"
  by (simp add: path_append_def)

lemma length_foldl_path_append: "length cp \<le> length (foldl path_append cp xs)"
  by (induction xs arbitrary: cp) (auto intro: le_trans [OF length_path_append])

lemma append_component_sets:
  assumes cp: "terminated cp" and i: "i < length rows" "terminated (rows ! i)"
  shows "sets_string cp (path_append (cstr cp) (cstr (rows ! i))) (append_component rows i cp)"
proof (cases "length (cstr cp) > 1")
  case True
  have l: "cstr (lit ''/'') = ''/''" by (simp add: cstr_lit)
  have "sets_string cp ((cstr cp @ ''/'') @ cstr (rows ! i))
      (do { cp \<leftarrow> strcat cp (lit ''/''); strcat cp (rows ! i) })"
    using strcat_sets [OF cp terminated_lit, of "''/''"] i(2) l
    by (intro sets_string_bind) (auto dest: strcat_sets)
  then show ?thesis using True cp i by (simp add: append_component_def strlen_eq path_append_def)
next
  case False
  then show ?thesis using strcat_sets [OF cp i(2)] i cp
    by (simp add: append_component_def strlen_eq path_append_def)
qed

lemma append_components_sets:
  "terminated cp \<Longrightarrow> \<forall>i \<in> set is. i < length rows \<and> terminated (rows ! i) \<Longrightarrow>
    sets_string cp (foldl path_append (cstr cp) (map (\<lambda>i. cstr (rows ! i)) is))
      (ofold (append_component rows) is cp)"
proof (induction "is" arbitrary: cp)
  case (Cons i "is")
  have "sets_string cp (path_append (cstr cp) (cstr (rows ! i))) (append_component rows i cp)"
    using Cons.prems by (intro append_component_sets) auto
  then show ?case
    using Cons.prems Cons.IH
    by (auto intro!: sets_string_bind length_foldl_path_append) (metis Cons.IH)
qed simp

text \<open>\<open>current_path\<close> receives exactly \<open>path_string\<close>, or the write runs past its 256 bytes.\<close>

lemma fs_update_current_path_sets:
  assumes ok: "store_ok s" and cwd: "fs_current_dir s = Some p" "attached s p"
    and len: "length (current_path s) = MAX_PATH_LENGTH"
  obtains m where "sets_string (current_path s) (path_string s p) m"
    and "fs_update_current_path s = do { cp \<leftarrow> m; Some (s\<lparr>current_path := cp\<rparr>) }"
proof (cases "fs_root s = Some p")
  case True
  then have "path_string s p = cstr (lit ''/'')"
    by (simp add: path_string_def cstr_lit numeral_eq_Suc)
  then show ?thesis
    using that [of "strcpy (current_path s) (lit ''/'')"] strcpy_sets [OF terminated_lit, of "current_path s" "''/''"]
      True cwd by (simp add: fs_update_current_path_def)
next
  case False
  let ?rows = "replicate 16 (replicate MAX_FILENAME_LENGTH NUL)"
  let ?xs = "ancestors s 16 p"
  obtain rows where climb: "climb_loop s (Some p) 0 ?rows = Some (length ?xs, rows)"
    and rows: "length rows = 16" "\<forall>i < length ?xs. terminated (rows ! i) \<and> cstr (rows ! i) = ?xs ! i"
    using climb_loop_eq [OF ok cwd(2), of 16 0 ?rows] unfolding yields_iff by auto
  let ?is = "rev [0..<length ?xs]"
  have names: "map (\<lambda>i. cstr (rows ! i)) ?is = rev ?xs"
    using rows(2) by (simp add: rev_map [symmetric]) (rule nth_equalityI; simp)
  have le: "length ?xs \<le> 16" by (rule length_ancestors)
  let ?m = "do { cp \<leftarrow> strcpy (current_path s) (lit ''/''); ofold (append_component rows) ?is cp }"
  have "sets_string (current_path s) (path_string s p) ?m"
  proof (rule sets_string_bind)
    show "sets_string (current_path s) ''/'' (strcpy (current_path s) (lit ''/''))"
      using strcpy_sets [OF terminated_lit, of "current_path s" "''/''"] by (simp add: cstr_lit)
    show "length ''/'' \<le> length (path_string s p)"
      unfolding path_string_def by (rule length_foldl_path_append)
    show "sets_string a (path_string s p) (ofold (append_component rows) ?is a)"
      if "terminated a" "cstr a = ''/''" for a
      using append_components_sets [OF that(1), of ?is rows] rows le that(2)
      by (simp add: names path_string_def)
  qed
  moreover have "fs_update_current_path s = do { cp \<leftarrow> ?m; Some (s\<lparr>current_path := cp\<rparr>) }"
    using False cwd climb by (simp add: fs_update_current_path_def)
  ultimately show ?thesis by (rule that)
qed

section \<open>Changing directory\<close>

lemma fs_change_directory_cases:
  assumes wf: "wf_fs s" and path: "terminated path"
  obtains
    (missing) "resolve_spec s (cstr path) = None" "fs_change_directory (Some path) s = Some (-1, s)"
  | (regular) t d where "resolve_spec s (cstr path) = Some t" "node_at s t = Some d"
      "node_type d = FILE_TYPE_REGULAR" "fs_change_directory (Some path) s = Some (-2, s)"
  | (overrun) t where "resolve_spec s (cstr path) = Some t" "attached_dir s (Some t)"
      "MAX_PATH_LENGTH \<le> length (path_string s t)" "fs_change_directory (Some path) s = None"
  | (moved) t cp where "resolve_spec s (cstr path) = Some t" "attached_dir s (Some t)"
      "fs_change_directory (Some path) s = Some (0, s\<lparr>fs_current_dir := Some t, current_path := cp\<rparr>)"
      "length cp = MAX_PATH_LENGTH" "terminated cp" "cstr cp = path_string s t"
proof (cases "resolve_spec s (cstr path)")
  case None
  then show ?thesis
    using missing fs_resolve_path_eq [OF wf path] by (simp add: fs_change_directory_def)
next
  case (Some t)
  then have t: "attached s t" using resolve_spec_attached [OF wf] by blast
  then obtain d where d: "node_at s t = Some d" "node_parent d \<noteq> None" by (auto simp: attached_def)
  show ?thesis
  proof (cases "node_type d")
    case FILE_TYPE_REGULAR
    then show ?thesis
      using regular [OF Some d(1)] fs_resolve_path_eq [OF wf path] Some d by (simp add: fs_change_directory_def)
  next
    case FILE_TYPE_DIRECTORY
    define s1 where "s1 = s\<lparr>fs_current_dir := Some t\<rparr>"
    have ok: "store_ok s1" and len: "length (current_path s1) = MAX_PATH_LENGTH"
      using wf by (simp_all add: s1_def wf_fs_def frame_simps)
    have t1: "attached s1 t" using t by (simp add: s1_def attached_def)
    have anc: "ancestors s1 n p = ancestors s n p" for n p
      by (induction n arbitrary: p) (auto simp: s1_def label_def parent_of_def)
    obtain m where m: "sets_string (current_path s) (path_string s t) m"
      "fs_update_current_path s1 = do { cp \<leftarrow> m; Some (s1\<lparr>current_path := cp\<rparr>) }"
      using fs_update_current_path_sets [OF ok _ t1 len] anc
      by (auto simp: s1_def path_string_def)
    have eq: "fs_change_directory (Some path) s = do { cp \<leftarrow> m; Some (0, s1\<lparr>current_path := cp\<rparr>) }"
      using fs_resolve_path_eq [OF wf path] Some d FILE_TYPE_DIRECTORY m(2)
      by (cases m) (auto simp: fs_change_directory_def s1_def)
    have dir: "attached_dir s (Some t)" using d FILE_TYPE_DIRECTORY by (auto simp: attached_dir_def)
    show ?thesis
    proof (cases m)
      case None
      then show ?thesis using overrun [OF Some dir] m(1) eq wf by (simp add: wf_fs_def)
    next
      case (Some cp)
      then have "fs_change_directory (Some path) s =
          Some (0, s\<lparr>fs_current_dir := Some t, current_path := cp\<rparr>)"
        by (simp add: eq s1_def)
      moreover have "length cp = MAX_PATH_LENGTH" "terminated cp" "cstr cp = path_string s t"
        using m(1) wf Some by (simp_all add: wf_fs_def)
      ultimately show ?thesis
        by (rule moved [OF \<open>resolve_spec s (cstr path) = Some t\<close> dir])
    qed
  qed
qed

lemma moved_wf:
  assumes "wf_fs s" and "attached_dir s (Some t)" and "length cp = MAX_PATH_LENGTH" and "terminated cp"
  shows "wf_fs (s\<lparr>fs_current_dir := Some t, current_path := cp\<rparr>)"
  by (rule wf_fs_step [OF assms(1)])
     (use assms in \<open>auto simp: wf_fs_def frame_simps fs_extends_def attached_dir_def\<close>)

section \<open>The current path names the current directory\<close>

text \<open>A component that resolution reads back as itself, and a node that is listed in its parent
  under its own name, and so on up to the root within \<open>n\<close> steps.\<close>

definition clean_name :: "string \<Rightarrow> bool" where
  "clean_name x \<longleftrightarrow> x \<noteq> [] \<and> CHR ''/'' \<notin> set x \<and> x \<noteq> ''.'' \<and> x \<noteq> ''..''"

fun listed :: "fs_state \<Rightarrow> nat \<Rightarrow> ptr \<Rightarrow> bool" where
  "listed s 0 p \<longleftrightarrow> fs_root s = Some p"
| "listed s (Suc n) p \<longleftrightarrow> fs_root s = Some p \<or>
     clean_name (label s p) \<and> dir_map s (parent_of s p) (label s p) = Some p \<and>
     listed s n (parent_of s p)"

lemma walk_append: "walk s p (xs @ ys) = Option.bind (walk s p xs) (\<lambda>q. walk s q ys)"
  by (induction s p xs rule: walk.induct) (auto split: option.splits)

lemma walk_ancestors:
  "listed s n p \<Longrightarrow> walk s (the (fs_root s)) (rev (ancestors s n p)) = Some p"
proof (induction n arbitrary: p)
  case (Suc n)
  then show ?case by (cases "fs_root s = Some p") (auto simp: walk_append clean_name_def)
qed simp

lemma ancestors_clean: "listed s n p \<Longrightarrow> x \<in> set (ancestors s n p) \<Longrightarrow> clean_name x"
  by (induction s n p rule: ancestors.induct) (auto split: if_splits)

lemma foldl_path_append_long:
  "length cp > 1 \<Longrightarrow> foldl path_append cp xs = cp @ concat (map ((#) (CHR ''/'')) xs)"
proof (induction xs arbitrary: cp)
  case (Cons x xs)
  then have "path_append cp x = cp @ ''/'' @ x" by (simp add: path_append_def)
  moreover have "length (cp @ ''/'' @ x) > 1" using Cons.prems by (simp only: length_append)
  note Cons.IH [OF this]
  ultimately show ?case by simp
qed simp

lemma foldl_path_append:
  assumes "\<forall>x \<in> set xs. x \<noteq> []" and "xs \<noteq> []"
  shows "foldl path_append ''/'' xs = concat (map ((#) (CHR ''/'')) xs)"
proof -
  obtain y ys where "xs = y # ys" using assms(2) by (cases xs) auto
  with assms(1) show ?thesis
    using foldl_path_append_long [of "CHR ''/'' # y" ys] by (cases y) (simp_all add: path_append_def)
qed

lemma comps_concat:
  assumes "\<forall>x \<in> set xs. x \<noteq> [] \<and> CHR ''/'' \<notin> set x" and "xs \<noteq> []"
  shows "comps (tl (concat (map ((#) (CHR ''/'')) xs))) = xs"
  using assms(2,1)
proof (induction xs rule: list_nonempty_induct)
  case (single x)
  then have "x \<noteq> []" "\<forall>c \<in> set x. c \<noteq> CHR ''/''" by auto
  then show ?case using comps_single [of x] by simp
next
  case (cons x xs)
  from cons.hyps obtain y ys where xs: "xs = y # ys" by (cases xs) auto
  have x: "\<forall>c \<in> set x. c \<noteq> CHR ''/''" using cons.prems by auto
  let ?u = "tl (concat (map ((#) (CHR ''/'')) xs))"
  have "tl (concat (map ((#) (CHR ''/'')) (x # xs))) = x @ CHR ''/'' # ?u" by (simp add: xs)
  moreover have "comps (x @ CHR ''/'' # ?u) = x # comps ?u"
    using takeWhile_no [of x "\<lambda>c. c \<noteq> CHR ''/''" "CHR ''/''" ?u] x
      comps_nonempty [of "x @ CHR ''/'' # ?u"] by simp
  ultimately show ?case using cons by simp
qed

lemma resolve_path_string:
  assumes wf: "wf_fs s" and listed: "listed s 16 p" and short: "length (path_string s p) < MAX_PATH_LENGTH"
  shows "resolve_spec s (path_string s p) = Some p"
proof -
  let ?xs = "rev (ancestors s 16 p)"
  have walk: "walk s (the (fs_root s)) ?xs = Some p" by (rule walk_ancestors [OF listed])
  have clean: "\<forall>x \<in> set ?xs. clean_name x" using ancestors_clean [OF listed] by simp
  have "hd (path_string s p) = CHR ''/'' \<and> path_string s p \<noteq> [] \<and> comps (tl (path_string s p)) = ?xs"
  proof (cases "?xs = []")
    case False
    have "path_string s p = concat (map ((#) (CHR ''/'')) ?xs)"
      unfolding path_string_def using clean False by (intro foldl_path_append) (auto simp: clean_name_def)
    moreover have "comps (tl (concat (map ((#) (CHR ''/'')) ?xs))) = ?xs"
      using clean False by (intro comps_concat) (auto simp: clean_name_def)
    ultimately show ?thesis using False by (cases ?xs) auto
  qed (simp add: path_string_def)
  then obtain cs where "path_string s p = CHR ''/'' # cs" "comps cs = ?xs"
    by (cases "path_string s p") auto
  moreover from this have "take (MAX_PATH_LENGTH - 2) cs = cs"
    using short by (simp add: MAX_PATH_LENGTH_def)
  ultimately show ?thesis using walk by (simp add: resolve_spec_def)
qed

section \<open>Splitting\<close>

lemma last_slash_eq:
  assumes "n \<le> length a"
  shows "last_slash a n = Some (if CHR ''/'' \<in> set (take n a)
    then int (n - Suc (length (takeWhile (\<lambda>c. c \<noteq> CHR ''/'') (rev (take n a))))) else -1)"
  using assms
proof (induction n)
  case (Suc n)
  have rev: "rev (take (Suc n) a) = a ! n # rev (take n a)"
    using Suc.prems by (simp add: take_Suc_conv_app_nth)
  have set: "set (take (Suc n) a) = insert (a ! n) (set (take n a))"
    using Suc.prems by (simp add: take_Suc_conv_app_nth)
  show ?case using Suc by (auto simp: rev set)
qed simp

text \<open>The two halves of a path around its last slash.\<close>

definition parent_string :: "string \<Rightarrow> string" where
  "parent_string x = (let d = dropWhile (\<lambda>c. c \<noteq> CHR ''/'') (rev x)
     in if length d \<le> 1 then ''/'' else rev (tl d))"

definition filename_string :: "string \<Rightarrow> string" where
  "filename_string x = rev (takeWhile (\<lambda>c. c \<noteq> CHR ''/'') (rev x))"

text \<open>With a slash the path is its head, the slash, and the file name.\<close>

lemma split_at_last_slash:
  assumes "CHR ''/'' \<in> set x"
  obtains h where "x = h @ CHR ''/'' # filename_string x"
    and "parent_string x = (if h = [] then ''/'' else h)"
    and "CHR ''/'' \<notin> set (filename_string x)"
proof -
  let ?t = "takeWhile (\<lambda>c. c \<noteq> CHR ''/'') (rev x)" and ?d = "dropWhile (\<lambda>c. c \<noteq> CHR ''/'') (rev x)"
  have "?d \<noteq> []" using assms by (simp add: dropWhile_eq_Nil_conv)
  then obtain h where d: "?d = CHR ''/'' # h" using hd_dropWhile [of "\<lambda>c. c \<noteq> CHR ''/''" "rev x"]
    by (cases ?d) auto
  have "rev x = ?t @ CHR ''/'' # h" using takeWhile_dropWhile_id d by metis
  then have "rev (rev x) = rev (?t @ CHR ''/'' # h)" by simp
  then have "x = rev h @ CHR ''/'' # filename_string x" by (simp add: filename_string_def)
  moreover have "parent_string x = (if rev h = [] then ''/'' else rev h)"
    by (simp add: parent_string_def d)
  moreover have "CHR ''/'' \<notin> set (filename_string x)"
    by (auto simp: filename_string_def dest: set_takeWhileD)
  ultimately show ?thesis by (rule that)
qed

lemma no_slash:
  assumes "CHR ''/'' \<notin> set x"
  shows "filename_string x = x" and "parent_string x = ''/''"
proof -
  have tw: "takeWhile (\<lambda>c. c \<noteq> CHR ''/'') (rev x) = rev x" and dw: "dropWhile (\<lambda>c. c \<noteq> CHR ''/'') (rev x) = []"
    using assms by (auto simp: takeWhile_eq_all_conv dropWhile_eq_Nil_conv)
  show "filename_string x = x" "parent_string x = ''/''"
    unfolding filename_string_def parent_string_def tw dw by simp_all
qed

lemma cstr_slash: "cstr (lit ''/'') = ''/''"
  by (simp add: cstr_lit)

text \<open>The position \<open>last_slash\<close> finds in a terminated array.\<close>

lemma last_slash_cstr:
  assumes "terminated a"
  shows "last_slash a (length (cstr a)) = Some (if CHR ''/'' \<in> set (cstr a)
    then int (length (cstr a) - Suc (length (filename_string (cstr a)))) else -1)"
proof -
  have "take (length (cstr a)) a = cstr a"
    by (metis assms append_eq_conv_conj terminatedE)
  then show ?thesis
    using last_slash_eq [of "length (cstr a)" a] length_cstr_less [OF assms]
    by (simp add: filename_string_def)
qed

lemma fs_get_filename_sets:
  assumes t: "terminated path"
  shows "sets_string buf (filename_string (cstr path)) (fs_get_filename path buf)"
proof (cases "CHR ''/'' \<in> set (cstr path)")
  case False
  then show ?thesis
    using strcpy_sets [OF t] last_slash_cstr [OF t] t
    by (simp add: fs_get_filename_def strlen_eq no_slash)
next
  case True
  then obtain h where h: "cstr path = h @ CHR ''/'' # filename_string (cstr path)"
    by (rule split_at_last_slash)
  obtain r where r: "path = cstr path @ NUL # r" using t by (rule terminatedE)
  have len: "length (cstr path) - Suc (length (filename_string (cstr path))) = length h"
    by (subst (1) h) simp
  have "path = h @ CHR ''/'' # filename_string (cstr path) @ NUL # r"
    using r h by (metis append_Cons append_assoc)
  then have drop: "drop (Suc (length h)) path = filename_string (cstr path) @ NUL # r"
    by (metis append_eq_conv_conj drop_Suc list.sel(3) tl_drop)
  have nul: "NUL \<notin> set (filename_string (cstr path))"
    using h NUL_notin_cstr [of path] by (metis in_set_conv_decomp set_ConsD Un_iff set_append list.set_intros(2))
  have "terminated (drop (Suc (length h)) path)" "cstr (drop (Suc (length h)) path) = filename_string (cstr path)"
    unfolding drop using cstr_append [OF nul] by simp_all
  moreover have "nat (int (length h) + 1) = Suc (length h)" by simp
  ultimately show ?thesis
    using strcpy_sets [of "drop (Suc (length h)) path" buf] last_slash_cstr [OF t] True t
    unfolding len by (simp add: fs_get_filename_def strlen_eq)
qed

lemma fs_get_parent_path_sets:
  assumes t: "terminated path" and len: "length buf > length (cstr path)"
    and buf: "length buf > 1"
  shows "yields (fs_get_parent_path path buf)
    (\<lambda>b. length b = length buf \<and> terminated b \<and> cstr b = parent_string (cstr path))"
proof -
  obtain a where a: "strcpy buf path = Some a" "length a = length buf" "terminated a" "cstr a = cstr path"
    by (rule sets_string_fits [OF strcpy_sets [OF t] len])
  note slash = last_slash_cstr [OF a(3), unfolded a(4)]
  have "length ''/'' < length a" using a(2) buf by simp
  then obtain b where b: "strcpy a (lit ''/'') = Some b" "length b = length a" "terminated b" "cstr b = ''/''"
    by (rule sets_string_fits [OF strcpy_sets [OF terminated_lit, of a "''/''", unfolded cstr_slash]])
  show ?thesis
  proof (cases "CHR ''/'' \<in> set (cstr path)")
    case False
    then show ?thesis using slash a b
      by (simp add: fs_get_parent_path_def strlen_eq no_slash)
  next
    case True
    then obtain h where h: "cstr path = h @ CHR ''/'' # filename_string (cstr path)"
      and par: "parent_string (cstr path) = (if h = [] then ''/'' else h)"
      by (rule split_at_last_slash)
    have k: "length (cstr path) - Suc (length (filename_string (cstr path))) = length h"
      by (subst (1) h) simp
    show ?thesis
    proof (cases "h = []")
      case True
      then show ?thesis using slash a b par \<open>CHR ''/'' \<in> set (cstr path)\<close>
        by (simp add: fs_get_parent_path_def strlen_eq k)
    next
      case False
      obtain r where r: "a = cstr path @ NUL # r" using a(3,4) by (metis terminatedE)
      have lt: "length h < length a" unfolding r by (subst h) simp
      have "a = h @ CHR ''/'' # filename_string (cstr path) @ NUL # r"
        using r h by (metis append_Cons append_assoc)
      then have upd: "a[length h := NUL] = h @ NUL # filename_string (cstr path) @ NUL # r"
        by (metis list_update_length)
      have nul: "NUL \<notin> set h" using h NUL_notin_cstr [of path] by (metis Un_iff set_append)
      have "fs_get_parent_path path buf = Some (a[length h := NUL])"
        using a slash True False lt by (simp add: fs_get_parent_path_def strlen_eq k)
      moreover have "length (a[length h := NUL]) = length buf" using a(2) by simp
      moreover have "terminated (a[length h := NUL])" "cstr (a[length h := NUL]) = h"
        unfolding upd using cstr_append [OF nul] by simp_all
      ultimately show ?thesis using par False by simp
    qed
  qed
qed

end
