(* ===== verification/Fs_File.thy ===== *)
theory Fs_File
  imports Fs_Path
begin

text \<open>
  Files (\<open>fs_init\<close>, \<open>fs_write_file\<close>, \<open>fs_read_file\<close>, \<open>fs_delete_node\<close>,
  \<open>fs_copy_file\<close>, \<open>fs_move_file\<close> of \<open>filesystem.c\<close>). Every operation is shown to be
  defined on a well-formed file system, to keep it well-formed, and to have the effect stated
  here on the directory maps and on the text of the files.
\<close>

section \<open>Operations\<close>

text \<open>\<open>fs_init\<close> reports on the terminal; the model returns the string it writes.\<close>

definition fs_init :: "fs_state \<Rightarrow> (char list \<times> fs_state) option" where
  "fs_init s = do {
     let s0 = s\<lparr>fs_root := None, fs_current_dir := None, file_list_head := None, total_files := 0,
       current_path := replicate MAX_PATH_LENGTH NUL\<rparr>;
     (root, s1) \<leftarrow> fs_create_file (lit ''/'') FILE_TYPE_DIRECTORY s0;
     let s2 = s1\<lparr>fs_root := root\<rparr>;
     case root of
       None \<Rightarrow> Some (lit (''Error: Failed to create root directory'' @ [NL]), s2)
     | Some r \<Rightarrow> do {
         let s3 = s2\<lparr>fs_current_dir := fs_root s2\<rparr>;
         d \<leftarrow> node_at s3 r;
         let s4 = set_node r (d\<lparr>node_parent := fs_root s3\<rparr>) s3;
         cp \<leftarrow> strcpy (current_path s4) (lit ''/'');
         Some (lit (''File system initialized'' @ [NL]), s4\<lparr>current_path := cp\<rparr>) } }"

definition fs_write_file :: "ptr option \<Rightarrow> char list \<Rightarrow> nat \<Rightarrow> fs_state \<Rightarrow> (int \<times> fs_state) option" where
  "fs_write_file file data n s =
     (case file of
        None \<Rightarrow> Some (-1, s)
      | Some p \<Rightarrow> do {
          d \<leftarrow> node_at s p;
          if node_type d \<noteq> FILE_TYPE_REGULAR then Some (-1, s)
          else case node_data d of
            None \<Rightarrow> Some (-1, s)
          | Some b \<Rightarrow> do {
              let n = (if n > MAX_FILE_SIZE then MAX_FILE_SIZE else n);
              blk \<leftarrow> block_at s b;
              blk' \<leftarrow> memcpy blk data n;
              let (now, s1) = get_current_time (s\<lparr>block_at := (block_at s)(b \<mapsto> blk')\<rparr>);
              Some (int n, set_node p (d\<lparr>node_size := n, modification_time := now\<rparr>) s1) } })"

text \<open>\<open>fs_read_file\<close> returns the data pointer; reading through it is \<open>block_at\<close>.\<close>

definition fs_read_file :: "ptr option \<Rightarrow> fs_state \<Rightarrow> ptr option option" where
  "fs_read_file file s =
     (case file of
        None \<Rightarrow> Some None
      | Some p \<Rightarrow> do {
          d \<leftarrow> node_at s p;
          if node_type d \<noteq> FILE_TYPE_REGULAR \<or> node_data d = None then Some None
          else Some (node_data d) })"

definition fs_delete_node :: "ptr option \<Rightarrow> fs_state \<Rightarrow> (int \<times> fs_state) option" where
  "fs_delete_node node s =
     (case node of
        None \<Rightarrow> Some (-1, s)
      | Some p \<Rightarrow>
          if node = fs_root s then Some (-1, s)
          else do {
            d \<leftarrow> node_at s p;
            if node_type d = FILE_TYPE_DIRECTORY \<and> child_count d > 0 then Some (-1, s)
            else do {
              s1 \<leftarrow> (if node_parent d \<noteq> None
                    then do { (r, s1) \<leftarrow> fs_remove_child (node_parent d) (node_name d) s; Some s1 }
                    else Some s);
              Some (0, s1\<lparr>total_files := total_files s1 - 1\<rparr>) } })"

definition fs_copy_file :: "char list \<Rightarrow> char list \<Rightarrow> fs_state \<Rightarrow> (int \<times> fs_state) option" where
  "fs_copy_file src_path dest_path s = do {
     src \<leftarrow> fs_resolve_path (Some src_path) s;
     case src of
       None \<Rightarrow> Some (-1, s)
     | Some p \<Rightarrow> do {
         d \<leftarrow> node_at s p;
         if node_type d \<noteq> FILE_TYPE_REGULAR then Some (-1, s)
         else do {
           dest_dir_path \<leftarrow> fs_get_parent_path dest_path (replicate MAX_PATH_LENGTH NUL);
           dest_filename \<leftarrow> fs_get_filename dest_path (replicate MAX_FILENAME_LENGTH NUL);
           dest_dir \<leftarrow> fs_resolve_path (Some dest_dir_path) s;
           case dest_dir of
             None \<Rightarrow> Some (-1, s)
           | Some q \<Rightarrow> do {
               dd \<leftarrow> node_at s q;
               if node_type dd \<noteq> FILE_TYPE_DIRECTORY then Some (-1, s)
               else do {
                 (dest_file, s1) \<leftarrow> fs_create_file dest_filename FILE_TYPE_REGULAR s;
                 if dest_file = None then Some (-1, s1)
                 else do {
                   d \<leftarrow> node_at s1 p;
                   s2 \<leftarrow> (case node_data d of
                       None \<Rightarrow> Some s1
                     | Some b \<Rightarrow>
                         if node_size d > 0 then do {
                           blk \<leftarrow> block_at s1 b;
                           (r, s2) \<leftarrow> fs_write_file dest_file blk (node_size d) s1;
                           Some s2 }
                         else Some s1);
                   (r, s3) \<leftarrow> fs_add_child dest_dir dest_file s2;
                   if r \<noteq> 0 then do {
                     (r', s4) \<leftarrow> fs_delete_node dest_file s3;
                     Some (-1, s4) }
                   else Some (0, s3) } } } } } }"

definition fs_move_file :: "char list \<Rightarrow> char list \<Rightarrow> fs_state \<Rightarrow> (int \<times> fs_state) option" where
  "fs_move_file src_path dest_path s = do {
     (r, s1) \<leftarrow> fs_copy_file src_path dest_path s;
     if r = 0 then do {
       src \<leftarrow> fs_resolve_path (Some src_path) s1;
       if src \<noteq> None then do {
         (r', s2) \<leftarrow> fs_delete_node src s1;
         Some (0, s2) }
       else Some (-1, s1) }
     else Some (-1, s1) }"

section \<open>The text of a file\<close>

text \<open>The bytes behind a regular file's data pointer, and the text \<open>cat\<close> and the editor see.\<close>

definition file_block :: "fs_state \<Rightarrow> ptr \<Rightarrow> char list option" where
  "file_block s p = do { d \<leftarrow> node_at s p; b \<leftarrow> node_data d; block_at s b }"

definition file_text :: "fs_state \<Rightarrow> ptr \<Rightarrow> string option" where
  "file_text s p = map_option cstr (file_block s p)"

text \<open>A buffer that holds a text shorter than the buffer and zeros after it.\<close>

definition text_block :: "string \<Rightarrow> char list \<Rightarrow> bool" where
  "text_block y blk \<longleftrightarrow> NUL \<notin> set y \<and> length y < MAX_FILE_SIZE \<and>
     blk = y @ replicate (MAX_FILE_SIZE - length y) NUL"

definition texts_ok :: "fs_state \<Rightarrow> bool" where
  "texts_ok s \<longleftrightarrow> (\<forall>p blk. file_block s p = Some blk \<longrightarrow>
     (\<exists>y. text_block y blk \<and> node_size (the (node_at s p)) \<le> length y))"

lemma texts_ok_cong:
  assumes "file_block s' = file_block s"
    and "\<And>p. map_option node_size (node_at s' p) = map_option node_size (node_at s p)"
  shows "texts_ok s' \<longleftrightarrow> texts_ok s"
proof -
  have "node_size (the (node_at s' p)) = node_size (the (node_at s p))" if "file_block s p = Some blk" for p blk
    using assms(2) [of p] that by (auto simp: file_block_def bind_eq_Some_conv)
  then show ?thesis by (auto simp: texts_ok_def assms(1))
qed

lemma text_block_unfold: "text_block y blk \<Longrightarrow> blk = y @ NUL # replicate (MAX_FILE_SIZE - Suc (length y)) NUL"
  by (simp add: text_block_def Suc_diff_Suc flip: replicate_Suc)

lemma text_blockD:
  assumes "text_block y blk"
  shows "cstr blk = y" and "terminated blk" and "length blk = MAX_FILE_SIZE"
proof -
  have nul: "NUL \<notin> set y" and len: "length y < MAX_FILE_SIZE" using assms by (simp_all add: text_block_def)
  show "cstr blk = y" "terminated blk"
    unfolding text_block_unfold [OF assms] using cstr_append [OF nul] by simp_all
  show "length blk = MAX_FILE_SIZE" unfolding text_block_unfold [OF assms] using len by simp
qed

lemma text_block_zero: "text_block [] (replicate MAX_FILE_SIZE NUL)"
  by (simp add: text_block_def MAX_FILE_SIZE_def)

text \<open>Writing \<open>x\<close> over \<open>y\<close> leaves the tail of \<open>y\<close> in place.\<close>

lemma text_block_overwrite:
  assumes "text_block y blk" and "NUL \<notin> set x" and "length x < MAX_FILE_SIZE"
  shows "text_block (x @ drop (length x) y) (x @ drop (length x) blk)"
proof -
  have "drop (length x) blk = drop (length x) y @ replicate (MAX_FILE_SIZE - length (x @ drop (length x) y)) NUL"
    using assms by (auto simp: text_block_def)
  moreover have "NUL \<notin> set (drop (length x) y)"
    using assms(1) by (auto simp: text_block_def dest: in_set_dropD)
  ultimately show ?thesis using assms by (auto simp: text_block_def)
qed

text \<open>The views do not depend on the counters and the current directory.\<close>

lemma label_frame [frame_simps]:
  "label (s\<lparr>total_files := n\<rparr>) = label s" "label (s\<lparr>fs_current_dir := c\<rparr>) = label s"
  "label (s\<lparr>current_path := cp\<rparr>) = label s"
  by (simp_all add: label_def fun_eq_iff)

lemma dir_map_frame [frame_simps]:
  "dir_map (s\<lparr>total_files := n\<rparr>) = dir_map s" "dir_map (s\<lparr>fs_current_dir := c\<rparr>) = dir_map s"
  "dir_map (s\<lparr>current_path := cp\<rparr>) = dir_map s"
  by (rule ext, rule dir_map_cong; simp add: frame_simps)+

lemma file_block_frame [frame_simps]:
  "file_block (s\<lparr>total_files := n\<rparr>) = file_block s" "file_block (s\<lparr>fs_current_dir := c\<rparr>) = file_block s"
  "file_block (s\<lparr>current_path := cp\<rparr>) = file_block s"
  by (simp_all add: file_block_def fun_eq_iff)

section \<open>Initialisation\<close>

lemma store_ok_empty: "node_at s = Map.empty \<Longrightarrow> memory_offset s < POOL_SIZE \<Longrightarrow> store_ok s"
  by (simp add: store_ok_def pool_ok_def)

text \<open>A store whose only node is its own parent and is the root.\<close>

lemma store_ok_root:
  assumes ok: "store_ok s" and nodes: "node_at s = [r \<mapsto> d]" and d: "kids d = []"
    "node_type d = FILE_TYPE_DIRECTORY" and root: "fs_root s = Some r"
  shows "store_ok (set_node r (d\<lparr>node_parent := Some r\<rparr>) s)"
proof -
  have "node_shape r d" "pool_ok s" using ok nodes by (auto simp: store_ok_def)
  then show ?thesis using nodes d root
    by (auto simp: store_ok_def set_node_def node_links_def pool_ok_def split: if_splits)
qed

lemma fs_init_boot:
  obtains s d where "fs_init fs_boot = Some (lit (''File system initialized'' @ [NL]), s)"
    and "wf_fs s" and "fs_root s = Some 0" and "fs_current_dir s = Some 0"
    and "node_at s = [0 \<mapsto> d]" and "kids d = []" and "node_type d = FILE_TYPE_DIRECTORY"
    and "cstr (node_name d) = ''/''" and "cstr (current_path s) = ''/''"
    and "total_files s = 1" and "memory_offset s = 224" and "block_at s = Map.empty"
proof -
  let ?s0 = "fs_boot\<lparr>fs_root := None, fs_current_dir := None, file_list_head := None, total_files := 0,
       current_path := replicate MAX_PATH_LENGTH NUL\<rparr>"
  have s0: "?s0 = fs_boot" by (simp add: fs_boot_def)
  have ok0: "store_ok fs_boot" by (rule store_ok_empty) (simp_all add: fs_boot_def POOL_SIZE_def)
  have can: "can_create fs_boot"
    by (simp add: can_create_def fs_boot_def MAX_TOTAL_FILES_def SIZEOF_FS_NODE_def)
  obtain p d s1 where c: "fs_create_file (lit ''/'') FILE_TYPE_DIRECTORY fs_boot = Some (Some p, s1)"
    "created fs_boot (lit ''/'') FILE_TYPE_DIRECTORY p d s1"
    by (rule fs_create_file_created [OF ok0 terminated_lit can])
  have p: "p = 0" using c(2) by (simp add: created_def fs_boot_def)
  note c' = c(2) [unfolded created_def p]
  have mo: "memory_offset s1 = 224" and blk: "block_at s1 = Map.empty"
    using c(1) by (auto simp: fs_create_file_def fs_boot_def kmalloc_def POOL_SIZE_def SIZEOF_FS_NODE_def
        MAX_TOTAL_FILES_def get_current_time_def set_node_def Let_def bind_eq_Some_conv)
  define s3 where "s3 = s1\<lparr>fs_root := Some 0, fs_current_dir := Some 0\<rparr>"
  have nodes: "node_at s3 = [0 \<mapsto> d]" using c' by (simp add: s3_def fs_boot_def)
  have ok1: "store_ok s1" using c' by blast
  have "pool_ok s3" using ok1 by (simp add: store_ok_def pool_ok_def s3_def)
  moreover have "node_shape 0 d" "node_links s3 0 d" using c' by (simp_all add: node_links_def)
  ultimately have ok3: "store_ok s3" using nodes by (simp add: store_ok_def)
  define s4 where "s4 = set_node 0 (d\<lparr>node_parent := Some 0\<rparr>) s3"
  have ok4: "store_ok s4"
    unfolding s4_def using c' by (intro store_ok_root [OF ok3 nodes]) (simp_all add: s3_def)
  have cp4: "current_path s4 = replicate MAX_PATH_LENGTH NUL"
    using c' by (simp add: s4_def s3_def set_node_def fs_boot_def)
  then have "length ''/'' < length (current_path s4)" by (simp add: MAX_PATH_LENGTH_def)
  then obtain cp where cp: "strcpy (current_path s4) (lit ''/'') = Some cp" "length cp = length (current_path s4)"
    "terminated cp" "cstr cp = ''/''"
    by (rule sets_string_fits [OF strcpy_sets [OF terminated_lit, of "current_path s4" "''/''", unfolded cstr_slash]])
  define s5 where "s5 = s4\<lparr>current_path := cp\<rparr>"
  have init: "fs_init fs_boot = Some (lit (''File system initialized'' @ [NL]), s5)"
    using c(1) p cp(1) nodes unfolding fs_init_def s0
    by (simp add: s3_def s4_def s5_def Let_def)
  have dir: "attached_dir s5 (Some 0)"
    using c' by (simp add: attached_dir_def s5_def s4_def set_node_def s3_def)
  have wf: "wf_fs s5"
    using ok4 dir cp cp4 by (auto simp: wf_fs_def s5_def frame_simps s4_def s3_def set_node_def)
  show ?thesis
    by (rule that [OF init wf, of "d\<lparr>node_parent := Some 0\<rparr>"])
       (use c' cp(4) mo blk nodes in \<open>simp_all add: s5_def s4_def s3_def set_node_def cstr_lit fs_boot_def MAX_FILENAME_LENGTH_def\<close>)
qed

section \<open>Writing\<close>

text \<open>Operations that leave the tree of names alone.\<close>

definition same_tree :: "fs_state \<Rightarrow> fs_state \<Rightarrow> bool" where
  "same_tree s s' \<longleftrightarrow> label s' = label s \<and> dir_map s' = dir_map s \<and> fs_extends s s' \<and>
     fs_root s' = fs_root s \<and> fs_current_dir s' = fs_current_dir s \<and>
     current_path s' = current_path s \<and> total_files s' = total_files s"

lemma store_ok_block:
  assumes "store_ok s" and "length blk = MAX_FILE_SIZE"
  shows "store_ok (s\<lparr>block_at := (block_at s)(b \<mapsto> blk)\<rparr>)"
proof -
  let ?s = "s\<lparr>block_at := (block_at s)(b \<mapsto> blk)\<rparr>"
  have "label ?s = label s" by (simp add: label_def fun_eq_iff)
  moreover have "pool_ok ?s" using assms by (auto simp: store_ok_def pool_ok_def)
  ultimately show ?thesis using assms(1) by (simp add: store_ok_def node_links_def)
qed

lemma fs_write_file_refused:
  assumes "node_at s p = Some d" and "node_type d = FILE_TYPE_DIRECTORY \<or> node_data d = None"
  shows "fs_write_file (Some p) data n s = Some (-1, s)"
  using assms by (auto simp: fs_write_file_def split: option.splits)

lemma fs_write_file_ok:
  assumes ok: "store_ok s" and d: "node_at s p = Some d" "node_data d = Some b"
    and blk: "block_at s b = Some blk" and m: "m = min n MAX_FILE_SIZE" "m \<le> length data"
  obtains s' where "fs_write_file (Some p) data n s = Some (int m, s')"
    and "store_ok s'" and "same_tree s s'"
    and "file_block s' = (file_block s)(p \<mapsto> take m data @ drop m blk)"
    and "\<exists>t. node_at s' = (node_at s)(p \<mapsto> d\<lparr>node_size := m, modification_time := t\<rparr>)"
    and "memory_offset s' = memory_offset s"
proof -
  obtain blk' where "block_at s b = Some blk'" "length blk' = MAX_FILE_SIZE" and
    b: "b = p + SIZEOF_FS_NODE" and reg: "node_type d = FILE_TYPE_REGULAR"
    using ok d by (rule data_block)
  then have len: "length blk = MAX_FILE_SIZE" using blk by simp
  let ?blk = "take m data @ drop m blk"
  have cp: "memcpy blk data m = Some ?blk" using m len by (intro memcpy_eq) auto
  let ?d = "d\<lparr>node_size := m, modification_time := time_counter s + 1\<rparr>"
  define s1 where "s1 = s\<lparr>block_at := (block_at s)(b \<mapsto> ?blk)\<rparr>"
  define s' where "s' = set_node p ?d (s1\<lparr>time_counter := time_counter s + 1\<rparr>)"
  have "(if n > MAX_FILE_SIZE then MAX_FILE_SIZE else n) = m" using m(1) by (simp add: min_def)
  then have eq: "fs_write_file (Some p) data n s = Some (int m, s')"
    using d reg blk cp by (simp add: fs_write_file_def Let_def get_current_time_def s'_def s1_def)
  have ok1: "store_ok (s1\<lparr>time_counter := time_counter s + 1\<rparr>)"
    using store_ok_block [OF ok, of ?blk b] len m(1,2) by (simp add: s1_def frame_simps)
  have lab1: "label (s1\<lparr>time_counter := time_counter s + 1\<rparr>) = label s"
    by (simp add: label_def s1_def fun_eq_iff)
  note shape = store_ok_shape [OF ok d(1)]
  have ok': "store_ok s'"
    unfolding s'_def
  proof (rule store_ok_update [OF ok1])
    show "node_shape p ?d" using shape length_kids [OF shape] m(1) reg by (simp add: node_shape_def)
    show "distinct (map (label (s1\<lparr>time_counter := time_counter s + 1\<rparr>)) (kids ?d))"
      using distinct_labels [OF ok d(1)] by (simp add: lab1)
    show "p < k \<and> (\<exists>e. node_at (s1\<lparr>time_counter := time_counter s + 1\<rparr>) k = Some e \<and> node_parent e = Some p)"
      if "k \<in> set (kids ?d)" for k
      using that child_present [OF ok d(1), of k] by (auto simp: s1_def)
  qed (use d in \<open>auto simp: s1_def\<close>)
  have lab: "label s' = label s"
    using d by (simp add: label_def s'_def s1_def set_node_def fun_eq_iff)
  have "dir_map s' q = dir_map s q" for q
    using d by (intro dir_map_cong lab) (simp add: s'_def s1_def set_node_def)
  then have tree: "same_tree s s'"
    using d lab by (auto simp: same_tree_def s'_def s1_def set_node_def fs_extends_def)
  have blocks: "file_block s' = (file_block s)(p \<mapsto> ?blk)"
  proof
    fix q
    show "file_block s' q = ((file_block s)(p \<mapsto> ?blk)) q"
    proof (cases "q = p")
      case True
      then show ?thesis using d by (simp add: file_block_def s'_def s1_def set_node_def)
    next
      case False
      have "node_data e = Some c \<Longrightarrow> node_at s q = Some e \<Longrightarrow> c \<noteq> b" for e c
        using data_block [OF ok, of q e c] b False by (metis add_right_cancel)
      then show ?thesis using False
        by (cases "node_at s q"; cases "node_data (the (node_at s q))")
           (auto simp: file_block_def s'_def s1_def set_node_def)
    qed
  qed
  show ?thesis
    by (rule that [OF eq ok' tree blocks]) (auto simp: s'_def s1_def set_node_def)
qed

section \<open>Deleting\<close>

lemma dir_updated_file_block:
  assumes "dir_updated s p m s'"
  shows "file_block s' = file_block s"
proof
  fix q
  have "map_option node_size (node_at s' q) = map_option node_size (node_at s q)"
    and ext: "fs_extends s s'" and blk: "block_at s' = block_at s"
    using assms by (auto simp: dir_updated_def only_nodes_def)
  then show "file_block s' q = file_block s q"
    by (cases "node_at s q") (auto simp: file_block_def elim!: fs_extendsD [OF ext])
qed

lemma node_extends_block:
  assumes "fs_extends s s'" and "node_at s q = Some d" and "block_at s' = block_at s"
  shows "file_block s' q = file_block s q"
  using assms by (auto simp: file_block_def elim!: fs_extendsD)

text \<open>A node that may be deleted: not the root and not a directory with children.\<close>

definition deletable :: "fs_state \<Rightarrow> ptr \<Rightarrow> bool" where
  "deletable s p \<longleftrightarrow> fs_root s \<noteq> Some p \<and> (\<exists>d. node_at s p = Some d \<and>
     (node_type d = FILE_TYPE_DIRECTORY \<longrightarrow> child_count d = 0))"

lemma fs_delete_node_refused:
  "node_at s p = Some d \<Longrightarrow> \<not> deletable s p \<Longrightarrow> fs_delete_node (Some p) s = Some (-1, s)"
  by (auto simp: fs_delete_node_def deletable_def)

text \<open>Deleting unlinks by name: the entry of the parent under the node's name goes, whatever it
  points to, and one file is subtracted from the count.\<close>

definition unlinked :: "fs_state \<Rightarrow> ptr \<Rightarrow> fs_state \<Rightarrow> bool" where
  "unlinked s p s' \<longleftrightarrow> store_ok s' \<and> fs_extends s s' \<and> label s' = label s \<and>
     file_block s' = file_block s \<and> memory_offset s' = memory_offset s \<and>
     fs_root s' = fs_root s \<and> fs_current_dir s' = fs_current_dir s \<and>
     current_path s' = current_path s \<and> total_files s' = total_files s - 1 \<and>
     (\<forall>q. map_option node_size (node_at s' q) = map_option node_size (node_at s q)) \<and>
     (\<forall>q. dir_map s' q = (if map_option node_parent (node_at s p) = Some (Some q)
                          then (dir_map s q)(label s p := None) else dir_map s q))"

lemma fs_delete_node_ok:
  assumes ok: "store_ok s" and del: "deletable s p"
  obtains s' where "fs_delete_node (Some p) s = Some (0, s')" and "unlinked s p s'"
proof -
  from del obtain d where d: "node_at s p = Some d" and root: "fs_root s \<noteq> Some p"
    and empty: "\<not> (node_type d = FILE_TYPE_DIRECTORY \<and> child_count d > 0)"
    by (auto simp: deletable_def)
  have lab: "label s p = cstr (node_name d)" using d by (simp add: label_def)
  show ?thesis
  proof (cases "node_parent d")
    case None
    define s' where "s' = s\<lparr>total_files := total_files s - 1\<rparr>"
    have maps: "label s' = label s" "dir_map s' = dir_map s" "file_block s' = file_block s"
      by (simp_all add: s'_def frame_simps)
    have "fs_delete_node (Some p) s = Some (0, s')"
      using root d empty None by (auto simp: fs_delete_node_def s'_def)
    moreover have "unlinked s p s'"
      using ok d None maps by (simp add: unlinked_def s'_def frame_simps fs_extends_def)
    ultimately show ?thesis by (rule that)
  next
    case (Some q)
    obtain e where e: "node_at s q = Some e" "node_type e = FILE_TYPE_DIRECTORY"
      using parent_present [OF ok d Some] by (auto simp: attached_dir_def)
    have nm: "terminated (node_name d)" using node_shapeD(2) [OF store_ok_shape [OF ok d]] .
    have "\<exists>r s1. fs_remove_child (Some q) (node_name d) s = Some (r, s1) \<and>
      dir_updated s q ((dir_map s q)(label s p := None)) s1"
    proof (cases "dir_map s q (cstr (node_name d))")
      case None
      then have "(dir_map s q)(label s p := None) = dir_map s q" by (simp add: lab fun_eq_iff)
      then show ?thesis
        using fs_remove_child_absent [OF ok e nm None] ok by (simp add: dir_updated_def)
    next
      case (Some k)
      then show ?thesis using fs_remove_child_removed [OF ok e nm Some] lab by metis
    qed
    then obtain r s1 where s1: "fs_remove_child (Some q) (node_name d) s = Some (r, s1)"
      "dir_updated s q ((dir_map s q)(label s p := None)) s1" by blast
    define s' where "s' = s1\<lparr>total_files := total_files s1 - 1\<rparr>"
    have maps: "label s' = label s1" "dir_map s' = dir_map s1" "file_block s' = file_block s1"
      by (simp_all add: s'_def frame_simps)
    have "fs_delete_node (Some p) s = Some (0, s')"
      using root d empty Some s1(1) by (auto simp: fs_delete_node_def s'_def)
    moreover have "unlinked s p s'"
      using s1(2) dir_updated_file_block [OF s1(2)] d Some maps
      by (auto simp: unlinked_def dir_updated_def only_nodes_def s'_def frame_simps fs_extends_def)
    ultimately show ?thesis by (rule that)
  qed
qed

lemma unlinked_wf: "unlinked s p s' \<Longrightarrow> wf_fs s \<Longrightarrow> wf_fs s'"
  by (rule wf_fs_step [of s]) (auto simp: unlinked_def wf_fs_def intro: attached_extends)

section \<open>Walks in a grown tree\<close>

text \<open>Adding entries and keeping parents does not change where a successful walk ends.\<close>

lemma walk_grown:
  assumes ok: "store_ok s" and ext: "fs_extends s s'"
    and grown: "\<And>d x k. dir_map s d x = Some k \<Longrightarrow> dir_map s' d x = Some k"
  shows "attached s p \<Longrightarrow> walk s p xs = Some q \<Longrightarrow> walk s' p xs = Some q"
proof (induction xs arbitrary: p)
  case (Cons x xs)
  have "parent_of s' p = parent_of s p"
    using Cons.prems(1) ext by (auto simp: attached_def parent_of_def elim!: fs_extendsD)
  then show ?case
    using Cons attached_parent(2) [OF ok Cons.prems(1)] attached_child [OF ok] grown
    by (auto split: if_splits option.splits)
qed simp

section \<open>Copying\<close>

lemma created_dir_map:
  assumes ok: "store_ok s" and c: "created s nm ty q e s1"
  shows "dir_map s1 = dir_map s" and "k \<noteq> q \<Longrightarrow> label s1 k = label s k"
    and "label s1 q = take (MAX_FILENAME_LENGTH - 2) (cstr nm)"
    and "node_at s r \<noteq> None \<Longrightarrow> file_block s1 r = file_block s r"
proof -
  note c' = c [unfolded created_def]
  show lab: "k \<noteq> q \<Longrightarrow> label s1 k = label s k" for k using c' by (simp add: label_def)
  show "label s1 q = take (MAX_FILENAME_LENGTH - 2) (cstr nm)" using c' by (simp add: label_def)
  show "dir_map s1 = dir_map s"
  proof
    fix r
    show "dir_map s1 r = dir_map s r"
    proof (cases "node_at s r")
      case None
      then show ?thesis using c' by (auto simp: dir_map_def)
    next
      case (Some d)
      have "label s1 k = label s k" if "k \<in> set (kids d)" for k
        using child_present [OF ok Some that] lab [of k] c' by (metis option.distinct(1))
      moreover have "node_at s1 r = Some d" using c' Some by auto
      ultimately show ?thesis using Some by (simp add: dir_map_def cong: map_cong)
    qed
  qed
  show "node_at s r \<noteq> None \<Longrightarrow> file_block s1 r = file_block s r"
  proof -
    assume "node_at s r \<noteq> None"
    then obtain d where d: "node_at s r = Some d" by auto
    have "b < q" if "node_data d = Some b" for b
      using ok d that c' by (fastforce simp: store_ok_def pool_ok_def MAX_FILE_SIZE_def)
    then show "file_block s1 r = file_block s r"
      using c' d by (cases "node_data d") (auto simp: file_block_def)
  qed
qed

text \<open>The bytes a copy takes from its source: the first \<open>size\<close> bytes of the buffer.\<close>

definition source_bytes :: "fs_state \<Rightarrow> ptr \<Rightarrow> char list" where
  "source_bytes s p = (case file_block s p of None \<Rightarrow> []
     | Some blk \<Rightarrow> take (node_size (the (node_at s p))) blk)"

lemma copy_data_ok:
  assumes ok: "store_ok s" and p: "node_at s p = Some d" "p \<noteq> q"
    and q: "node_at s q = Some e" "node_type e = FILE_TYPE_REGULAR" "node_size e = 0"
  shows "yields (case node_data d of None \<Rightarrow> Some s
       | Some b \<Rightarrow> if node_size d > 0 then do {
             blk \<leftarrow> block_at s b; (r, s2) \<leftarrow> fs_write_file (Some q) blk (node_size d) s; Some s2 }
           else Some s)
    (\<lambda>s2. store_ok s2 \<and> same_tree s s2 \<and> memory_offset s2 = memory_offset s \<and>
       file_block s2 = (file_block s)(q := map_option (\<lambda>old. source_bytes s p @ drop (length (source_bytes s p)) old) (file_block s q)) \<and>
       (\<exists>e'. node_at s2 = (node_at s)(q \<mapsto> e') \<and> node_parent e' = node_parent e \<and> kids e' = kids e \<and>
          node_size e' = (if file_block s q = None then 0 else length (source_bytes s p))))"
proof -
  have same: "\<exists>e'. node_at s = (node_at s)(q \<mapsto> e') \<and> node_parent e' = node_parent e \<and>
      kids e' = kids e \<and> node_size e' = 0"
    using q by (intro exI [of _ e]) (simp add: fun_upd_idem)
  have id: ?thesis if "source_bytes s p = []"
    "(case node_data d of None \<Rightarrow> Some s
       | Some b \<Rightarrow> if node_size d > 0 then do {
             blk \<leftarrow> block_at s b; (r, s2) \<leftarrow> fs_write_file (Some q) blk (node_size d) s; Some s2 }
           else Some s) = Some s"
  proof -
    have "same_tree s s" by (simp add: same_tree_def)
    then show ?thesis
      unfolding that using same by (simp add: ok option.map_ident)
  qed
  show ?thesis
  proof (cases "node_data d = None \<or> node_size d = 0")
    case True
    then show ?thesis using p by (intro id) (auto simp: source_bytes_def file_block_def split: option.splits)
  next
    case False
    then obtain b where b: "node_data d = Some b" "node_size d > 0" by auto
    obtain blk where blk: "block_at s b = Some blk" "length blk = MAX_FILE_SIZE"
      using data_block [OF ok p(1) b(1)] by metis
    have size: "node_size d \<le> MAX_FILE_SIZE" by (rule node_shapeD(5) [OF store_ok_shape [OF ok p(1)]])
    have bytes: "source_bytes s p = take (node_size d) blk"
      using p(1) b blk by (simp add: source_bytes_def file_block_def)
    then have len: "length (source_bytes s p) = node_size d" using size blk by simp
    show ?thesis
    proof (cases "node_data e")
      case None
      then have "fs_write_file (Some q) blk (node_size d) s = Some (-1, s)"
        using q by (intro fs_write_file_refused) auto
      moreover have "file_block s q = None" using None q by (simp add: file_block_def)
      ultimately show ?thesis using b blk ok q same by (simp add: same_tree_def fun_upd_idem)
    next
      case (Some c)
      obtain old where old: "block_at s c = Some old" using data_block [OF ok q(1) Some] by metis
      have m: "node_size d = min (node_size d) MAX_FILE_SIZE" "node_size d \<le> length blk"
        using size blk by simp_all
      obtain s2 where s2: "fs_write_file (Some q) blk (node_size d) s = Some (int (node_size d), s2)"
        "store_ok s2" "same_tree s s2"
        "file_block s2 = (file_block s)(q \<mapsto> take (node_size d) blk @ drop (node_size d) old)"
        "\<exists>t. node_at s2 = (node_at s)(q \<mapsto> e\<lparr>node_size := node_size d, modification_time := t\<rparr>)"
        "memory_offset s2 = memory_offset s"
        by (rule fs_write_file_ok [OF ok q(1) Some old m])
      obtain t where t: "node_at s2 = (node_at s)(q \<mapsto> e\<lparr>node_size := node_size d, modification_time := t\<rparr>)"
        using s2(5) ..
      have fb: "file_block s q = Some old" using q Some old by (simp add: file_block_def)
      have "\<exists>e'. node_at s2 = (node_at s)(q \<mapsto> e') \<and> node_parent e' = node_parent e \<and> kids e' = kids e \<and>
          node_size e' = node_size d"
        by (rule exI [of _ "e\<lparr>node_size := node_size d, modification_time := t\<rparr>"]) (simp add: t)
      then show ?thesis using b blk(1) s2(1-4,6) len fb unfolding bytes by simp
    qed
  qed
qed

text \<open>When a copy succeeds: the source \<open>p\<close> is a regular file, the destination directory \<open>t\<close>
  exists, has a free slot and no entry of that name, and there is room for one more node.\<close>

definition copy_name :: "char list \<Rightarrow> string" where
  "copy_name dst = take (MAX_FILENAME_LENGTH - 2) (filename_string (cstr dst))"

definition copy_source :: "fs_state \<Rightarrow> char list \<Rightarrow> char list \<Rightarrow> ptr \<Rightarrow> ptr \<Rightarrow> bool" where
  "copy_source s src dst p t \<longleftrightarrow> resolve_spec s (cstr src) = Some p \<and>
     map_option node_type (node_at s p) = Some FILE_TYPE_REGULAR \<and>
     resolve_spec s (parent_string (cstr dst)) = Some t \<and>
     map_option node_type (node_at s t) = Some FILE_TYPE_DIRECTORY \<and> can_create s"

definition copy_ready :: "fs_state \<Rightarrow> char list \<Rightarrow> char list \<Rightarrow> ptr \<Rightarrow> ptr \<Rightarrow> bool" where
  "copy_ready s src dst p t \<longleftrightarrow> copy_source s src dst p t \<and> \<not> dir_full s t \<and>
     dir_map s t (copy_name dst) = None"

text \<open>A failed copy can leave an orphan node behind in the pool, but no name and no text changes.\<close>

definition tree_kept :: "fs_state \<Rightarrow> fs_state \<Rightarrow> bool" where
  "tree_kept s s' \<longleftrightarrow> wf_fs s' \<and> fs_extends s s' \<and> dir_map s' = dir_map s \<and>
     (\<forall>k. node_at s k \<noteq> None \<longrightarrow> label s' k = label s k \<and> file_block s' k = file_block s k) \<and>
     fs_root s' = fs_root s \<and> fs_current_dir s' = fs_current_dir s \<and>
     current_path s' = current_path s \<and> total_files s' = total_files s \<and>
     (texts_ok s \<longrightarrow> texts_ok s')"

text \<open>A copy enters one new file \<open>q\<close> under the name; its text is the source's first \<open>size\<close>
  bytes, unless the pool has room for the node and not for its buffer.\<close>

definition copied :: "fs_state \<Rightarrow> ptr \<Rightarrow> ptr \<Rightarrow> string \<Rightarrow> ptr \<Rightarrow> fs_state \<Rightarrow> bool" where
  "copied s p t nm q s' \<longleftrightarrow> wf_fs s' \<and> fs_extends s s' \<and> node_at s q = None \<and>
     dir_map s' = (dir_map s)(t := (dir_map s t)(nm \<mapsto> q)) \<and> label s' q = nm \<and>
     (\<forall>k. node_at s k \<noteq> None \<longrightarrow> label s' k = label s k \<and> file_block s' k = file_block s k) \<and>
     map_option node_type (node_at s' q) = Some FILE_TYPE_REGULAR \<and>
     file_block s' q = (if unat (memory_offset s) + SIZEOF_FS_NODE + MAX_FILE_SIZE < 65536
       then Some (source_bytes s p @ replicate (MAX_FILE_SIZE - length (source_bytes s p)) NUL) else None) \<and>
     fs_root s' = fs_root s \<and> fs_current_dir s' = fs_current_dir s \<and>
     current_path s' = current_path s \<and> total_files s' = total_files s + 1 \<and>
     (texts_ok s \<longrightarrow> texts_ok s')"

lemma tree_kept_refl: "wf_fs s \<Longrightarrow> tree_kept s s"
  by (simp add: tree_kept_def)

text \<open>The two path buffers of \<open>fs_copy_file\<close>.\<close>

definition copy_fits :: "char list \<Rightarrow> bool" where
  "copy_fits dst \<longleftrightarrow> length (cstr dst) < MAX_PATH_LENGTH \<and> length (filename_string (cstr dst)) < MAX_FILENAME_LENGTH"

lemma length_filename_string: "length (filename_string x) \<le> length x"
  unfolding filename_string_def by (metis length_rev length_takeWhile_le)

lemma copy_fits_short: "length (cstr dst) < MAX_FILENAME_LENGTH \<Longrightarrow> copy_fits dst"
  using length_filename_string [of "cstr dst"] by (simp add: copy_fits_def MAX_PATH_LENGTH_def MAX_FILENAME_LENGTH_def)

lemma copy_paths:
  assumes "terminated dst" and "copy_fits dst"
  obtains dirp nm where "fs_get_parent_path dst (replicate MAX_PATH_LENGTH NUL) = Some dirp"
    and "terminated dirp" "cstr dirp = parent_string (cstr dst)"
    and "fs_get_filename dst (replicate MAX_FILENAME_LENGTH NUL) = Some nm"
    and "terminated nm" "cstr nm = filename_string (cstr dst)"
proof -
  have len: "length (filename_string (cstr dst)) < length (replicate MAX_FILENAME_LENGTH NUL)"
    using assms(2) by (simp add: copy_fits_def)
  obtain nm where nm: "fs_get_filename dst (replicate MAX_FILENAME_LENGTH NUL) = Some nm"
    "terminated nm" "cstr nm = filename_string (cstr dst)"
    by (rule sets_string_fits [OF fs_get_filename_sets [OF assms(1)] len])
  have long: "length (cstr dst) < length (replicate MAX_PATH_LENGTH NUL)" "1 < length (replicate MAX_PATH_LENGTH NUL)"
    using assms(2) by (simp_all add: copy_fits_def MAX_PATH_LENGTH_def)
  show ?thesis
    using fs_get_parent_path_sets [OF assms(1) long] nm that unfolding yields_iff by blast
qed

lemma copy_paths_overrun:
  assumes "terminated dst" and "\<not> copy_fits dst"
  shows "fs_get_parent_path dst (replicate MAX_PATH_LENGTH NUL) = None \<or>
    fs_get_filename dst (replicate MAX_FILENAME_LENGTH NUL) = None"
proof (cases "length (cstr dst) < MAX_PATH_LENGTH")
  case True
  then have "length (replicate MAX_FILENAME_LENGTH NUL) \<le> length (filename_string (cstr dst))"
    using assms(2) by (simp add: copy_fits_def)
  then show ?thesis by (rule disjI2 [OF sets_string_overrun [OF fs_get_filename_sets [OF assms(1)]]])
next
  case False
  then have "strcpy (replicate MAX_PATH_LENGTH NUL) dst = None" by (simp add: strcpy_eq)
  then show ?thesis by (simp add: fs_get_parent_path_def)
qed

text \<open>After the new file has been created and filled, and before it is entered.\<close>

definition copy_made :: "fs_state \<Rightarrow> ptr \<Rightarrow> string \<Rightarrow> ptr \<Rightarrow> fs_state \<Rightarrow> bool" where
  "copy_made s p nm q s2 \<longleftrightarrow> store_ok s2 \<and> fs_extends s s2 \<and> dir_map s2 = dir_map s \<and>
     node_at s q = None \<and> q = unat (memory_offset s) \<and> label s2 q = nm \<and>
     (\<forall>k. node_at s k \<noteq> None \<longrightarrow> label s2 k = label s k \<and> file_block s2 k = file_block s k) \<and>
     (\<forall>k. k \<noteq> q \<longrightarrow> node_at s2 k = node_at s k) \<and>
     (\<exists>e. node_at s2 q = Some e \<and> node_type e = FILE_TYPE_REGULAR \<and> node_parent e = None) \<and>
     file_block s2 q = (if q + SIZEOF_FS_NODE + MAX_FILE_SIZE < 65536
       then Some (source_bytes s p @ replicate (MAX_FILE_SIZE - length (source_bytes s p)) NUL) else None) \<and>
     fs_root s2 = fs_root s \<and> fs_current_dir s2 = fs_current_dir s \<and>
     current_path s2 = current_path s \<and> total_files s2 = total_files s + 1 \<and>
     (texts_ok s \<longrightarrow> texts_ok s2)"

lemma length_source_bytes:
  assumes "store_ok s" and "node_at s p = Some d"
  shows "length (source_bytes s p) \<le> MAX_FILE_SIZE"
proof -
  have "node_size d \<le> MAX_FILE_SIZE" by (rule node_shapeD(5) [OF store_ok_shape [OF assms]])
  then show ?thesis using assms(2) by (auto simp: source_bytes_def split: option.split)
qed

lemma copy_made_ok:
  assumes ok: "store_ok s" and p: "node_at s p = Some d"
    and c: "created s nm FILE_TYPE_REGULAR q e s1"
  shows "yields (do { d \<leftarrow> node_at s1 p; case node_data d of None \<Rightarrow> Some s1
       | Some b \<Rightarrow> if node_size d > 0 then do {
             blk \<leftarrow> block_at s1 b; (r, s2) \<leftarrow> fs_write_file (Some q) blk (node_size d) s1; Some s2 }
           else Some s1 })
    (copy_made s p (take (MAX_FILENAME_LENGTH - 2) (cstr nm)) q)"
proof -
  note c' = c [unfolded created_def]
  have pq: "p \<noteq> q" and p1: "node_at s1 p = Some d" using p c' by auto
  have ok1: "store_ok s1" and q1: "node_at s1 q = Some e" "node_type e = FILE_TYPE_REGULAR" "node_size e = 0"
    using c' by auto
  note old = created_dir_map [OF ok c]
  have src: "source_bytes s1 p = source_bytes s p"
    using old(4) [of p] by (simp add: source_bytes_def p p1 cong: option.case_cong)
  have fb: "file_block s1 q = (if q + SIZEOF_FS_NODE + MAX_FILE_SIZE < 65536
      then Some (replicate MAX_FILE_SIZE NUL) else None)"
    using c' by (auto simp: file_block_def)
  note len = length_source_bytes [OF ok p]
  show ?thesis
    unfolding p1 yields_bind yields_Some bind.bind_lunit
  proof (rule yields_mono [OF copy_data_ok [OF ok1 p1 pq q1]])
    fix s2
    assume A: "store_ok s2 \<and> same_tree s1 s2 \<and> memory_offset s2 = memory_offset s1 \<and>
       file_block s2 = (file_block s1)(q := map_option (\<lambda>old. source_bytes s1 p @ drop (length (source_bytes s1 p)) old) (file_block s1 q)) \<and>
       (\<exists>e'. node_at s2 = (node_at s1)(q \<mapsto> e') \<and> node_parent e' = node_parent e \<and> kids e' = kids e \<and>
          node_size e' = (if file_block s1 q = None then 0 else length (source_bytes s1 p)))"
    have st: "fs_extends s s2" "label s2 = label s1" "dir_map s2 = dir_map s"
      using A created_extends [OF c] old(1) by (auto simp: same_tree_def intro: fs_extends_trans)
    have keep: "file_block s2 k = file_block s k" "label s1 k = label s k" if "node_at s k \<noteq> None" for k
    proof -
      have "k \<noteq> q" using that c' by auto
      then show "file_block s2 k = file_block s k" "label s1 k = label s k"
        using A old(2) [of k] old(4) [OF that] by simp_all
    qed
    have nodes: "node_at s2 k = node_at s k" if "k \<noteq> q" for k using A c' that by auto
    have new: "\<exists>e. node_at s2 q = Some e \<and> node_type e = FILE_TYPE_REGULAR \<and> node_parent e = None"
    proof -
      obtain e' where e': "node_at s2 q = Some e'" "node_parent e' = None" using A c' by auto
      moreover have "node_type e' = node_type e"
        using A fs_extendsD [OF _ q1(1), of s2] e'(1) by (metis option.inject same_tree_def)
      ultimately show ?thesis using q1 by simp
    qed
    have fbq: "file_block s2 q = (if q + SIZEOF_FS_NODE + MAX_FILE_SIZE < 65536
       then Some (source_bytes s p @ replicate (MAX_FILE_SIZE - length (source_bytes s p)) NUL) else None)"
      using A len by (simp add: fb src)
    have glob: "store_ok s2" "q = unat (memory_offset s)" "node_at s q = None" "fs_root s2 = fs_root s"
      "fs_current_dir s2 = fs_current_dir s" "current_path s2 = current_path s"
      "total_files s2 = total_files s + 1"
      using A c' by (auto simp: same_tree_def)
    have tok: "texts_ok s \<longrightarrow> texts_ok s2"
    proof (unfold texts_ok_def, intro impI allI)
      fix k blk
      assume tx: "\<forall>p blk. file_block s p = Some blk \<longrightarrow> (\<exists>y. text_block y blk \<and> node_size (the (node_at s p)) \<le> length y)"
        and k: "file_block s2 k = Some blk"
      show "\<exists>y. text_block y blk \<and> node_size (the (node_at s2 k)) \<le> length y"
      proof (cases "k = q")
        case False
        have "node_at s k \<noteq> None" using k nodes [OF False] by (auto simp: file_block_def bind_eq_Some_conv)
        then show ?thesis using tx k keep(1) [of k] nodes [OF False] by simp
      next
        case True
        have "NUL \<notin> set (source_bytes s p) \<and> length (source_bytes s p) < MAX_FILE_SIZE"
        proof (cases "file_block s p")
          case None
          then show ?thesis by (simp add: source_bytes_def MAX_FILE_SIZE_def)
        next
          case (Some b)
          then obtain y where y: "text_block y b" "node_size d \<le> length y" using tx p by fastforce
          then have "take (node_size d) b = take (node_size d) y" by (simp add: text_block_def)
          then show ?thesis using Some p y by (auto simp: source_bytes_def text_block_def dest: in_set_takeD)
        qed
        moreover have "blk = source_bytes s p @ replicate (MAX_FILE_SIZE - length (source_bytes s p)) NUL"
          using k True fbq by (simp split: if_splits)
        moreover have "node_size (the (node_at s2 q)) = length (source_bytes s p)"
        proof -
          have "file_block s1 q \<noteq> None" using k True A by (auto simp: option.map_sel split: if_splits)
          then show ?thesis using A src by auto
        qed
        ultimately show ?thesis using True by (auto simp: text_block_def)
      qed
    qed
    have lq: "label s2 q = take (MAX_FILENAME_LENGTH - 2) (cstr nm)" unfolding st(2) by (rule old(3))
    show "copy_made s p (take (MAX_FILENAME_LENGTH - 2) (cstr nm)) q s2"
      unfolding copy_made_def
      using st(1,3) glob(1,3-) lq keep nodes new fbq tok
      by (intro conjI allI impI) (blast | rule glob(2) | simp add: st(2))+
  qed
qed

text \<open>Entering the new file, or throwing it away.\<close>

lemma copy_made_refused:
  assumes m: "copy_made s p nm q s2" and wf: "wf_fs s"
    and t: "node_at s t = Some dd" "node_type dd = FILE_TYPE_DIRECTORY" "node_parent dd \<noteq> None"
    and no: "dir_full s t \<or> dir_map s t nm \<noteq> None"
  shows "fs_add_child (Some t) (Some q) s2 = Some (-1, s2)"
    and "\<exists>s4. fs_delete_node (Some q) s2 = Some (0, s4) \<and> tree_kept s s4"
proof -
  note m' = m [unfolded copy_made_def]
  obtain e where e: "node_at s2 q = Some e" "node_type e = FILE_TYPE_REGULAR" "node_parent e = None"
    using m' by blast
  have tq: "t \<noteq> q" using t(1) m' by auto
  then have t2: "node_at s2 t = Some dd" using m' t(1) by simp
  have "child_count dd \<le> MAX_FILES_PER_DIR"
    using wf t(1) node_shapeD(3) [OF store_ok_shape [of s t dd]] by (simp add: wf_fs_def)
  then have "child_count dd = MAX_FILES_PER_DIR \<or> dir_map s2 t (label s2 q) \<noteq> None"
    using no m' t(1) by (auto simp: dir_full_def)
  then show "fs_add_child (Some t) (Some q) s2 = Some (-1, s2)"
    using m' by (intro fs_add_child_refused [OF _ t2 t(2) e(1)]) auto
  have del: "deletable s2 q"
  proof -
    have "fs_root s \<noteq> Some q" using wf m' by (auto simp: wf_fs_def attached_dir_def)
    then show ?thesis using m' e by (simp add: deletable_def)
  qed
  have ok2: "store_ok s2" using m' by blast
  obtain s4 where s4: "fs_delete_node (Some q) s2 = Some (0, s4)" "unlinked s2 q s4"
    by (rule fs_delete_node_ok [OF ok2 del])
  have wf2: "wf_fs s2"
    by (rule wf_fs_step [OF wf ok2]) (use wf m' in \<open>auto simp: wf_fs_def intro: attached_extends\<close>)
  have "dir_map s4 = dir_map s" using s4(2) e m' by (auto simp: unlinked_def fun_eq_iff)
  moreover have "texts_ok s4 = texts_ok s2"
    by (rule texts_ok_cong) (use s4(2) in \<open>auto simp: unlinked_def\<close>)
  ultimately have "tree_kept s s4"
    using m' s4(2) unlinked_wf [OF s4(2) wf2] unfolding tree_kept_def unlinked_def
    by (auto intro: fs_extends_trans)
  then show "\<exists>s4. fs_delete_node (Some q) s2 = Some (0, s4) \<and> tree_kept s s4" using s4(1) by blast
qed

lemma copy_made_added:
  assumes m: "copy_made s p nm q s2" and wf: "wf_fs s"
    and t: "node_at s t = Some dd" "node_type dd = FILE_TYPE_DIRECTORY" "node_parent dd \<noteq> None"
    and yes: "\<not> dir_full s t" "dir_map s t nm = None"
  obtains s3 where "fs_add_child (Some t) (Some q) s2 = Some (0, s3)" and "copied s p t nm q s3"
proof -
  note m' = m [unfolded copy_made_def]
  obtain e where e: "node_at s2 q = Some e" "node_type e = FILE_TYPE_REGULAR" "node_parent e = None"
    using m' by blast
  have ok2: "store_ok s2" and lab: "label s2 q = nm" using m' by blast+
  have tq: "t \<noteq> q" using t(1) m' by auto
  then have t2: "node_at s2 t = Some dd" using m' t(1) by simp
  have "t + SIZEOF_FS_NODE \<le> q"
    using wf t(1) fresh_offset [of s t dd] m' by (simp add: wf_fs_def)
  then have lt: "t < q" by (simp add: SIZEOF_FS_NODE_def)
  have free: "child_count dd < MAX_FILES_PER_DIR" using yes(1) t(1) by (simp add: dir_full_def)
  have none: "dir_map s2 t (label s2 q) = None" unfolding lab using m' yes(2) by simp
  obtain s3 where s3: "fs_add_child (Some t) (Some q) s2 = Some (0, s3)"
    "dir_updated s2 t ((dir_map s2 t)(label s2 q \<mapsto> q)) s3"
    by (rule fs_add_child_added [OF ok2 t2 t(2,3) e(1,3) lt free none])
  note u = s3(2) [unfolded dir_updated_def only_nodes_def]
  have wf2: "wf_fs s2"
    by (rule wf_fs_step [OF wf ok2]) (use wf m' in \<open>auto simp: wf_fs_def intro: attached_extends\<close>)
  have "dir_map s3 = (dir_map s)(t := (dir_map s t)(nm \<mapsto> q))"
    using u m' lab by (auto simp: fun_eq_iff)
  moreover have "map_option node_type (node_at s3 q) = Some FILE_TYPE_REGULAR"
    using u e by (auto elim!: fs_extendsD [of s2 s3 q])
  moreover have "texts_ok s3 = texts_ok s2"
    by (rule texts_ok_cong [OF dir_updated_file_block [OF s3(2)]]) (use u in blast)
  ultimately have "copied s p t nm q s3"
    using u m' dir_updated_wf [OF s3(2) wf2] dir_updated_file_block [OF s3(2)] fs_extends_trans
    unfolding copied_def by auto
  then show ?thesis using s3(1) that by blast
qed

text \<open>The body of \<open>fs_copy_file\<close> once the source and the destination directory are known.\<close>

lemma copy_body_eq:
  assumes paths: "terminated src" "terminated dst" "copy_fits dst"
    and wf: "wf_fs s" and src: "copy_source s src dst p t"
    and nm: "fs_get_filename dst (replicate MAX_FILENAME_LENGTH NUL) = Some nm"
    and c: "fs_create_file nm FILE_TYPE_REGULAR s = Some (Some q, s1)"
    and data: "do { d \<leftarrow> node_at s1 p; case node_data d of None \<Rightarrow> Some s1
       | Some b \<Rightarrow> if node_size d > 0 then do {
             blk \<leftarrow> block_at s1 b; (r, s2) \<leftarrow> fs_write_file (Some q) blk (node_size d) s1; Some s2 }
           else Some s1 } = Some s2"
  shows "fs_copy_file src dst s = do { (r, s3) \<leftarrow> fs_add_child (Some t) (Some q) s2;
     if r \<noteq> 0 then do { (r', s4) \<leftarrow> fs_delete_node (Some q) s3; Some (-1, s4) } else Some (0, s3) }"
proof -
  obtain dirp where dirp: "fs_get_parent_path dst (replicate MAX_PATH_LENGTH NUL) = Some dirp"
    "terminated dirp" "cstr dirp = parent_string (cstr dst)"
    using copy_paths [OF paths(2,3)] by metis
  obtain d dd where d: "node_at s p = Some d" "node_type d = FILE_TYPE_REGULAR"
    and dd: "node_at s t = Some dd" "node_type dd = FILE_TYPE_DIRECTORY"
    using src by (auto simp: copy_source_def)
  have r1: "fs_resolve_path (Some src) s = Some (Some p)"
    using fs_resolve_path_eq [OF wf paths(1)] src by (simp add: copy_source_def)
  have r2: "fs_resolve_path (Some dirp) s = Some (Some t)"
    using fs_resolve_path_eq [OF wf dirp(2)] src dirp(3) by (simp add: copy_source_def)
  obtain d1 where d1: "node_at s1 p = Some d1" using data by (cases "node_at s1 p") auto
  note data' = data [unfolded d1 bind.bind_lunit]
  show ?thesis
    unfolding fs_copy_file_def
    by (simp add: r1 r2 d dd nm c dirp(1) d1 data' cong: option.case_cong)
qed

lemma fs_copy_file_refused:
  assumes paths: "terminated src" "terminated dst" "copy_fits dst"
    and wf: "wf_fs s" and no: "\<nexists>p t. copy_source s src dst p t"
  shows "fs_copy_file src dst s = Some (-1, s)"
proof -
  obtain dirp nm where dirp: "fs_get_parent_path dst (replicate MAX_PATH_LENGTH NUL) = Some dirp"
    "terminated dirp" "cstr dirp = parent_string (cstr dst)"
    and nm: "fs_get_filename dst (replicate MAX_FILENAME_LENGTH NUL) = Some nm"
    using copy_paths [OF paths(2,3)] by metis
  note r1 = fs_resolve_path_eq [OF wf paths(1)] and r2 = fs_resolve_path_eq [OF wf dirp(2), unfolded dirp(3)]
  have ok: "store_ok s" using wf by (simp add: wf_fs_def)
  have att: "\<exists>d. node_at s q = Some d" if "resolve_spec s x = Some q" for x q
    using resolve_spec_attached [OF wf that] by (auto simp: attached_def)
  consider (src) "resolve_spec s (cstr src) = None"
    | (dir) p d where "resolve_spec s (cstr src) = Some p" "node_at s p = Some d" "node_type d = FILE_TYPE_DIRECTORY"
    | (ok) p d where "resolve_spec s (cstr src) = Some p" "node_at s p = Some d" "node_type d = FILE_TYPE_REGULAR"
  proof (cases "resolve_spec s (cstr src)")
    case (Some p)
    then obtain d where "node_at s p = Some d" using att by blast
    with Some that(2,3) show ?thesis by (cases "node_type d") auto
  qed (rule that(1))
  then show ?thesis
  proof cases
    case ok1: ok
    consider (dst) "resolve_spec s (parent_string (cstr dst)) = None"
      | (reg) t e where "resolve_spec s (parent_string (cstr dst)) = Some t" "node_at s t = Some e"
          "node_type e = FILE_TYPE_REGULAR"
      | (full) t e where "resolve_spec s (parent_string (cstr dst)) = Some t" "node_at s t = Some e"
          "node_type e = FILE_TYPE_DIRECTORY" "\<not> can_create s"
    proof (cases "resolve_spec s (parent_string (cstr dst))")
      case (Some t)
      then obtain e where e: "node_at s t = Some e" using att by blast
      with Some no ok1 that(2,3) show ?thesis
        by (cases "node_type e") (auto simp: copy_source_def)
    qed (rule that(1))
    then show ?thesis
    proof cases
      case full
      then show ?thesis using ok1 r1 r2 dirp nm fs_create_file_full [OF full(4) ok]
        by (simp add: fs_copy_file_def)
    qed (use ok1 r1 r2 dirp nm in \<open>simp_all add: fs_copy_file_def\<close>)
  qed (use r1 in \<open>auto simp: fs_copy_file_def\<close>)
qed

lemma fs_copy_file_cases:
  assumes paths: "terminated src" "terminated dst" "copy_fits dst"
    and wf: "wf_fs s"
  obtains
    (failed) s' where "\<nexists>p t. copy_ready s src dst p t" "fs_copy_file src dst s = Some (-1, s')" "tree_kept s s'"
  | (copied) p t q s' where "copy_ready s src dst p t" "fs_copy_file src dst s = Some (0, s')"
      "copied s p t (copy_name dst) q s'"
proof (cases "\<exists>p t. copy_source s src dst p t")
  case False
  then show ?thesis
    using failed fs_copy_file_refused [OF paths wf False] tree_kept_refl [OF wf]
    by (auto simp: copy_ready_def)
next
  case True
  then obtain p t where src: "copy_source s src dst p t" by blast
  obtain nm where nm: "fs_get_filename dst (replicate MAX_FILENAME_LENGTH NUL) = Some nm"
    "terminated nm" "cstr nm = filename_string (cstr dst)"
    using copy_paths [OF paths(2,3)] by metis
  have ok: "store_ok s" and can: "can_create s" using wf src by (simp_all add: wf_fs_def copy_source_def)
  obtain q e s1 where c: "fs_create_file nm FILE_TYPE_REGULAR s = Some (Some q, s1)"
    "created s nm FILE_TYPE_REGULAR q e s1"
    by (rule fs_create_file_created [OF ok nm(2) can])
  obtain d dd where d: "node_at s p = Some d" and dd: "node_at s t = Some dd" "node_type dd = FILE_TYPE_DIRECTORY"
    using src by (auto simp: copy_source_def)
  have par: "node_parent dd \<noteq> None"
    using resolve_spec_attached [OF wf] src dd by (fastforce simp: copy_source_def attached_def)
  have name: "take (MAX_FILENAME_LENGTH - 2) (cstr nm) = copy_name dst" by (simp add: copy_name_def nm(3))
  obtain s2 where data: "do { d \<leftarrow> node_at s1 p; case node_data d of None \<Rightarrow> Some s1
       | Some b \<Rightarrow> if node_size d > 0 then do {
             blk \<leftarrow> block_at s1 b; (r, s2) \<leftarrow> fs_write_file (Some q) blk (node_size d) s1; Some s2 }
           else Some s1 } = Some s2" and made: "copy_made s p (copy_name dst) q s2"
    using copy_made_ok [OF ok d c(2)] unfolding yields_iff name by blast
  note body = copy_body_eq [OF paths wf src nm(1) c(1) data]
  have uniq: "p' = p \<and> t' = t" if "copy_ready s src dst p' t'" for p' t'
    using that src by (auto simp: copy_ready_def copy_source_def)
  show ?thesis
  proof (cases "dir_full s t \<or> dir_map s t (copy_name dst) \<noteq> None")
    case True
    note bad = copy_made_refused [OF made wf dd par True]
    then obtain s4 where "fs_copy_file src dst s = Some (-1, s4)" "tree_kept s s4"
      unfolding body by auto
    moreover have "\<nexists>p t. copy_ready s src dst p t"
      using True uniq by (metis copy_ready_def)
    ultimately show ?thesis by (intro failed)
  next
    case False
    then obtain s3 where "fs_add_child (Some t) (Some q) s2 = Some (0, s3)"
      "copied s p t (copy_name dst) q s3"
      using copy_made_added [OF made wf dd par] by blast
    then show ?thesis using copied [of p t s3 q] src False unfolding body copy_ready_def by simp
  qed
qed

text \<open>A destination that does not fit the two path buffers matters only behind a source that exists.\<close>

definition copies :: "fs_state \<Rightarrow> char list \<Rightarrow> bool" where
  "copies s src \<longleftrightarrow> (\<exists>p. resolve_spec s (cstr src) = Some p \<and> map_option node_type (node_at s p) = Some FILE_TYPE_REGULAR)"

lemma fs_copy_file_overrun:
  assumes "terminated src" "terminated dst" "\<not> copy_fits dst" and wf: "wf_fs s"
  shows "fs_copy_file src dst s = (if copies s src then None else Some (-1, s))"
proof -
  note r = fs_resolve_path_eq [OF wf assms(1)]
  show ?thesis
  proof (cases "resolve_spec s (cstr src)")
    case None
    then show ?thesis using r by (simp add: fs_copy_file_def copies_def)
  next
    case (Some p)
    then obtain d where "node_at s p = Some d" using resolve_spec_attached [OF wf] by (auto simp: attached_def)
    then show ?thesis using r Some copy_paths_overrun [OF assms(2,3)]
      by (cases "fs_get_parent_path dst (replicate MAX_PATH_LENGTH NUL)") (auto simp: fs_copy_file_def copies_def)
  qed
qed

section \<open>Moving\<close>

text \<open>A regular file that a path leads to is listed in its parent under its own name.\<close>

lemma walk_listed:
  assumes ok: "store_ok s"
  shows "walk s r xs = Some q \<Longrightarrow> attached s r \<Longrightarrow>
    attached_dir s (Some r) \<or> dir_map s (parent_of s r) (label s r) = Some r \<Longrightarrow>
    attached_dir s (Some q) \<or> dir_map s (parent_of s q) (label s q) = Some q"
proof (induction xs arbitrary: r)
  case (Cons x xs)
  show ?case
  proof (cases "x = ''.'' \<or> x = ''..''")
    case True
    then show ?thesis using Cons attached_parent [OF ok Cons.prems(2)] by (cases "x = ''.''") auto
  next
    case False
    then obtain k where k: "dir_map s r x = Some k" "walk s k xs = Some q"
      using Cons.prems(1) by (auto split: option.splits)
    obtain e where "node_at s k = Some e" "node_parent e = Some r" "label s k = x"
      by (rule dir_map_present [OF ok k(1)])
    then have "dir_map s (parent_of s k) (label s k) = Some k" using k(1) by (simp add: parent_of_def)
    then show ?thesis using Cons.IH [OF k(2) attached_child [OF ok k(1)]] by blast
  qed
qed auto

lemma resolve_regular_listed:
  assumes wf: "wf_fs s" and p: "resolve_spec s x = Some p"
    and reg: "map_option node_type (node_at s p) = Some FILE_TYPE_REGULAR"
  shows "dir_map s (parent_of s p) (label s p) = Some p"
proof -
  have ok: "store_ok s" using wf by (simp add: wf_fs_def)
  obtain r c where rc: "fs_root s = Some r" "attached s r" "fs_current_dir s = Some c" "attached s c"
    "attached_dir s (Some r)" "attached_dir s (Some c)" by (rule wf_fsE [OF wf])
  have "\<not> attached_dir s (Some p)" using reg by (auto simp: attached_dir_def)
  then show ?thesis
    using p rc walk_listed [OF ok _ rc(2)] walk_listed [OF ok _ rc(4)]
    unfolding resolve_spec_def by (auto split: list.splits if_splits)
qed

lemma resolve_spec_grown:
  assumes wf: "wf_fs s" and ext: "fs_extends s s'" "fs_root s' = fs_root s" "fs_current_dir s' = fs_current_dir s"
    and grown: "\<And>d x k. dir_map s d x = Some k \<Longrightarrow> dir_map s' d x = Some k"
    and p: "resolve_spec s x = Some p"
  shows "resolve_spec s' x = Some p"
proof -
  have ok: "store_ok s" using wf by (simp add: wf_fs_def)
  obtain r c where rc: "fs_root s = Some r" "attached s r" "fs_current_dir s = Some c" "attached s c"
    by (rule wf_fsE [OF wf])
  note walk_grown [OF ok ext(1) grown rc(2)] walk_grown [OF ok ext(1) grown rc(4)]
  then show ?thesis using p rc ext(2,3) unfolding resolve_spec_def by (auto split: list.splits if_splits)
qed

text \<open>A move is a copy and the removal of the source's entry.\<close>

definition moved :: "fs_state \<Rightarrow> ptr \<Rightarrow> ptr \<Rightarrow> string \<Rightarrow> ptr \<Rightarrow> fs_state \<Rightarrow> bool" where
  "moved s p t nm q s' \<longleftrightarrow> wf_fs s' \<and> fs_extends s s' \<and> node_at s q = None \<and>
     (\<forall>d x. dir_map s' d x = (if d = t \<and> x = nm then Some q
        else if d = parent_of s p \<and> x = label s p then None else dir_map s d x)) \<and>
     file_block s' q = (if unat (memory_offset s) + SIZEOF_FS_NODE + MAX_FILE_SIZE < 65536
       then Some (source_bytes s p @ replicate (MAX_FILE_SIZE - length (source_bytes s p)) NUL) else None) \<and>
     (\<forall>k. node_at s k \<noteq> None \<longrightarrow> label s' k = label s k \<and> file_block s' k = file_block s k) \<and>
     fs_root s' = fs_root s \<and> fs_current_dir s' = fs_current_dir s \<and>
     current_path s' = current_path s \<and> total_files s' = total_files s \<and>
     (texts_ok s \<longrightarrow> texts_ok s')"

lemma fs_move_file_cases:
  assumes paths: "terminated src" "terminated dst" "copy_fits dst"
    and wf: "wf_fs s"
  obtains
    (failed) s' where "\<nexists>p t. copy_ready s src dst p t" "fs_move_file src dst s = Some (-1, s')" "tree_kept s s'"
  | (moved) p t q s' where "copy_ready s src dst p t" "fs_move_file src dst s = Some (0, s')"
      "moved s p t (copy_name dst) q s'"
proof (cases rule: fs_copy_file_cases [OF paths wf])
  case (1 s')
  then show ?thesis by (intro failed) (simp_all add: fs_move_file_def)
next
  case (2 p t q s1)
  note c = 2(3) [unfolded copied_def]
  have src: "resolve_spec s (cstr src) = Some p" and none: "dir_map s t (copy_name dst) = None"
    and reg: "map_option node_type (node_at s p) = Some FILE_TYPE_REGULAR"
    using 2(1) by (simp_all add: copy_ready_def copy_source_def)
  have "resolve_spec s1 (cstr src) = Some p"
    by (rule resolve_spec_grown [OF wf _ _ _ _ src]) (use c none in \<open>auto split: if_splits\<close>)
  then have r: "fs_resolve_path (Some src) s1 = Some (Some p)"
    using fs_resolve_path_eq [of s1 src] c paths(1) by simp
  obtain d where d: "node_at s p = Some d" "node_type d = FILE_TYPE_REGULAR" using reg by auto
  obtain d1 where d1: "node_at s1 p = Some d1" "node_type d1 = FILE_TYPE_REGULAR"
    "node_parent d \<noteq> None \<Longrightarrow> node_parent d1 = node_parent d"
    using fs_extendsD [of s s1 p d] c d by metis
  have par: "node_parent d = Some (parent_of s p)"
    using resolve_spec_attached [OF wf src] d by (auto simp: attached_def parent_of_def)
  have ok1: "store_ok s1" using c by (simp add: wf_fs_def)
  have "fs_root s \<noteq> Some p" using wf d by (auto simp: wf_fs_def attached_dir_def)
  then have del: "deletable s1 p" using d1 c by (simp add: deletable_def)
  obtain s2 where s2: "fs_delete_node (Some p) s1 = Some (0, s2)" "unlinked s1 p s2"
    by (rule fs_delete_node_ok [OF ok1 del])
  note u = s2(2) [unfolded unlinked_def]
  have lp: "label s1 p = label s p" using c d by simp
  have par1: "map_option node_parent (node_at s1 p) = Some (Some (parent_of s p))"
    using d1 par by simp
  have listed: "dir_map s (parent_of s p) (label s p) = Some p"
    by (rule resolve_regular_listed [OF wf src reg])
  have maps: "dir_map s2 e x = (if e = t \<and> x = copy_name dst then Some q
        else if e = parent_of s p \<and> x = label s p then None else dir_map s e x)" for e x
    using u c none listed unfolding par1 lp by auto
  have "texts_ok s2 = texts_ok s1"
    by (rule texts_ok_cong) (use u in auto)
  then have "moved s p t (copy_name dst) q s2"
    using maps u c unlinked_wf [OF s2(2)] fs_extends_trans [of s s1 s2]
    unfolding moved_def by (simp add: unlinked_def)
  moreover have "fs_move_file src dst s = Some (0, s2)"
    using 2(2) r s2(1) by (simp add: fs_move_file_def)
  ultimately show ?thesis using 2(1) by (intro moved)
qed

lemma fs_move_file_overrun:
  assumes "terminated src" "terminated dst" "\<not> copy_fits dst" and "wf_fs s"
  shows "fs_move_file src dst s = (if copies s src then None else Some (-1, s))"
  using fs_copy_file_overrun [OF assms] by (simp add: fs_move_file_def)

end
