(* ===== verification/File_System.thy ===== *)
theory File_System
  imports Fs_File
begin

text \<open>
  The file system as a whole: the calls its clients make as a step relation, the states they
  reach from \<open>fs_init\<close>, a worked example, and the theorems about \<open>filesystem.c\<close>.
\<close>

section \<open>Calls and reachable states\<close>

text \<open>One call of the interface of \<open>filesystem.h\<close>, with what its clients guarantee: path and
  name arguments are terminated strings, a pointer argument is a node of the file system, a node
  to be entered into a directory is fresh, and a buffer to be written is as long as announced.\<close>

inductive fs_call :: "fs_state \<Rightarrow> fs_state \<Rightarrow> bool" where
  fs_call_create: "terminated nm \<Longrightarrow> fs_create_file nm ty s = Some (f, s') \<Longrightarrow> fs_call s s'"
| fs_call_add: "attached_dir s (Some p) \<Longrightarrow> enterable s p c \<Longrightarrow>
    fs_add_child (Some p) (Some c) s = Some (r, s') \<Longrightarrow> fs_call s s'"
| fs_call_remove: "attached_dir s (Some p) \<Longrightarrow> terminated nm \<Longrightarrow>
    fs_remove_child (Some p) nm s = Some (r, s') \<Longrightarrow> fs_call s s'"
| fs_call_write: "node_at s p = Some d \<Longrightarrow> n \<le> length data \<Longrightarrow>
    fs_write_file (Some p) data n s = Some (r, s') \<Longrightarrow> fs_call s s'"
| fs_call_delete: "node_at s p = Some d \<Longrightarrow> fs_delete_node (Some p) s = Some (r, s') \<Longrightarrow> fs_call s s'"
| fs_call_copy: "terminated src \<Longrightarrow> terminated dst \<Longrightarrow>
    fs_copy_file src dst s = Some (r, s') \<Longrightarrow> fs_call s s'"
| fs_call_move: "terminated src \<Longrightarrow> terminated dst \<Longrightarrow>
    fs_move_file src dst s = Some (r, s') \<Longrightarrow> fs_call s s'"
| fs_call_chdir: "terminated path \<Longrightarrow> fs_change_directory (Some path) s = Some (r, s') \<Longrightarrow> fs_call s s'"

inductive fs_reachable :: "fs_state \<Rightarrow> bool" where
  fs_reachable_init: "fs_init fs_boot = Some (msg, s) \<Longrightarrow> fs_reachable s"
| fs_reachable_call: "fs_reachable s \<Longrightarrow> fs_call s s' \<Longrightarrow> fs_reachable s'"

lemma fs_create_file_wf:
  assumes wf: "wf_fs s" and nm: "terminated nm"
  shows "yields (fs_create_file nm ty s) (\<lambda>(f, s'). wf_fs s')"
proof (cases "can_create s")
  case False
  then show ?thesis using wf fs_create_file_full [OF False] by (simp add: wf_fs_def)
next
  case True
  have "store_ok s" using wf by (simp add: wf_fs_def)
  then obtain p d s' where "fs_create_file nm ty s = Some (Some p, s')" "created s nm ty p d s'"
    by (rule fs_create_file_created [OF _ nm True])
  then show ?thesis using created_wf [OF _ wf] by simp
qed

lemma fs_add_child_ext:
  assumes wf: "wf_fs s" and p: "attached_dir s (Some p)" and c: "enterable s p c"
  shows "yields (fs_add_child (Some p) (Some c) s) (\<lambda>(r, s'). wf_fs s' \<and> fs_extends s s')"
proof -
  have ok: "store_ok s" using wf by (simp add: wf_fs_def)
  obtain d where d: "node_at s p = Some d" "node_type d = FILE_TYPE_DIRECTORY" "node_parent d \<noteq> None"
    using p by (auto simp: attached_dir_def)
  obtain e where e: "node_at s c = Some e" "node_parent e = None" "p < c"
    using c by (auto simp: enterable_def split: option.splits)
  have "child_count d \<le> MAX_FILES_PER_DIR" by (rule node_shapeD(3) [OF store_ok_shape [OF ok d(1)]])
  then consider "child_count d = MAX_FILES_PER_DIR \<or> dir_map s p (label s c) \<noteq> None"
    | "child_count d < MAX_FILES_PER_DIR" "dir_map s p (label s c) = None" by linarith
  then show ?thesis
  proof cases
    case 1
    then show ?thesis using fs_add_child_refused [OF ok d(1,2) e(1)] wf by simp
  next
    case 2
    then obtain s' where s': "fs_add_child (Some p) (Some c) s = Some (0, s')"
      "dir_updated s p ((dir_map s p)(label s c \<mapsto> c)) s'"
      by (rule fs_add_child_added [OF ok d e])
    then show ?thesis using dir_updated_wf [OF s'(2) wf] by (simp add: dir_updated_def)
  qed
qed

lemma fs_add_child_wf:
  assumes "wf_fs s" and "attached_dir s (Some p)" and "enterable s p c"
  shows "yields (fs_add_child (Some p) (Some c) s) (\<lambda>(r, s'). wf_fs s')"
  using fs_add_child_ext [OF assms] by (rule yields_mono) auto

lemma fs_remove_child_wf:
  assumes wf: "wf_fs s" and p: "attached_dir s (Some p)" and nm: "terminated nm"
  shows "yields (fs_remove_child (Some p) nm s) (\<lambda>(r, s'). wf_fs s')"
proof -
  have ok: "store_ok s" using wf by (simp add: wf_fs_def)
  obtain d where d: "node_at s p = Some d" "node_type d = FILE_TYPE_DIRECTORY"
    using p by (auto simp: attached_dir_def)
  show ?thesis
  proof (cases "dir_map s p (cstr nm)")
    case None
    then show ?thesis using fs_remove_child_absent [OF ok d nm None] wf by simp
  next
    case (Some k)
    then show ?thesis using fs_remove_child_removed [OF ok d nm Some] dir_updated_wf [OF _ wf]
      by (metis (mono_tags, lifting) case_prod_conv yields_Some)
  qed
qed

lemma same_tree_wf: "same_tree s s' \<Longrightarrow> store_ok s' \<Longrightarrow> wf_fs s \<Longrightarrow> wf_fs s'"
  by (rule wf_fs_step [of s]) (auto simp: same_tree_def wf_fs_def intro: attached_extends)

lemma fs_write_file_wf:
  assumes wf: "wf_fs s" and p: "node_at s p = Some d" and n: "n \<le> length data"
  shows "yields (fs_write_file (Some p) data n s) (\<lambda>(r, s'). wf_fs s')"
proof (cases "node_type d = FILE_TYPE_DIRECTORY \<or> node_data d = None")
  case True
  then show ?thesis using fs_write_file_refused [OF p True] wf by simp
next
  case False
  have ok: "store_ok s" using wf by (simp add: wf_fs_def)
  from False obtain b where b: "node_data d = Some b" by auto
  obtain blk where blk: "block_at s b = Some blk" by (rule data_block [OF ok p b])
  have "min n MAX_FILE_SIZE \<le> length data" using n by simp
  from fs_write_file_ok [OF ok p b blk refl this] show ?thesis
    using same_tree_wf [OF _ _ wf] by (metis (mono_tags, lifting) case_prod_conv yields_Some)
qed

lemma fs_delete_node_wf:
  assumes wf: "wf_fs s" and p: "node_at s p = Some d"
  shows "yields (fs_delete_node (Some p) s) (\<lambda>(r, s'). wf_fs s')"
proof (cases "deletable s p")
  case False
  then show ?thesis using fs_delete_node_refused [OF p False] wf by simp
next
  case True
  have ok: "store_ok s" using wf by (simp add: wf_fs_def)
  show ?thesis using fs_delete_node_ok [OF ok True] unlinked_wf [OF _ wf]
    by (metis (mono_tags, lifting) case_prod_conv yields_Some)
qed

lemma fs_copy_file_wf:
  assumes "wf_fs s" "terminated src" "terminated dst"
  shows "if copies s src \<and> \<not> copy_fits dst then fs_copy_file src dst s = None
    else yields (fs_copy_file src dst s) (\<lambda>(r, s'). wf_fs s')"
proof (cases "copy_fits dst")
  case True
  then show ?thesis
    by (cases rule: fs_copy_file_cases [OF assms(2,3) True assms(1)]) (simp_all add: tree_kept_def copied_def)
next
  case False
  then show ?thesis using fs_copy_file_overrun [OF assms(2,3) False assms(1)] assms(1) by simp
qed

lemma fs_move_file_wf:
  assumes "wf_fs s" "terminated src" "terminated dst"
  shows "if copies s src \<and> \<not> copy_fits dst then fs_move_file src dst s = None
    else yields (fs_move_file src dst s) (\<lambda>(r, s'). wf_fs s')"
proof (cases "copy_fits dst")
  case True
  then show ?thesis
    by (cases rule: fs_move_file_cases [OF assms(2,3) True assms(1)]) (simp_all add: tree_kept_def moved_def)
next
  case False
  then show ?thesis using fs_move_file_overrun [OF assms(2,3) False assms(1)] assms(1) by simp
qed

lemma fs_change_directory_wf:
  assumes "wf_fs s" "terminated path" "fs_change_directory (Some path) s = Some (r, s')"
  shows "wf_fs s'"
  using assms(1,3) moved_wf [OF assms(1)] by (cases rule: fs_change_directory_cases [OF assms(1,2)]) auto

lemmas fs_wf_intros = fs_create_file_wf fs_add_child_wf fs_remove_child_wf fs_write_file_wf
  fs_delete_node_wf

lemma yields_state: "m = Some (r, s') \<Longrightarrow> yields m (\<lambda>(r, s'). P s') \<Longrightarrow> P s'"
  by simp

lemma fs_call_wf: "fs_call s s' \<Longrightarrow> wf_fs s \<Longrightarrow> wf_fs s'"
proof (induction rule: fs_call.induct)
  case (fs_call_create nm ty s f s')
  then show ?case by (blast intro: yields_state fs_create_file_wf)
next
  case (fs_call_add s p c r s')
  then show ?case by (blast intro: yields_state fs_add_child_wf)
next
  case (fs_call_remove s p nm r s')
  then show ?case by (blast intro: yields_state fs_remove_child_wf)
next
  case (fs_call_write s p d n data r s')
  then show ?case by (blast intro: yields_state fs_write_file_wf)
next
  case (fs_call_delete s p d r s')
  then show ?case by (blast intro: yields_state fs_delete_node_wf)
next
  case (fs_call_copy src dst s r s')
  then show ?case using fs_copy_file_wf [of s src dst] by (auto split: if_splits)
next
  case (fs_call_move src dst s r s')
  then show ?case using fs_move_file_wf [of s src dst] by (auto split: if_splits)
next
  case (fs_call_chdir path s r s')
  then show ?case by (blast intro: fs_change_directory_wf)
qed

lemma fs_reachable_inv: "fs_reachable s \<Longrightarrow> wf_fs s"
proof (induction rule: fs_reachable.induct)
  case (fs_reachable_init msg s)
  then show ?case using fs_init_boot by (metis option.inject prod.inject)
qed (rule fs_call_wf)

section \<open>A worked example\<close>

text \<open>Boot, create a file \<open>notes\<close> in the root directory and write \<open>hello\<close> to it.\<close>

definition demo_fs :: fs_state where
  "demo_fs = snd (the (do {
     (msg, s) \<leftarrow> fs_init fs_boot;
     (f, s) \<leftarrow> fs_create_file (lit ''notes'') FILE_TYPE_REGULAR s;
     (r, s) \<leftarrow> fs_add_child (fs_root s) f s;
     fs_write_file f (lit ''hello'') 5 s }))"

lemma demo_fs:
  shows demo_reachable: "fs_reachable demo_fs"
    and demo_root: "fs_root demo_fs = Some 0" "fs_current_dir demo_fs = Some 0"
    and demo_map: "dir_map demo_fs 0 = [''notes'' \<mapsto> 224]"
    and demo_block: "file_block demo_fs 224 = Some (''hello'' @ replicate 4091 NUL)"
    and demo_label: "label demo_fs 0 = ''/''" "label demo_fs 224 = ''notes''"
    and demo_counts: "total_files demo_fs = 2" "memory_offset demo_fs = 4544"
    and demo_path: "cstr (current_path demo_fs) = ''/''"
    and demo_dir: "\<exists>d. node_at demo_fs 0 = Some d \<and> node_type d = FILE_TYPE_DIRECTORY \<and>
      node_parent d = Some 0 \<and> child_count d = 1"
    and demo_file: "\<exists>d. node_at demo_fs 224 = Some d \<and> node_type d = FILE_TYPE_REGULAR \<and>
      node_parent d = Some 0 \<and> node_data d = Some 448 \<and> node_size d = 5"
proof -
  obtain s d where i: "fs_init fs_boot = Some (lit (''File system initialized'' @ [NL]), s)"
    "wf_fs s" "fs_root s = Some 0" "fs_current_dir s = Some 0" "node_at s = [0 \<mapsto> d]" "kids d = []"
    "node_type d = FILE_TYPE_DIRECTORY" "cstr (node_name d) = ''/''" "cstr (current_path s) = ''/''"
    "total_files s = 1" "memory_offset s = 224" "block_at s = Map.empty"
    by (rule fs_init_boot)
  have ok: "store_ok s" using i(2) by (simp add: wf_fs_def)
  have par: "node_parent d = Some 0" using i(2,3,5) by (simp add: wf_fs_def)
  have can: "can_create s" by (simp add: can_create_def i fs_consts)
  obtain f e s1 where c: "fs_create_file (lit ''notes'') FILE_TYPE_REGULAR s = Some (Some f, s1)"
    "created s (lit ''notes'') FILE_TYPE_REGULAR f e s1"
    by (rule fs_create_file_created [OF ok terminated_lit can])
  have f: "f = 224" using c(2) i by (simp add: created_def)
  note c' = c(2) [unfolded created_def f]
  have mo1: "memory_offset s1 = 4544"
  proof -
    have "unat (memory_offset s1) = unat (4544 :: 32 word)" using c' by (simp add: fs_consts)
    then show ?thesis by (simp only: unsigned_word_eqI)
  qed
  have e: "node_at s1 224 = Some e" "node_parent e = None" "node_data e = Some 448" "node_size e = 0"
    "node_type e = FILE_TYPE_REGULAR" "cstr (node_name e) = ''notes''"
    using c' by (simp_all add: fs_consts cstr_lit)
  have d1: "node_at s1 0 = Some d" using c' i by simp
  have ok1: "store_ok s1" using c' by simp
  have lab1: "label s1 224 = ''notes''" using e by (simp add: label_def)
  have map1: "dir_map s1 0 = Map.empty" using d1 i(6) by (simp add: dir_map_def)
  have cnt: "child_count d = 0" using length_kids [OF store_ok_shape [OF ok1 d1]] i(6) by simp
  obtain s2 where s2: "fs_add_child (Some 0) (Some 224) s1 = Some (0, s2)"
    "dir_updated s1 0 ((dir_map s1 0)(label s1 224 \<mapsto> 224)) s2"
    "\<And>q f. node_at s1 q = Some f \<Longrightarrow> \<exists>f'. node_at s2 q = Some f' \<and>
          node_parent f' = (if q = 224 then Some 0 else node_parent f)"
    by (rule fs_add_child_added [OF ok1 d1 i(7) _ e(1,2)])
       (use par cnt map1 in \<open>auto simp: fs_consts\<close>)
  note u2 = s2(2) [unfolded dir_updated_def only_nodes_def]
  obtain e2 where e2: "node_at s2 224 = Some e2" "node_data e2 = Some 448" "node_type e2 = FILE_TYPE_REGULAR"
    "node_parent e2 = Some 0"
    using s2(3) [OF e(1)] u2 e by (auto elim!: fs_extendsD [of s1 s2 224])
  have blk2: "block_at s2 448 = Some (replicate 4096 NUL)" using u2 c' e(3) by (simp add: MAX_FILE_SIZE_def)
  have ok2: "store_ok s2" using u2 by blast
  obtain s3 where w: "fs_write_file (Some 224) (lit ''hello'') 5 s2 = Some (5, s3)" "store_ok s3"
    "same_tree s2 s3" "file_block s3 = (file_block s2)(224 \<mapsto> take 5 (lit ''hello'') @ drop 5 (replicate 4096 NUL))"
    "\<exists>t. node_at s3 = (node_at s2)(224 \<mapsto> e2\<lparr>node_size := 5, modification_time := t\<rparr>)"
    "memory_offset s3 = memory_offset s2"
    by (rule fs_write_file_ok [OF ok2 e2(1,2) blk2, of 5 5 "lit ''hello''", simplified of_nat_numeral])
       (simp_all add: MAX_FILE_SIZE_def)
  have root1: "fs_root s1 = Some 0" using c' i by simp
  have demo: "demo_fs = s3"
    using i(1) c(1) s2(1) w(1) root1 f by (simp add: demo_fs_def)
  note st = w(3) [unfolded same_tree_def]
  have c1_roots: "fs_root s1 = fs_root s" "fs_current_dir s1 = fs_current_dir s"
    "current_path s1 = current_path s" "total_files s1 = total_files s + 1"
    using c(2) unfolding created_def by blast+
  have u2_roots: "fs_root s2 = fs_root s1" "fs_current_dir s2 = fs_current_dir s1"
    "current_path s2 = current_path s1" "total_files s2 = total_files s1" "memory_offset s2 = memory_offset s1"
    using u2 by blast+
  have st_roots: "fs_root s3 = fs_root s2" "fs_current_dir s3 = fs_current_dir s2"
    "current_path s3 = current_path s2" "total_files s3 = total_files s2"
    using st by blast+
  have "fs_reachable s" by (rule fs_reachable_init [OF i(1)])
  then have "fs_reachable s1" by (rule fs_reachable_call [OF _ fs_call_create [OF terminated_lit c(1)]])
  then have "fs_reachable s2"
  proof (rule fs_reachable_call [OF _ fs_call_add [OF _ _ s2(1)]])
    show "attached_dir s1 (Some 0)" using d1 i(7) par by (simp add: attached_dir_def)
    show "enterable s1 0 224" using e by (simp add: enterable_def)
  qed
  then show "fs_reachable demo_fs"
    unfolding demo by (rule fs_reachable_call [OF _ fs_call_write [OF e2(1) _ w(1)]]) simp
  show "fs_root demo_fs = Some 0" "fs_current_dir demo_fs = Some 0" "total_files demo_fs = 2"
    "memory_offset demo_fs = 4544" "cstr (current_path demo_fs) = ''/''"
    using st_roots u2_roots c1_roots i(3,4,9,10) mo1 w(6) unfolding demo by simp_all
  have lab: "label demo_fs = label s1" using st u2 unfolding demo by simp
  show "label demo_fs 0 = ''/''" "label demo_fs 224 = ''notes''"
    using d1 i(8) lab1 unfolding lab by (simp_all add: label_def)
  show "dir_map demo_fs 0 = [''notes'' \<mapsto> 224]"
    using st u2 map1 lab1 unfolding demo by simp
  show "file_block demo_fs 224 = Some (''hello'' @ replicate 4091 NUL)"
    using w(4) unfolding demo by (simp add: lit_def)
  obtain t where t: "node_at s3 = (node_at s2)(224 \<mapsto> e2\<lparr>node_size := 5, modification_time := t\<rparr>)"
    using w(5) by blast
  then show "\<exists>d. node_at demo_fs 224 = Some d \<and> node_type d = FILE_TYPE_REGULAR \<and>
      node_parent d = Some 0 \<and> node_data d = Some 448 \<and> node_size d = 5"
    using e2 unfolding demo by simp
  obtain d2 where d2: "node_at s2 0 = Some d2" "node_parent d2 = Some 0" "node_type d2 = FILE_TYPE_DIRECTORY"
    using s2(3) [OF d1] u2 d1 i(7) par by (auto elim!: fs_extendsD [of s1 s2 0])
  have "child_count d2 = 1"
  proof -
    have "dir_map s2 0 = [''notes'' \<mapsto> 224]" using u2 map1 lab1 by simp
    then show ?thesis using card_dir_map [OF ok2 d2(1)] by simp
  qed
  then show "\<exists>d. node_at demo_fs 0 = Some d \<and> node_type d = FILE_TYPE_DIRECTORY \<and>
      node_parent d = Some 0 \<and> child_count d = 1"
    using d2 t unfolding demo by simp
qed

lemma demo_wf: "wf_fs demo_fs"
  by (rule fs_reachable_inv [OF demo_reachable])

lemma demo_attached: "attached_dir demo_fs (Some 0)"
  using demo_dir by (auto simp: attached_dir_def)

lemma demo_can_create: "can_create demo_fs"
  by (simp add: can_create_def demo_counts fs_consts)

lemma demo_resolve: "resolve_spec demo_fs ''/'' = Some 0" "resolve_spec demo_fs ''/notes'' = Some 224"
  "resolve_spec demo_fs ''notes'' = Some 224" "resolve_spec demo_fs ''lost'' = None"
proof -
  have c: "comps ''notes'' = [''notes'']" "comps ''lost'' = [''lost'']"
    by (simp_all add: comps_single)
  show "resolve_spec demo_fs ''/'' = Some 0" "resolve_spec demo_fs ''/notes'' = Some 224"
    "resolve_spec demo_fs ''notes'' = Some 224" "resolve_spec demo_fs ''lost'' = None"
    using c by (simp_all add: resolve_spec_def demo_root demo_map fs_consts)
qed

text \<open>The same with a directory \<open>docs\<close> in the root.\<close>

definition nested_fs :: fs_state where
  "nested_fs = snd (the (do {
     (f, s) \<leftarrow> fs_create_file (lit ''docs'') FILE_TYPE_DIRECTORY demo_fs;
     fs_add_child (fs_root s) f s }))"

lemma nested_fs:
  obtains q d where "wf_fs nested_fs" and "fs_root nested_fs = Some 0" "fs_current_dir nested_fs = Some 0" and "q \<noteq> 0"
    and "node_at nested_fs q = Some d" "node_type d = FILE_TYPE_DIRECTORY" "node_parent d = Some 0"
    and "label nested_fs q = ''docs''" and "dir_map nested_fs 0 = [''notes'' \<mapsto> 224, ''docs'' \<mapsto> q]"
proof -
  have ok: "store_ok demo_fs" using demo_wf by (simp add: wf_fs_def)
  obtain q e s1 where c: "fs_create_file (lit ''docs'') FILE_TYPE_DIRECTORY demo_fs = Some (Some q, s1)"
    "created demo_fs (lit ''docs'') FILE_TYPE_DIRECTORY q e s1"
    by (rule fs_create_file_created [OF ok terminated_lit demo_can_create])
  note c' = c(2) [unfolded created_def]
  obtain d0 where d0: "node_at demo_fs 0 = Some d0" "node_type d0 = FILE_TYPE_DIRECTORY" "node_parent d0 = Some 0" "child_count d0 = 1"
    using demo_dir by blast
  have q: "q = 4544" using c' by (simp add: demo_counts)
  have e: "node_at s1 q = Some e" "node_parent e = None" "node_type e = FILE_TYPE_DIRECTORY" "cstr (node_name e) = ''docs''"
    using c' by (simp_all add: fs_consts cstr_lit)
  have lab: "label s1 q = ''docs''" using e by (simp add: label_def)
  have d1: "node_at s1 0 = Some d0" using c' d0(1) q by simp
  have ok1: "store_ok s1" using c' by blast
  have wf1: "wf_fs s1" by (rule created_wf [OF c(2) demo_wf])
  have maps: "dir_map s1 = dir_map demo_fs" by (rule created_dir_map [OF ok c(2)])
  have free: "dir_map s1 0 (label s1 q) = None" unfolding maps lab by (simp add: demo_map)
  obtain s2 where s2: "fs_add_child (Some 0) (Some q) s1 = Some (0, s2)"
    "dir_updated s1 0 ((dir_map s1 0)(label s1 q \<mapsto> q)) s2"
    "\<And>k f. node_at s1 k = Some f \<Longrightarrow> \<exists>f'. node_at s2 k = Some f' \<and> node_parent f' = (if k = q then Some 0 else node_parent f)"
    by (rule fs_add_child_added [OF ok1 d1 d0(2) _ e(1,2) _ _ free]) (use d0 q in \<open>auto simp: fs_consts\<close>)
  note u = s2(2) [unfolded dir_updated_def only_nodes_def]
  have demo: "nested_fs = s2" using c(1) s2(1) c' demo_root by (simp add: nested_fs_def)
  obtain d where d: "node_at s2 q = Some d" "node_parent d = Some 0" using s2(3) [OF e(1)] by auto
  have "node_type d = FILE_TYPE_DIRECTORY" using u e(1,3) d(1) by (auto elim!: fs_extendsD [of s1 s2 q])
  moreover have "wf_fs s2" by (rule dir_updated_wf [OF s2(2) wf1])
  moreover have "dir_map s2 0 = [''notes'' \<mapsto> 224, ''docs'' \<mapsto> q]" using u maps lab by (simp add: demo_map)
  moreover have "fs_root s2 = Some 0" "fs_current_dir s2 = Some 0" "label s2 q = ''docs''" using u c' lab demo_root by simp_all
  ultimately show ?thesis using that [of q d] d q unfolding demo by simp
qed

lemma path_string_cong:
  assumes "node_at s' = node_at s" and "fs_root s' = fs_root s"
  shows "path_string s' p = path_string s p"
proof -
  have "label s' = label s" "parent_of s' = parent_of s"
    by (simp_all add: label_def parent_of_def assms(1) fun_eq_iff)
  then have "ancestors s' n q = ancestors s n q" for n q
    by (induction n arbitrary: q) (simp_all add: assms(2))
  then show ?thesis by (simp add: path_string_def)
qed

lemma demo_path_root: "path_string demo_fs 0 = ''/''"
  by (simp add: path_string_def numeral_eq_Suc demo_root)

lemma demo_docs:
  obtains c s where "store_ok s" "attached_dir s (Some 0)" "enterable s 0 c" "\<not> dir_full s 0"
    "dir_map s 0 (label s c) = None" "label s c = ''docs''"
proof -
  have ok: "store_ok demo_fs" using demo_wf by (simp add: wf_fs_def)
  obtain c d s where c: "created demo_fs (lit ''docs'') FILE_TYPE_DIRECTORY c d s"
    by (rule fs_create_file_created [OF ok terminated_lit demo_can_create])
  note c' = c [unfolded created_def]
  have lab: "label s c = ''docs''" using created_dir_map(3) [OF ok c] by (simp add: cstr_lit fs_consts)
  have "c = 4544" using c' by (simp add: demo_counts)
  then have "enterable s 0 c" using c' by (simp add: enterable_def)
  moreover have "dir_map s 0 (label s c) = None"
    using lab created_dir_map(1) [OF ok c] by (simp add: demo_map)
  moreover have "attached_dir s (Some 0)" by (rule attached_extends [OF demo_attached created_extends [OF c]])
  moreover have "\<not> dir_full s 0" using demo_dir c' \<open>c = 4544\<close> by (auto simp: dir_full_def fs_consts)
  ultimately show ?thesis using that c' lab by blast
qed

text \<open>The same file system with the pool nearly used up.\<close>

lemma store_ok_offset:
  assumes "store_ok s" and "memory_offset s \<le> off" and "off < POOL_SIZE"
  shows "store_ok (s\<lparr>memory_offset := off\<rparr>)"
proof -
  let ?s = "s\<lparr>memory_offset := off\<rparr>"
  have le: "unat (memory_offset s) \<le> unat off" using assms(2) by (simp add: word_le_nat_alt)
  have "label ?s = label s" by (simp add: label_def fun_eq_iff)
  moreover have "pool_ok ?s"
    using assms(1,3) le unfolding store_ok_def pool_ok_def
    by (fastforce intro: order_trans [OF _ le])
  ultimately show ?thesis using assms(1) by (simp add: store_ok_def node_links_def)
qed

definition tight_fs :: fs_state where
  "tight_fs = demo_fs\<lparr>memory_offset := 61500\<rparr>"

lemma tight_wf: "wf_fs tight_fs"
proof (rule wf_fs_step [OF demo_wf])
  show "store_ok tight_fs"
    unfolding tight_fs_def
    by (rule store_ok_offset) (use demo_wf in \<open>simp_all add: wf_fs_def demo_counts POOL_SIZE_def\<close>)
qed (use demo_wf in \<open>simp_all add: tight_fs_def fs_extends_def wf_fs_def attached_dir_def\<close>)

lemma demo_copy_ready:
  "copy_ready demo_fs (lit ''/notes'') (lit ''/memo'') 224 0"
  "copy_ready tight_fs (lit ''/notes'') (lit ''/memo'') 224 0"
proof -
  have nm: "copy_name (lit ''/memo'') = ''memo''" "parent_string ''/memo'' = ''/''"
    by (simp_all add: copy_name_def filename_string_def parent_string_def cstr_lit fs_consts)
  have types: "map_option node_type (node_at demo_fs 224) = Some FILE_TYPE_REGULAR"
    "map_option node_type (node_at demo_fs 0) = Some FILE_TYPE_DIRECTORY"
    "\<not> dir_full demo_fs 0"
    using demo_file demo_dir by (auto simp: dir_full_def fs_consts)
  show "copy_ready demo_fs (lit ''/notes'') (lit ''/memo'') 224 0"
    using types demo_can_create nm by (simp add: copy_ready_def copy_source_def cstr_lit demo_resolve demo_map)
  have maps: "dir_map tight_fs = dir_map demo_fs" "label tight_fs = label demo_fs"
    by (simp_all add: tight_fs_def dir_map_def label_def fun_eq_iff cong: option.case_cong)
  have res: "resolve_spec tight_fs ''/notes'' = Some 224" "resolve_spec tight_fs ''/'' = Some 0"
    using demo_resolve maps by (simp_all add: resolve_spec_def tight_fs_def demo_root demo_map comps_single fs_consts)
  have "can_create tight_fs" by (simp add: can_create_def tight_fs_def demo_counts fs_consts)
  then show "copy_ready tight_fs (lit ''/notes'') (lit ''/memo'') 224 0"
    using types nm res maps
    by (simp add: copy_ready_def copy_source_def cstr_lit demo_map tight_fs_def dir_full_def)
qed

section \<open>Theorems\<close>

text \<open>C3: every state the calls reach from \<open>fs_init\<close> on the zero-initialised statics is
  well-formed: arrays keep their lengths, names are terminated, objects of the pool do not
  overlap, children lists are packed, point back and carry distinct names, parents are attached
  directories earlier in the pool, root and current directory are attached directories.\<close>

theorem fs_reachable_wf:
  assumes "fs_reachable s"
  shows "wf_fs s"
  using assms by (rule fs_reachable_inv)

theorem fs_reachable_wf_witness: "fs_reachable demo_fs \<and> wf_fs demo_fs"
  using fs_reachable_wf [OF demo_reachable] demo_reachable by simp

text \<open>C4: on a well-formed file system the calls return and leave a well-formed file system, for
  terminated strings, pointers to nodes, directories that hang in the tree, a fresh node to be
  entered, and a buffer that holds the announced bytes. There are two faults, and they are exact:
  \<open>fs_copy_file\<close> and \<open>fs_move_file\<close> of a source that is a regular file write past their local
  arrays when the destination has 256 characters or its last component 64, and
  \<open>fs_change_directory\<close> writes past \<open>current_path\<close> when the path of the target does not fit.\<close>

theorem fs_calls_return:
  assumes "wf_fs s"
  shows "(\<forall>nm ty. terminated nm \<longrightarrow> yields (fs_create_file nm ty s) (\<lambda>(f, s'). wf_fs s')) \<and>
    (\<forall>p c. attached_dir s (Some p) \<longrightarrow> enterable s p c \<longrightarrow>
       yields (fs_add_child (Some p) (Some c) s) (\<lambda>(r, s'). wf_fs s')) \<and>
    (\<forall>p nm. attached_dir s (Some p) \<longrightarrow> terminated nm \<longrightarrow>
       yields (fs_remove_child (Some p) nm s) (\<lambda>(r, s'). wf_fs s')) \<and>
    (\<forall>p d data n. node_at s p = Some d \<longrightarrow> n \<le> length data \<longrightarrow>
       yields (fs_write_file (Some p) data n s) (\<lambda>(r, s'). wf_fs s')) \<and>
    (\<forall>p d. node_at s p = Some d \<longrightarrow> yields (fs_delete_node (Some p) s) (\<lambda>(r, s'). wf_fs s')) \<and>
    (\<forall>src dst. terminated src \<longrightarrow> terminated dst \<longrightarrow>
       (if copies s src \<and> \<not> copy_fits dst then fs_copy_file src dst s = None \<and> fs_move_file src dst s = None
        else yields (fs_copy_file src dst s) (\<lambda>(r, s'). wf_fs s') \<and>
          yields (fs_move_file src dst s) (\<lambda>(r, s'). wf_fs s'))) \<and>
    (\<forall>path. terminated path \<longrightarrow>
       (if \<exists>t. resolve_spec s (cstr path) = Some t \<and> attached_dir s (Some t) \<and> MAX_PATH_LENGTH \<le> length (path_string s t)
        then fs_change_directory (Some path) s = None
        else yields (fs_change_directory (Some path) s) (\<lambda>(r, s'). wf_fs s')))"
proof (intro conjI allI impI)
  fix src dst assume "terminated src" "terminated dst"
  then show "if copies s src \<and> \<not> copy_fits dst then fs_copy_file src dst s = None \<and> fs_move_file src dst s = None
        else yields (fs_copy_file src dst s) (\<lambda>(r, s'). wf_fs s') \<and> yields (fs_move_file src dst s) (\<lambda>(r, s'). wf_fs s')"
    using fs_copy_file_wf [OF assms, of src dst] fs_move_file_wf [OF assms, of src dst] by (simp split: if_splits)
next
  fix path assume p: "terminated path"
  show "if \<exists>t. resolve_spec s (cstr path) = Some t \<and> attached_dir s (Some t) \<and> MAX_PATH_LENGTH \<le> length (path_string s t)
      then fs_change_directory (Some path) s = None
      else yields (fs_change_directory (Some path) s) (\<lambda>(r, s'). wf_fs s')"
    by (cases rule: fs_change_directory_cases [OF assms p])
       (use moved_wf assms in \<open>auto simp: attached_dir_def dest: length_cstr_less\<close>)
qed (rule fs_wf_intros [OF assms]; assumption)+

theorem fs_calls_return_witness:
  "wf_fs demo_fs \<and> yields (fs_create_file (lit ''a'') FILE_TYPE_DIRECTORY demo_fs) (\<lambda>(f, s'). wf_fs s') \<and>
   yields (fs_move_file (lit ''notes'') (lit ''/b'') demo_fs) (\<lambda>(r, s'). wf_fs s') \<and>
   fs_copy_file (lit ''notes'') (lit (replicate 64 (CHR ''b''))) demo_fs = None"
proof -
  have f: "copies demo_fs (lit ''notes'')" using demo_file by (auto simp: copies_def cstr_lit demo_resolve)
  have fits: "copy_fits (lit ''/b'')" by (rule copy_fits_short) (simp add: cstr_lit fs_consts)
  have no: "\<not> copy_fits (lit (replicate 64 (CHR ''b'')))"
    by (simp add: copy_fits_def cstr_lit no_slash MAX_FILENAME_LENGTH_def)
  have t: "terminated (lit ''notes'')" "terminated (lit ''/b'')" "terminated (lit (replicate 64 (CHR ''b'')))" by (rule terminated_lit)+
  note all = fs_calls_return [OF demo_wf]
  have "yields (fs_create_file (lit ''a'') FILE_TYPE_DIRECTORY demo_fs) (\<lambda>(f, s'). wf_fs s')"
    using all terminated_lit by blast
  moreover have "yields (fs_move_file (lit ''notes'') (lit ''/b'') demo_fs) (\<lambda>(r, s'). wf_fs s')"
    using all fits t(1,2) by (metis (no_types, lifting))
  moreover have "fs_copy_file (lit ''notes'') (lit (replicate 64 (CHR ''b''))) demo_fs = None"
    using all f no t(1,3) by (metis (no_types, lifting))
  ultimately show ?thesis using demo_wf by blast
qed

text \<open>C6: path resolution refines a walk along the abstract directory maps: the path is cut to
  254 characters, split at every slash, \<open>.\<close> stays, \<open>..\<close> goes to the parent, any other component
  is looked up in the map of the directory reached so far.\<close>

theorem resolve_refines_walk:
  assumes "wf_fs s" and "terminated path"
  shows "fs_resolve_path (Some path) s = Some (resolve_spec s (cstr path))"
  using assms by (rule fs_resolve_path_eq)

theorem resolve_refines_walk_witness:
  "wf_fs demo_fs \<and> fs_resolve_path (Some (lit ''/notes'')) demo_fs = Some (Some 224)"
  using resolve_refines_walk [OF demo_wf terminated_lit, of "''/notes''"] demo_wf
  by (simp add: cstr_lit demo_resolve)

text \<open>C18: \<open>fs_change_directory\<close> refuses a missing target with -1 and a regular file with -2,
  leaving the state alone; it moves to a directory and stores its path string, and it writes out
  of bounds exactly when that string does not fit.\<close>

theorem chdir_spec:
  assumes "wf_fs s" and "terminated path"
  shows "case resolve_spec s (cstr path) of
      None \<Rightarrow> fs_change_directory (Some path) s = Some (-1, s)
    | Some t \<Rightarrow>
        if \<not> attached_dir s (Some t) then fs_change_directory (Some path) s = Some (-2, s)
        else if length (path_string s t) < MAX_PATH_LENGTH
        then yields (fs_change_directory (Some path) s) (\<lambda>(r, s'). r = 0 \<and>
          s' = s\<lparr>fs_current_dir := Some t, current_path := current_path s'\<rparr> \<and>
          cstr (current_path s') = path_string s t)
        else fs_change_directory (Some path) s = None"
  by (cases rule: fs_change_directory_cases [OF assms]) (auto simp: attached_dir_def dest: length_cstr_less)

theorem chdir_spec_witness:
  "wf_fs demo_fs \<and> fs_change_directory (Some (lit ''lost'')) demo_fs = Some (-1, demo_fs)"
  using chdir_spec [OF demo_wf terminated_lit, of "''lost''"] demo_wf
  by (simp add: cstr_lit demo_resolve)

text \<open>C17: what \<open>pwd\<close> prints is the current directory: after a successful \<open>cd\<close> into a directory
  that is listed, level by level under its own name, at most sixteen levels below the root, resolving
  the stored path string leads back to that directory. The condition is needed: a directory that was
  removed while it is current has no path, and the stored string names at most sixteen levels.\<close>

theorem pwd_roundtrip:
  assumes "wf_fs s" and "terminated path" and "fs_change_directory (Some path) s = Some (0, s')"
    and "listed s' 16 (the (fs_current_dir s'))"
  shows "fs_resolve_path (Some (current_path s')) s' = Some (fs_current_dir s')"
proof (cases rule: fs_change_directory_cases [OF assms(1,2)])
  case (4 t cp)
  have wf': "wf_fs s'" using moved_wf [OF assms(1) 4(2,4,5)] 4(3) assms(3) by simp
  have s': "s' = s\<lparr>fs_current_dir := Some t, current_path := cp\<rparr>" using 4(3) assms(3) by simp
  have path: "cstr (current_path s') = path_string s' t"
    using 4(6) path_string_cong [of s' s t] by (simp add: s')
  have "length (path_string s' t) < MAX_PATH_LENGTH"
    using length_cstr_less [OF 4(5)] 4(4,6) path_string_cong [of s' s t] by (simp add: s')
  then have "resolve_spec s' (path_string s' t) = Some t"
    using resolve_path_string [OF wf'] assms(4) by (simp add: s')
  then show ?thesis using fs_resolve_path_eq [OF wf'] 4(5) path by (simp add: s')
qed (use assms(3) in auto)

theorem pwd_roundtrip_witness:
  "\<exists>q s'. q \<noteq> 0 \<and> fs_root s' = Some 0 \<and> fs_change_directory (Some (lit ''docs'')) nested_fs = Some (0, s') \<and>
     fs_current_dir s' = Some q \<and> cstr (current_path s') = ''/docs'' \<and> listed s' 16 q \<and>
     fs_resolve_path (Some (current_path s')) s' = Some (Some q)"
proof (rule nested_fs)
  fix q d assume n: "wf_fs nested_fs" "fs_root nested_fs = Some 0" "fs_current_dir nested_fs = Some 0" "q \<noteq> 0"
    "node_at nested_fs q = Some d" "node_type d = FILE_TYPE_DIRECTORY" "node_parent d = Some 0"
    "label nested_fs q = ''docs''" "dir_map nested_fs 0 = [''notes'' \<mapsto> 224, ''docs'' \<mapsto> q]"
  have res: "resolve_spec nested_fs (cstr (lit ''docs'')) = Some q"
    by (simp add: resolve_spec_def n cstr_lit comps_single fs_consts)
  have par: "parent_of nested_fs q = 0" by (simp add: parent_of_def n)
  have str: "path_string nested_fs q = ''/docs''"
    using n(2,4) par by (simp add: path_string_def path_append_def n(8) numeral_eq_Suc)
  have dir: "attached_dir nested_fs (Some q)" using n by (simp add: attached_dir_def)
  show ?thesis
  proof (cases rule: fs_change_directory_cases [OF n(1) terminated_lit, of "''docs''"])
    case (4 t cp)
    let ?s = "nested_fs\<lparr>fs_current_dir := Some t, current_path := cp\<rparr>"
    have t: "t = q" using 4(1) res by simp
    have root: "fs_root ?s = Some 0" using n(2) by simp
    have lab: "label ?s = label nested_fs" by (simp add: label_def fun_eq_iff)
    have same: "dir_map ?s = dir_map nested_fs" "parent_of ?s = parent_of nested_fs"
      by (simp_all add: dir_map_def lab parent_of_def fun_eq_iff cong: option.case_cong)
    have "listed ?s 16 q"
      using root by (simp add: numeral_eq_Suc lab same par n(8,9) clean_name_def)
    then show ?thesis using pwd_roundtrip [OF n(1) terminated_lit 4(3)] 4(3,6) n(2,4) str unfolding t by auto
  qed (use res dir str in \<open>auto simp: MAX_PATH_LENGTH_def attached_dir_def\<close>)
qed

text \<open>\<open>fs_init\<close> on the zeroed statics succeeds: it prints its message, allocates the root as
  the first node of the pool, makes it its own parent and the current directory, and leaves the
  path string \<open>/\<close>, one file and a well-formed, empty file system.\<close>

theorem fs_init_ready:
  "yields (fs_init fs_boot) (\<lambda>(msg, s). msg = lit (''File system initialized'' @ [NL]) \<and> wf_fs s \<and>
     fs_root s = Some 0 \<and> fs_current_dir s = Some 0 \<and> parent_of s 0 = 0 \<and> dom (node_at s) = {0} \<and>
     dir_map s 0 = Map.empty \<and> cstr (current_path s) = ''/'' \<and> total_files s = 1)"
proof -
  obtain s d where i: "fs_init fs_boot = Some (lit (''File system initialized'' @ [NL]), s)"
    "wf_fs s" "fs_root s = Some 0" "fs_current_dir s = Some 0" "node_at s = [0 \<mapsto> d]" "kids d = []"
    "cstr (current_path s) = ''/''" "total_files s = 1"
    by (rule fs_init_boot)
  have "parent_of s 0 = 0" using i(2,3,5) by (auto simp: wf_fs_def parent_of_def)
  then show ?thesis using i by (simp add: dir_map_def)
qed

text \<open>\<open>fs_create_file\<close> refuses when 128 files exist or the pool is used up; otherwise it
  returns a fresh, unattached node after everything allocated before, with the name cut to 62
  characters, a zeroed 4096-byte buffer behind the node if it is a regular file and the buffer
  still fits, and it changes no existing node or buffer.\<close>

theorem create_file_spec:
  assumes "wf_fs s" and "terminated nm"
  shows "if can_create s
    then \<exists>p d s'. fs_create_file nm ty s = Some (Some p, s') \<and> created s nm ty p d s' \<and> wf_fs s' \<and>
      (\<forall>q. node_at s q \<noteq> None \<longrightarrow> q < p \<and> node_at s' q = node_at s q \<and> file_block s' q = file_block s q)
    else fs_create_file nm ty s = Some (None, s)"
proof (cases "can_create s")
  case True
  have ok: "store_ok s" using assms(1) by (simp add: wf_fs_def)
  obtain p d s' where c: "fs_create_file nm ty s = Some (Some p, s')" "created s nm ty p d s'"
    by (rule fs_create_file_created [OF ok assms(2) True])
  have "q < p" if "node_at s q \<noteq> None" for q
    using fresh_offset [OF ok, of q] that c(2) by (auto simp: created_def SIZEOF_FS_NODE_def)
  moreover from this have "node_at s' q = node_at s q" if "node_at s q \<noteq> None" for q
    using that c(2) by (auto simp: created_def)
  ultimately show ?thesis
    using True c created_wf [OF c(2) assms(1)] created_dir_map(4) [OF ok c(2)] by auto
next
  case False
  then show ?thesis using fs_create_file_full [OF False] assms(1) by (simp add: wf_fs_def)
qed

theorem create_file_spec_witness:
  "can_create demo_fs \<and> (\<exists>p d s'. fs_create_file (lit ''docs'') FILE_TYPE_DIRECTORY demo_fs = Some (Some p, s') \<and>
     created demo_fs (lit ''docs'') FILE_TYPE_DIRECTORY p d s' \<and> p = 4544)"
proof -
  obtain p d s' where "fs_create_file (lit ''docs'') FILE_TYPE_DIRECTORY demo_fs = Some (Some p, s')"
    "created demo_fs (lit ''docs'') FILE_TYPE_DIRECTORY p d s'"
    using create_file_spec [OF demo_wf terminated_lit, of "''docs''" FILE_TYPE_DIRECTORY] demo_can_create by auto
  moreover from this have "p = 4544" by (simp add: created_def demo_counts)
  ultimately show ?thesis using demo_can_create by blast
qed

text \<open>A directory is a map: after a successful \<open>fs_add_child\<close> a search in any directory finds
  the new node under its name in that directory and what was there before everywhere else.\<close>

theorem lookup_after_add:
  assumes "store_ok s" and "attached_dir s (Some p)" and "enterable s p c" and "\<not> dir_full s p"
    and "dir_map s p (label s c) = None" and "attached_dir s (Some q)" and "terminated nm"
  shows "yields (do { (r, s') \<leftarrow> fs_add_child (Some p) (Some c) s; f \<leftarrow> fs_find_child (Some q) nm s'; Some (r, f) })
    (\<lambda>(r, f). r = 0 \<and> f = (if q = p \<and> cstr nm = label s c then Some c else dir_map s q (cstr nm)))"
  using assms by (rule fs_dir.find_after_add)

theorem lookup_after_add_witness:
  "\<exists>s c. store_ok s \<and> enterable s 0 c \<and> yields (do { (r, s') \<leftarrow> fs_add_child (Some 0) (Some c) s;
      f \<leftarrow> fs_find_child (Some 0) (lit ''docs'') s'; Some (r, f) }) (\<lambda>(r, f). r = 0 \<and> f = Some c)"
proof -
  obtain c s where s: "store_ok s" "attached_dir s (Some 0)" "enterable s 0 c" "\<not> dir_full s 0"
    "dir_map s 0 (label s c) = None" "label s c = ''docs''" by (rule demo_docs)
  from lookup_after_add [OF s(1-5,2) terminated_lit, of "''docs''"] s show ?thesis
    by (auto simp: cstr_lit)
qed

text \<open>Removing a name from a directory makes searches for it there fail and changes no other
  search; the slot is free again.\<close>

theorem lookup_after_remove:
  assumes "store_ok s" and "attached_dir s (Some p)" and "terminated nm" and "dir_map s p (cstr nm) \<noteq> None"
    and "attached_dir s (Some q)" and "terminated nm'"
  shows "yields (do { (r, s') \<leftarrow> fs_remove_child (Some p) nm s; f \<leftarrow> fs_find_child (Some q) nm' s'; Some (r, f) })
    (\<lambda>(r, f). r = 0 \<and> f = (if q = p \<and> cstr nm' = cstr nm then None else dir_map s q (cstr nm')))"
  using assms by (rule fs_dir.find_after_remove)

theorem lookup_after_remove_witness:
  "store_ok demo_fs \<and> yields (do { (r, s') \<leftarrow> fs_remove_child (Some 0) (lit ''notes'') demo_fs;
      f \<leftarrow> fs_find_child (Some 0) (lit ''notes'') s'; Some (r, f) }) (\<lambda>(r, f). r = 0 \<and> f = None)"
proof -
  have ok: "store_ok demo_fs" using demo_wf by (simp add: wf_fs_def)
  have "dir_map demo_fs 0 (cstr (lit ''notes'')) \<noteq> None" by (simp add: demo_map cstr_lit)
  from lookup_after_remove [OF ok demo_attached terminated_lit this demo_attached terminated_lit, of "''notes''"]
  show ?thesis using ok by simp
qed

text \<open>Entering a node into a directory and removing its name again gives every directory its
  old entries back.\<close>

theorem add_then_remove:
  assumes "store_ok s" and "attached_dir s (Some p)" and "enterable s p c" and "\<not> dir_full s p"
    and "dir_map s p (label s c) = None" and "terminated nm" and "cstr nm = label s c"
  shows "yields (do { (r, s1) \<leftarrow> fs_add_child (Some p) (Some c) s; (r', s2) \<leftarrow> fs_remove_child (Some p) nm s1;
      Some (r, r', s2) })
    (\<lambda>(r, r', s2). r = 0 \<and> r' = 0 \<and> (\<forall>q. dir_map s2 q = dir_map s q))"
  using assms by (rule fs_dir.add_remove)

theorem add_then_remove_witness:
  "\<exists>s c. store_ok s \<and> enterable s 0 c \<and> yields (do { (r, s1) \<leftarrow> fs_add_child (Some 0) (Some c) s;
      (r', s2) \<leftarrow> fs_remove_child (Some 0) (lit ''docs'') s1; Some (r, r', s2) })
    (\<lambda>(r, r', s2). r = 0 \<and> r' = 0 \<and> (\<forall>q. dir_map s2 q = dir_map s q))"
proof -
  obtain c s where s: "store_ok s" "attached_dir s (Some 0)" "enterable s 0 c" "\<not> dir_full s 0"
    "dir_map s 0 (label s c) = None" "label s c = ''docs''" by (rule demo_docs)
  then have "cstr (lit ''docs'') = label s c" by (simp add: cstr_lit)
  from add_then_remove [OF s(1-5) terminated_lit this] s show ?thesis by blast
qed

text \<open>C13: writing a text to a regular file succeeds and returns its length, but the bytes of the
  old text beyond the new one stay: reading the file back gives the new text followed by the tail
  of the old one. No other file and no directory changes.\<close>

theorem write_then_read:
  assumes "wf_fs s" and "file_block s p = Some blk" and "text_block y blk"
    and "NUL \<notin> set x" and "length x < MAX_FILE_SIZE"
  shows "yields (fs_write_file (Some p) (lit x) (length x) s) (\<lambda>(r, s'). r = int (length x) \<and>
    fs_read_file (Some p) s' = fs_read_file (Some p) s \<and> file_text s' p = Some (x @ drop (length x) y) \<and>
    map_option node_size (node_at s' p) = Some (length x) \<and>
    (\<forall>q. q \<noteq> p \<longrightarrow> file_block s' q = file_block s q) \<and> dir_map s' = dir_map s)"
proof -
  have ok: "store_ok s" using assms(1) by (simp add: wf_fs_def)
  obtain d b where d: "node_at s p = Some d" "node_data d = Some b" "block_at s b = Some blk"
    using assms(2) by (auto simp: file_block_def bind_eq_Some_conv)
  have reg: "node_type d = FILE_TYPE_REGULAR" by (rule data_block [OF ok d(1,2)])
  have m: "length x = min (length x) MAX_FILE_SIZE" "length x \<le> length (lit x)"
    using assms(5) by simp_all
  obtain s' where s': "fs_write_file (Some p) (lit x) (length x) s = Some (int (length x), s')"
    "same_tree s s'" "file_block s' = (file_block s)(p \<mapsto> take (length x) (lit x) @ drop (length x) blk)"
    "\<exists>t. node_at s' = (node_at s)(p \<mapsto> d\<lparr>node_size := length x, modification_time := t\<rparr>)"
    using fs_write_file_ok [OF ok d m] by metis
  have "take (length x) (lit x) = x" by (simp add: lit_def)
  then have "file_text s' p = Some (x @ drop (length x) y)"
    using text_blockD(1) [OF text_block_overwrite [OF assms(3-5)]] s'(3) by (simp add: file_text_def)
  moreover have "fs_read_file (Some p) s' = fs_read_file (Some p) s"
    "map_option node_size (node_at s' p) = Some (length x)"
    using s'(4) d reg by (auto simp: fs_read_file_def)
  ultimately show ?thesis using s' by (simp add: same_tree_def)
qed

theorem write_then_read_witness:
  "yields (fs_write_file (Some 224) (lit ''hi'') 2 demo_fs) (\<lambda>(r, s'). r = 2 \<and> file_text s' 224 = Some ''hillo'')"
proof -
  have "text_block ''hello'' (''hello'' @ replicate 4091 NUL)" by (simp add: text_block_def MAX_FILE_SIZE_def)
  from write_then_read [OF demo_wf demo_block this, of "''hi''"] show ?thesis
    by (auto simp: MAX_FILE_SIZE_def numeral_2_eq_2 elim!: yields_mono)
qed

text \<open>C33: \<open>fs_delete_node\<close> refuses the root and a directory with children and changes nothing;
  any other node is unlinked: the entry of its name leaves the map of its parent, no buffer and no
  other directory changes and one file is subtracted from the count.\<close>

theorem delete_spec:
  assumes "wf_fs s" and "node_at s p = Some d"
  shows "if deletable s p
    then yields (fs_delete_node (Some p) s) (\<lambda>(r, s'). r = 0 \<and> wf_fs s' \<and>
      (\<forall>q. dir_map s' q = (if node_parent d = Some q then (dir_map s q)(label s p := None) else dir_map s q)) \<and>
      file_block s' = file_block s \<and> total_files s' = total_files s - 1 \<and> fs_current_dir s' = fs_current_dir s)
    else fs_delete_node (Some p) s = Some (-1, s)"
proof (cases "deletable s p")
  case True
  have ok: "store_ok s" using assms(1) by (simp add: wf_fs_def)
  obtain s' where s': "fs_delete_node (Some p) s = Some (0, s')" "unlinked s p s'"
    by (rule fs_delete_node_ok [OF ok True])
  then show ?thesis using True unlinked_wf [OF s'(2) assms(1)] assms(2)
    by (auto simp: unlinked_def)
qed (use fs_delete_node_refused assms in auto)

theorem delete_spec_witness:
  "deletable demo_fs 224 \<and> \<not> deletable demo_fs 0 \<and> fs_delete_node (Some 0) demo_fs = Some (-1, demo_fs) \<and>
   yields (fs_delete_node (Some 224) demo_fs) (\<lambda>(r, s'). r = 0 \<and> dir_map s' 0 = Map.empty \<and> total_files s' = 1)"
proof -
  obtain d where d: "node_at demo_fs 0 = Some d" using demo_dir by blast
  obtain e where e: "node_at demo_fs 224 = Some e" "node_type e = FILE_TYPE_REGULAR" "node_parent e = Some 0"
    using demo_file by blast
  have del: "deletable demo_fs 224" "\<not> deletable demo_fs 0"
    using e by (simp_all add: deletable_def demo_root)
  have "fs_delete_node (Some 0) demo_fs = Some (-1, demo_fs)"
    using delete_spec [OF demo_wf d] del by simp
  moreover have "yields (fs_delete_node (Some 224) demo_fs)
      (\<lambda>(r, s'). r = 0 \<and> dir_map s' 0 = Map.empty \<and> total_files s' = 1)"
    using delete_spec [OF demo_wf e(1)] del e(3)
    by (auto simp: demo_map demo_label demo_counts elim!: yields_mono)
  ultimately show ?thesis using del by blast
qed

text \<open>C34: a deleted node can be deleted again: the node keeps its parent pointer, so a second
  \<open>fs_delete_node\<close> on it also succeeds and subtracts another file from the count, although only
  one was removed.\<close>

theorem delete_twice:
  assumes "wf_fs s" and "deletable s p" and "map_option node_type (node_at s p) = Some FILE_TYPE_REGULAR"
  shows "yields (do { (r, s1) \<leftarrow> fs_delete_node (Some p) s; (r', s2) \<leftarrow> fs_delete_node (Some p) s1; Some (r, r', s2) })
    (\<lambda>(r, r', s2). r = 0 \<and> r' = 0 \<and> total_files s2 = total_files s - 2)"
proof -
  have ok: "store_ok s" using assms(1) by (simp add: wf_fs_def)
  obtain s1 where s1: "fs_delete_node (Some p) s = Some (0, s1)" "unlinked s p s1"
    by (rule fs_delete_node_ok [OF ok assms(2)])
  note u = s1(2) [unfolded unlinked_def]
  have "deletable s1 p" using u assms(2,3) by (auto simp: deletable_def elim!: fs_extendsD [of s s1 p])
  moreover have "store_ok s1" using u by blast
  ultimately obtain s2 where s2: "fs_delete_node (Some p) s1 = Some (0, s2)" "unlinked s1 p s2"
    using fs_delete_node_ok by blast
  have "total_files s2 = total_files s - 2" using u s2(2) by (simp add: unlinked_def)
  then show ?thesis using s1(1) s2(1) by simp
qed

theorem delete_twice_witness:
  "yields (do { (r, s1) \<leftarrow> fs_delete_node (Some 224) demo_fs; (r', s2) \<leftarrow> fs_delete_node (Some 224) s1; Some (r, r', s2) })
    (\<lambda>(r, r', s2). r = 0 \<and> r' = 0 \<and> total_files s2 = 0)"
proof -
  have d: "deletable demo_fs 224" "map_option node_type (node_at demo_fs 224) = Some FILE_TYPE_REGULAR"
    using demo_file by (auto simp: deletable_def demo_root)
  from delete_twice [OF demo_wf d] show ?thesis by (simp add: demo_counts)
qed



text \<open>C16: \<open>fs_move_file\<close> succeeds under the same condition; afterwards the source's entry is gone
  from its directory, the new name points to a new file, and every other entry is as before.\<close>

theorem move_spec:
  assumes "wf_fs s" and "terminated src" and "terminated dst" and "copy_fits dst"
  shows "if \<exists>p t. copy_ready s src dst p t
    then \<exists>p t q s'. copy_ready s src dst p t \<and> fs_move_file src dst s = Some (0, s') \<and>
      moved s p t (copy_name dst) q s'
    else \<exists>s'. fs_move_file src dst s = Some (-1, s') \<and> tree_kept s s'"
proof (cases rule: fs_move_file_cases [OF assms(2-4,1)])
  case (1 s')
  from 1(1) show ?thesis unfolding if_not_P [OF 1(1)] using 1(2,3) by blast
next
  case (2 p t q s')
  then have "\<exists>p t. copy_ready s src dst p t" by blast
  from if_P [OF this] show ?thesis using 2 by metis
qed

theorem move_spec_witness:
  "copy_ready demo_fs (lit ''/notes'') (lit ''/memo'') 224 0 \<and>
   (\<exists>q s'. fs_move_file (lit ''/notes'') (lit ''/memo'') demo_fs = Some (0, s') \<and> dir_map s' 0 = [''memo'' \<mapsto> q])"
proof -
  have len: "copy_fits (lit ''/memo'')" by (rule copy_fits_short) (simp add: cstr_lit fs_consts)
  obtain p t q s' where c: "copy_ready demo_fs (lit ''/notes'') (lit ''/memo'') p t"
    "fs_move_file (lit ''/notes'') (lit ''/memo'') demo_fs = Some (0, s')"
    "moved demo_fs p t (copy_name (lit ''/memo'')) q s'"
    using move_spec [OF demo_wf terminated_lit terminated_lit len, of "''/notes''"] demo_copy_ready(1)
    by (metis (no_types, lifting))
  have eq: "p = 224" "t = 0"
    using c(1) demo_copy_ready(1) by (simp_all add: copy_ready_def copy_source_def)
  have nm: "copy_name (lit ''/memo'') = ''memo''"
    by (simp add: copy_name_def filename_string_def cstr_lit fs_consts)
  have "parent_of demo_fs 224 = 0" using demo_file by (auto simp: parent_of_def)
  then have "dir_map s' 0 = [''memo'' \<mapsto> q]"
    using c(3) unfolding eq nm moved_def by (auto simp: demo_map demo_label fun_eq_iff)
  then show ?thesis using c(2) demo_copy_ready(1) by blast
qed

text \<open>C35: moving a file when the pool has room for a node and not for a buffer reports success and
  loses the text: the new file has no buffer and the old entry is gone.\<close>

theorem move_without_room:
  assumes "wf_fs s" and "terminated src" and "terminated dst" and "copy_fits dst"
    and "copy_ready s src dst p t"
    and "65536 \<le> unat (memory_offset s) + SIZEOF_FS_NODE + MAX_FILE_SIZE"
  shows "yields (fs_move_file src dst s) (\<lambda>(r, s'). r = 0 \<and>
    (\<exists>q. dir_map s' t (copy_name dst) = Some q \<and> file_text s' q = None) \<and>
    dir_map s' (parent_of s p) (label s p) = None)"
proof (cases rule: fs_move_file_cases [OF assms(2-4,1)])
  case (2 p' t' q s')
  then have eq: "p' = p" "t' = t" using assms(5) by (auto simp: copy_ready_def copy_source_def)
  have listed: "dir_map s (parent_of s p) (label s p) = Some p"
    using assms(5) by (intro resolve_regular_listed [OF assms(1), of "cstr src"])
      (auto simp: copy_ready_def copy_source_def)
  then have "\<not> (parent_of s p = t \<and> label s p = copy_name dst)"
    using assms(5) by (auto simp: copy_ready_def)
  then show ?thesis using 2(2,3) assms(6) unfolding eq moved_def by (auto simp: file_text_def)
qed (use assms(5) in auto)

theorem move_without_room_witness:
  "wf_fs tight_fs \<and> yields (fs_move_file (lit ''/notes'') (lit ''/memo'') tight_fs) (\<lambda>(r, s'). r = 0 \<and>
    (\<exists>q. dir_map s' 0 (copy_name (lit ''/memo'')) = Some q \<and> file_text s' q = None) \<and>
    dir_map s' (parent_of tight_fs 224) (label tight_fs 224) = None)"
proof -
  have len: "copy_fits (lit ''/memo'')" by (rule copy_fits_short) (simp add: cstr_lit fs_consts)
  have "65536 \<le> unat (memory_offset tight_fs) + SIZEOF_FS_NODE + MAX_FILE_SIZE"
    by (simp add: tight_fs_def fs_consts)
  from move_without_room [OF tight_wf terminated_lit terminated_lit len demo_copy_ready(2) this] tight_wf
  show ?thesis by blast
qed

text \<open>C36: the allocator: a request of at most 64KB succeeds exactly when it ends strictly before the
  end of the pool; the block starts where the allocated part ended and ends where it now ends, so
  blocks never overlap and never leave the pool.\<close>

theorem kmalloc_fits:
  assumes "memory_offset s < POOL_SIZE" and "n \<le> POOL_SIZE"
  shows "case kmalloc n s of
      (None, s') \<Rightarrow> s' = s \<and> 65536 \<le> unat (memory_offset s) + unat n
    | (Some p, s') \<Rightarrow> p = unat (memory_offset s) \<and> unat (memory_offset s') = p + unat n \<and>
        memory_offset s' < POOL_SIZE \<and> node_at s' = node_at s \<and> block_at s' = block_at s"
proof -
  have n: "unat n \<le> 65536" using assms(2) by (simp add: POOL_SIZE_def word_le_nat_alt)
  show ?thesis
    using kmalloc_nat [OF assms(1) n] by (auto simp: POOL_SIZE_def word_less_nat_alt)
qed

theorem kmalloc_fits_witness:
  "kmalloc 4096 demo_fs = (Some 4544, demo_fs\<lparr>memory_offset := 8640\<rparr>) \<and> kmalloc 65536 demo_fs = (None, demo_fs)"
proof -
  have off: "memory_offset demo_fs < POOL_SIZE" by (simp add: demo_counts POOL_SIZE_def)
  have "(4096 :: 32 word) \<le> POOL_SIZE" "(65536 :: 32 word) \<le> POOL_SIZE" by (simp_all add: POOL_SIZE_def)
  from kmalloc_fits [OF off this(1)] kmalloc_fits [OF off this(2)] show ?thesis
    by (simp add: kmalloc_def demo_counts POOL_SIZE_def)
qed

text \<open>The bound check of the allocator wraps around: once something is allocated, a request so
  large that offset plus size exceeds 32 bits is granted and moves the offset backwards, so later
  blocks overlap earlier ones.\<close>

theorem kmalloc_wraps:
  assumes "0 < memory_offset s" and "memory_offset s < POOL_SIZE" and "- memory_offset s \<le> n"
  shows "fst (kmalloc n s) = Some (unat (memory_offset s)) \<and> memory_offset (snd (kmalloc n s)) < memory_offset s"
proof -
  have "0 < unat (memory_offset s)" using assms(1) by (simp add: word_less_nat_alt)
  then have "2 ^ 32 \<le> unat (memory_offset s) + unat (- memory_offset s)"
    using unat_plus_if' [of "memory_offset s" "- memory_offset s"] by (simp split: if_splits)
  moreover have "unat (memory_offset s) < 2 ^ 32" "unat n < 2 ^ 32"
    using unsigned_less [of "memory_offset s"] unsigned_less [of n] by simp_all
  ultimately have "memory_offset s + n < memory_offset s"
    using assms(3) by (simp add: word_less_nat_alt word_le_nat_alt unat_plus_if')
  then have "memory_offset s + n < POOL_SIZE" using assms(2) by simp
  then show ?thesis using \<open>memory_offset s + n < memory_offset s\<close> by (simp add: kmalloc_def not_le)
qed

theorem kmalloc_wraps_witness:
  "fst (kmalloc 0xFFFFFFFF demo_fs) = Some 4544 \<and> memory_offset (snd (kmalloc 0xFFFFFFFF demo_fs)) < memory_offset demo_fs"
  using kmalloc_wraps [of demo_fs "0xFFFFFFFF"] by (simp add: demo_counts POOL_SIZE_def)

text \<open>Splitting a path at its last slash: for a path that fits the buffers, \<open>fs_get_parent_path\<close>
  yields the part before the slash (\<open>/\<close> if that is empty or there is no slash) and
  \<open>fs_get_filename\<close> the part after it (the whole path if there is none).\<close>

theorem split_path_spec:
  assumes "terminated path" and "copy_fits path"
  shows "yields (fs_get_parent_path path (replicate MAX_PATH_LENGTH NUL)) (\<lambda>b. terminated b \<and>
      cstr b = parent_string (cstr path)) \<and>
    yields (fs_get_filename path (replicate MAX_FILENAME_LENGTH NUL)) (\<lambda>b. terminated b \<and>
      cstr b = filename_string (cstr path)) \<and>
    (CHR ''/'' \<in> set (cstr path) \<longrightarrow> (\<exists>h. cstr path = h @ CHR ''/'' # filename_string (cstr path) \<and>
      parent_string (cstr path) = (if h = [] then ''/'' else h) \<and> CHR ''/'' \<notin> set (filename_string (cstr path)))) \<and>
    (CHR ''/'' \<notin> set (cstr path) \<longrightarrow> filename_string (cstr path) = cstr path \<and> parent_string (cstr path) = ''/'')"
proof -
  obtain dirp nm where "fs_get_parent_path path (replicate MAX_PATH_LENGTH NUL) = Some dirp"
    "terminated dirp" "cstr dirp = parent_string (cstr path)"
    "fs_get_filename path (replicate MAX_FILENAME_LENGTH NUL) = Some nm"
    "terminated nm" "cstr nm = filename_string (cstr path)"
    by (rule copy_paths [OF assms])
  moreover have "\<exists>h. cstr path = h @ CHR ''/'' # filename_string (cstr path) \<and>
      parent_string (cstr path) = (if h = [] then ''/'' else h) \<and> CHR ''/'' \<notin> set (filename_string (cstr path))"
    if "CHR ''/'' \<in> set (cstr path)"
    using split_at_last_slash [OF that] by blast
  ultimately show ?thesis using no_slash [of "cstr path"] by simp
qed

theorem split_path_spec_witness:
  "yields (fs_get_parent_path (lit ''/a/b'') (replicate MAX_PATH_LENGTH NUL)) (\<lambda>b. terminated b \<and> cstr b = ''/a'') \<and>
   yields (fs_get_filename (lit ''/a/b'') (replicate MAX_FILENAME_LENGTH NUL)) (\<lambda>b. terminated b \<and> cstr b = ''b'')"
proof -
  have "copy_fits (lit ''/a/b'')" by (rule copy_fits_short) (simp add: cstr_lit fs_consts)
  from split_path_spec [OF terminated_lit this] show ?thesis
    by (simp add: cstr_lit parent_string_def filename_string_def)
qed

end
