(* ===== verification/Terminal.thy ===== *)
theory Terminal
  imports C_String
begin

unbundle bit_operations_syntax

text \<open>
  The VGA text terminal of \<open>src/kernel/kernel.c\<close> (\<open>vga_entry_color\<close> to \<open>terminal_clear\<close>).

  \<open>terminal_buffer\<close> is the memory at \<open>0xB8000\<close>: 80 * 25 cells of 16 bits, flat; writing
  outside it is undefined. The terminal is proved to refine a typewriter on a list of rows
  (\<open>tty_put\<close>): the current row and column never leave the screen, so no cell outside the VGA
  memory is ever touched.
\<close>

section \<open>Colors and cells\<close>

datatype vga_color = VGA_COLOR_BLACK | VGA_COLOR_BLUE | VGA_COLOR_GREEN | VGA_COLOR_CYAN
  | VGA_COLOR_RED | VGA_COLOR_MAGENTA | VGA_COLOR_BROWN | VGA_COLOR_LIGHT_GREY
  | VGA_COLOR_DARK_GREY | VGA_COLOR_LIGHT_BLUE | VGA_COLOR_LIGHT_GREEN | VGA_COLOR_LIGHT_CYAN
  | VGA_COLOR_LIGHT_RED | VGA_COLOR_LIGHT_MAGENTA | VGA_COLOR_LIGHT_BROWN | VGA_COLOR_WHITE

primrec vga_code :: "vga_color \<Rightarrow> 32 word" where
  "vga_code VGA_COLOR_BLACK = 0"
| "vga_code VGA_COLOR_BLUE = 1"
| "vga_code VGA_COLOR_GREEN = 2"
| "vga_code VGA_COLOR_CYAN = 3"
| "vga_code VGA_COLOR_RED = 4"
| "vga_code VGA_COLOR_MAGENTA = 5"
| "vga_code VGA_COLOR_BROWN = 6"
| "vga_code VGA_COLOR_LIGHT_GREY = 7"
| "vga_code VGA_COLOR_DARK_GREY = 8"
| "vga_code VGA_COLOR_LIGHT_BLUE = 9"
| "vga_code VGA_COLOR_LIGHT_GREEN = 10"
| "vga_code VGA_COLOR_LIGHT_CYAN = 11"
| "vga_code VGA_COLOR_LIGHT_RED = 12"
| "vga_code VGA_COLOR_LIGHT_MAGENTA = 13"
| "vga_code VGA_COLOR_LIGHT_BROWN = 14"
| "vga_code VGA_COLOR_WHITE = 15"

definition vga_entry_color :: "vga_color \<Rightarrow> vga_color \<Rightarrow> 8 word" where
  "vga_entry_color fg bg = ucast (vga_code fg OR push_bit 4 (vga_code bg))"

definition vga_entry :: "8 word \<Rightarrow> 8 word \<Rightarrow> 16 word" where
  "vga_entry uc color = ucast uc OR push_bit 8 (ucast color)"

text \<open>A \<open>char\<close> argument converted to \<open>unsigned char\<close>.\<close>

definition uchar :: "char \<Rightarrow> 8 word" where
  "uchar c = of_char c"

section \<open>The terminal\<close>

definition VGA_WIDTH :: "32 word" where "VGA_WIDTH = 80"
definition VGA_HEIGHT :: "32 word" where "VGA_HEIGHT = 25"

lemmas vga_consts = VGA_WIDTH_def VGA_HEIGHT_def

record terminal =
  terminal_row :: "32 word"
  terminal_column :: "32 word"
  terminal_color :: "8 word"
  terminal_buffer :: "16 word list"

text \<open>\<open>terminal_buffer[y * VGA_WIDTH + x] = v\<close>\<close>

definition put_cell :: "32 word \<Rightarrow> 32 word \<Rightarrow> 16 word \<Rightarrow> terminal \<Rightarrow> terminal option" where
  "put_cell y x v t = do {
     b \<leftarrow> arr_set (terminal_buffer t) (unat (y * VGA_WIDTH + x)) v;
     Some (t\<lparr>terminal_buffer := b\<rparr>) }"

text \<open>The double loop that blanks the screen; \<open>terminal_initialize\<close> and \<open>terminal_clear\<close>
  contain it.\<close>

definition blank_screen :: "terminal \<Rightarrow> terminal option" where
  "blank_screen t =
     ofold (\<lambda>y. ofold (\<lambda>x t. put_cell (of_nat y) (of_nat x) (vga_entry (uchar CHR '' '') (terminal_color t)) t)
       [0..<unat VGA_WIDTH]) [0..<unat VGA_HEIGHT] t"

text \<open>\<open>vga\<close> is what the VGA memory holds when the terminal is pointed at it.\<close>

definition terminal_initialize :: "16 word list \<Rightarrow> terminal \<Rightarrow> terminal option" where
  "terminal_initialize vga t =
     blank_screen (t\<lparr>terminal_row := 0, terminal_column := 0,
       terminal_color := vga_entry_color VGA_COLOR_LIGHT_GREY VGA_COLOR_BLACK,
       terminal_buffer := vga\<rparr>)"

definition terminal_setcolor :: "8 word \<Rightarrow> terminal \<Rightarrow> terminal" where
  "terminal_setcolor color t = t\<lparr>terminal_color := color\<rparr>"

definition terminal_putentryat :: "char \<Rightarrow> 8 word \<Rightarrow> 32 word \<Rightarrow> 32 word \<Rightarrow> terminal \<Rightarrow> terminal option" where
  "terminal_putentryat c color x y t = put_cell y x (vga_entry (uchar c) color) t"

definition scroll_cell :: "nat \<Rightarrow> nat \<Rightarrow> 16 word list \<Rightarrow> 16 word list option" where
  "scroll_cell y x b = do {
     v \<leftarrow> arr_get b ((y + 1) * unat VGA_WIDTH + x);
     arr_set b (y * unat VGA_WIDTH + x) v }"

definition terminal_scroll :: "terminal \<Rightarrow> terminal option" where
  "terminal_scroll t = do {
     b \<leftarrow> ofold (\<lambda>y. ofold (scroll_cell y) [0..<unat VGA_WIDTH]) [0..<unat VGA_HEIGHT - 1] (terminal_buffer t);
     t \<leftarrow> ofold (\<lambda>x t. put_cell (VGA_HEIGHT - 1) (of_nat x) (vga_entry (uchar CHR '' '') (terminal_color t)) t)
       [0..<unat VGA_WIDTH] (t\<lparr>terminal_buffer := b\<rparr>);
     Some (t\<lparr>terminal_row := VGA_HEIGHT - 1\<rparr>) }"

text \<open>\<open>if (++terminal_row == VGA_HEIGHT) terminal_scroll();\<close>\<close>

definition next_row :: "terminal \<Rightarrow> terminal option" where
  "next_row t = (let t = t\<lparr>terminal_row := terminal_row t + 1\<rparr> in
     if terminal_row t = VGA_HEIGHT then terminal_scroll t else Some t)"

definition terminal_putchar :: "char \<Rightarrow> terminal \<Rightarrow> terminal option" where
  "terminal_putchar c t =
     (if c = CHR 0x0A then next_row (t\<lparr>terminal_column := 0\<rparr>)
      else if c = CHR 0x0D then Some (t\<lparr>terminal_column := 0\<rparr>)
      else if c = CHR 0x09 then
        (let t = t\<lparr>terminal_column := (terminal_column t + 4) AND NOT 3\<rparr> in
         if terminal_column t \<ge> VGA_WIDTH then next_row (t\<lparr>terminal_column := 0\<rparr>) else Some t)
      else if c = CHR 0x08 then
        (if terminal_column t > 0 then
           (let t = t\<lparr>terminal_column := terminal_column t - 1\<rparr> in
            terminal_putentryat CHR '' '' (terminal_color t) (terminal_column t) (terminal_row t) t)
         else Some t)
      else do {
        t \<leftarrow> terminal_putentryat c (terminal_color t) (terminal_column t) (terminal_row t) t;
        let t = t\<lparr>terminal_column := terminal_column t + 1\<rparr>;
        if terminal_column t = VGA_WIDTH then next_row (t\<lparr>terminal_column := 0\<rparr>) else Some t })"

definition terminal_write :: "char list \<Rightarrow> nat \<Rightarrow> terminal \<Rightarrow> terminal option" where
  "terminal_write data n t = ofold (\<lambda>i t. do { c \<leftarrow> arr_get data i; terminal_putchar c t }) [0..<n] t"

definition terminal_writestring :: "char list \<Rightarrow> terminal \<Rightarrow> terminal option" where
  "terminal_writestring data t = do { n \<leftarrow> strlen data; terminal_write data n t }"

definition terminal_clear :: "terminal \<Rightarrow> terminal option" where
  "terminal_clear t = do {
     t \<leftarrow> blank_screen t;
     Some (t\<lparr>terminal_row := 0, terminal_column := 0\<rparr>) }"

section \<open>Rows\<close>

text \<open>The screen as a list of 25 rows of 80 cells.\<close>

definition rows_of :: "16 word list \<Rightarrow> 16 word list list" where
  "rows_of b = map (\<lambda>y. take 80 (drop (80 * y) b)) [0..<25]"

definition terminal_ok :: "terminal \<Rightarrow> bool" where
  "terminal_ok t \<longleftrightarrow> terminal_row t < VGA_HEIGHT \<and> terminal_column t < VGA_WIDTH \<and>
     length (terminal_buffer t) = 2000"

lemma length_rows_of [simp]: "length (rows_of b) = 25"
  by (simp add: rows_of_def)

lemma nth_rows_of: "y < 25 \<Longrightarrow> rows_of b ! y = take 80 (drop (80 * y) b)"
  by (simp add: rows_of_def)

lemma rows_of_cell: "length b = 2000 \<Longrightarrow> y < 25 \<Longrightarrow> x < 80 \<Longrightarrow> rows_of b ! y ! x = b ! (80 * y + x)"
  by (simp add: nth_rows_of)

lemma length_row: "length b = 2000 \<Longrightarrow> y < 25 \<Longrightarrow> length (rows_of b ! y) = 80"
  by (simp add: nth_rows_of)

lemma cell_unique: "x < 80 \<Longrightarrow> j < 80 \<Longrightarrow> 80 * k + j = 80 * y + x \<longleftrightarrow> k = y \<and> j = (x :: nat)"
proof
  assume a: "x < 80" "j < 80" and eq: "80 * k + j = 80 * y + x"
  have "(80 * k + j) div 80 = k" "(80 * y + x) div 80 = y" using a by simp_all
  then have "k = y" unfolding eq by simp
  then show "k = y \<and> j = x" using eq by simp
qed simp

lemma rows_of_update:
  assumes "length b = 2000" and "y < 25" and "x < 80"
  shows "rows_of (b[80 * y + x := v]) = (rows_of b)[y := (rows_of b ! y)[x := v]]"
proof (rule nth_equalityI)
  fix k assume "k < length (rows_of (b[80 * y + x := v]))"
  then have k: "k < 25" by simp
  show "rows_of (b[80 * y + x := v]) ! k = (rows_of b)[y := (rows_of b ! y)[x := v]] ! k"
  proof (rule nth_equalityI)
    show "length (rows_of (b[80 * y + x := v]) ! k) = length ((rows_of b)[y := (rows_of b ! y)[x := v]] ! k)"
      using assms k by (simp add: nth_list_update length_row)
    fix j assume "j < length (rows_of (b[80 * y + x := v]) ! k)"
    then have j: "j < 80" using assms k by (simp add: length_row)
    have lt: "80 * k + j < 2000" using k j by simp
    show "rows_of (b[80 * y + x := v]) ! k ! j = (rows_of b)[y := (rows_of b ! y)[x := v]] ! k ! j"
      using cell_unique [OF assms(3) j, of k y] assms k j lt
      by (cases "k = y"; cases "j = x") (simp_all add: rows_of_cell length_row)
  qed
qed simp

lemma rows_of_blank: "rows_of (replicate 2000 v) = replicate 25 (replicate 80 v)"
  by (rule nth_equalityI) (simp_all add: nth_rows_of)

lemma rows_of_shift:
  assumes "length b = 2000"
  shows "rows_of (drop 80 b @ replicate 80 v) = tl (rows_of b) @ [replicate 80 v]"
proof (rule nth_equalityI)
  fix k assume "k < length (rows_of (drop 80 b @ replicate 80 v))"
  then have k: "k < 25" by simp
  show "rows_of (drop 80 b @ replicate 80 v) ! k = (tl (rows_of b) @ [replicate 80 v]) ! k"
  proof (cases "k < 24")
    case True
    then have "80 * k + 80 \<le> length (drop 80 b)" using assms by simp
    then have "take 80 (drop (80 * k) (drop 80 b @ replicate 80 v)) = take 80 (drop (80 * Suc k) b)"
      by (simp add: add.commute)
    then show ?thesis using True k by (simp add: nth_rows_of nth_append nth_tl)
  next
    case False
    then have "k = 24" using k by simp
    then show ?thesis using assms by (simp add: nth_rows_of nth_append)
  qed
qed simp

section \<open>The typewriter\<close>

text \<open>The specification: rows, the current row and the current column as numbers. The blank cell
  that scrolling shifts in has the current color.\<close>

type_synonym tty = "16 word list list \<times> nat \<times> nat"

definition tty_feed :: "16 word \<Rightarrow> 16 word list list \<Rightarrow> nat \<Rightarrow> tty" where
  "tty_feed blank rs r = (if r < 24 then (rs, Suc r, 0) else (tl rs @ [replicate 80 blank], 24, 0))"

fun tty_put :: "8 word \<Rightarrow> char \<Rightarrow> tty \<Rightarrow> tty" where
  "tty_put color ch (rs, r, c) =
     (let blank = vga_entry (uchar CHR '' '') color in
      if ch = CHR 0x0A then tty_feed blank rs r
      else if ch = CHR 0x0D then (rs, r, 0)
      else if ch = CHR 0x09 then
        (if c < 76 then (rs, r, (c div 4 + 1) * 4) else tty_feed blank rs r)
      else if ch = CHR 0x08 then
        (if c > 0 then (rs[r := (rs ! r)[c - 1 := blank]], r, c - 1) else (rs, r, c))
      else
        (let rs' = rs[r := (rs ! r)[c := vga_entry (uchar ch) color]] in
         if c < 79 then (rs', r, Suc c) else tty_feed blank rs' r))"

declare tty_put.simps [simp del]

definition tty_of :: "terminal \<Rightarrow> tty" where
  "tty_of t = (rows_of (terminal_buffer t), unat (terminal_row t), unat (terminal_column t))"

section \<open>The terminal refines the typewriter\<close>

lemma cell_index:
  assumes "y < VGA_HEIGHT" and "x < VGA_WIDTH"
  shows "unat (y * VGA_WIDTH + x) = 80 * unat y + unat x"
proof -
  have y: "unat y < 25" and x: "unat x < 80"
    using assms by (simp_all add: vga_consts word_less_nat_alt)
  then have m: "unat (y * VGA_WIDTH) = 80 * unat y"
    by (simp add: VGA_WIDTH_def unat_word_ariths)
  then show ?thesis using x y by (subst unat_add_lem [THEN iffD1]) (simp_all add: m)
qed

lemma put_cell_eq:
  assumes "y < VGA_HEIGHT" and "x < VGA_WIDTH" and "length (terminal_buffer t) = 2000"
  shows "put_cell y x v t = Some (t\<lparr>terminal_buffer := (terminal_buffer t)[80 * unat y + unat x := v]\<rparr>)"
proof -
  have "unat y < 25" "unat x < 80" using assms by (simp_all add: vga_consts word_less_nat_alt)
  then show ?thesis using assms by (simp add: put_cell_def cell_index)
qed

text \<open>The same with loop counters for the coordinates.\<close>

lemma put_cell_nat:
  assumes "y < 25" and "x < 80" and "length (terminal_buffer t) = 2000"
  shows "put_cell (of_nat y) (of_nat x) v t = Some (t\<lparr>terminal_buffer := (terminal_buffer t)[80 * y + x := v]\<rparr>)"
proof -
  have "unat (of_nat y :: 32 word) = y" "unat (of_nat x :: 32 word) = x"
    using assms by (simp_all add: unat_of_nat)
  then show ?thesis
    using put_cell_eq [of "of_nat y" "of_nat x" t v] assms by (simp add: vga_consts word_less_nat_alt)
qed

text \<open>Filling a row.\<close>

lemma fill_row:
  fixes f :: "8 word \<Rightarrow> 16 word"
  assumes "y < 25" and "length (terminal_buffer t) = 2000" and "n \<le> 80"
  shows "ofold (\<lambda>x t. put_cell (of_nat y) (of_nat x) (f (terminal_color t)) t) [0..<n] t =
    Some (t\<lparr>terminal_buffer := take (80 * y) (terminal_buffer t) @ replicate n (f (terminal_color t)) @
      drop (80 * y + n) (terminal_buffer t)\<rparr>)"
proof (rule ofold_upt_eq [where g = "\<lambda>n. t\<lparr>terminal_buffer := take (80 * y) (terminal_buffer t) @
    replicate n (f (terminal_color t)) @ drop (80 * y + n) (terminal_buffer t)\<rparr>"])
  fix i :: nat assume i: "0 \<le> i" "i < n"
  let ?b = "terminal_buffer t" and ?v = "f (terminal_color t)"
  let ?p = "take (80 * y) ?b @ replicate i ?v"
  have "80 * y + i < length ?b" "length ?p = 80 * y + i" using i assms by simp_all
  from overwrite_next [OF this, of ?v]
  have upd: "(take (80 * y) ?b @ replicate i ?v @ drop (80 * y + i) ?b)[80 * y + i := ?v] =
      take (80 * y) ?b @ replicate (Suc i) ?v @ drop (80 * y + Suc i) ?b"
    by (simp add: replicate_app_Cons_same)
  have "put_cell (of_nat y) (of_nat i) ?v (t\<lparr>terminal_buffer := take (80 * y) ?b @ replicate i ?v @ drop (80 * y + i) ?b\<rparr>) =
      Some (t\<lparr>terminal_buffer := (take (80 * y) ?b @ replicate i ?v @ drop (80 * y + i) ?b)[80 * y + i := ?v]\<rparr>)"
    using i assms by (subst put_cell_nat) simp_all
  then show "put_cell (of_nat y) (of_nat i)
      (f (terminal_color (t\<lparr>terminal_buffer := take (80 * y) ?b @ replicate i ?v @ drop (80 * y + i) ?b\<rparr>)))
      (t\<lparr>terminal_buffer := take (80 * y) ?b @ replicate i ?v @ drop (80 * y + i) ?b\<rparr>) =
      Some (t\<lparr>terminal_buffer := take (80 * y) ?b @ replicate (Suc i) ?v @ drop (80 * y + Suc i) ?b\<rparr>)"
    unfolding upd by simp
qed (use assms in simp_all)

lemma blank_screen_eq:
  assumes "length (terminal_buffer t) = 2000"
  shows "blank_screen t = Some (t\<lparr>terminal_buffer := replicate 2000 (vga_entry (uchar CHR '' '') (terminal_color t))\<rparr>)"
proof -
  let ?v = "vga_entry (uchar CHR '' '') (terminal_color t)" and ?b = "terminal_buffer t"
  have "ofold (\<lambda>y. ofold (\<lambda>x t. put_cell (of_nat y) (of_nat x) (vga_entry (uchar CHR '' '') (terminal_color t)) t)
       [0..<80]) [0..<25] t = Some (t\<lparr>terminal_buffer := replicate (80 * 25) ?v @ drop (80 * 25) ?b\<rparr>)"
  proof (rule ofold_upt_eq [where g = "\<lambda>y. t\<lparr>terminal_buffer := replicate (80 * y) ?v @ drop (80 * y) ?b\<rparr>"])
    fix y :: nat assume y: "0 \<le> y" "y < 25"
    have "replicate (80 * y) ?v @ replicate 80 ?v = replicate (80 * Suc y) ?v"
      by (simp add: add.commute flip: replicate_add)
    then show "ofold (\<lambda>x t. put_cell (of_nat y) (of_nat x) (vga_entry (uchar CHR '' '') (terminal_color t)) t) [0..<80]
      (t\<lparr>terminal_buffer := replicate (80 * y) ?v @ drop (80 * y) ?b\<rparr>) =
      Some (t\<lparr>terminal_buffer := replicate (80 * Suc y) ?v @ drop (80 * Suc y) ?b\<rparr>)"
      using y assms by (subst fill_row) (simp_all add: add.commute flip: append_assoc)
  qed (use assms in simp_all)
  then show ?thesis using assms by (simp add: blank_screen_def vga_consts)
qed

lemma scroll_loop:
  assumes "length b = 2000"
  shows "ofold (\<lambda>y. ofold (scroll_cell y) [0..<80]) [0..<24] b = Some (drop 80 b @ drop 1920 b)"
proof -
  let ?g = "\<lambda>n. take n (drop 80 b) @ drop n b"
  have cell: "scroll_cell y x (?g (80 * y + x)) = Some (?g (Suc (80 * y + x)))"
    if "y < 24" "x < 80" for y x
  proof -
    let ?n = "80 * y + x"
    have n: "?n < 1920" using that by simp
    have "?g ?n ! (80 + ?n) = b ! (80 + ?n)" using n assms by (simp add: nth_append ac_simps)
    then have "arr_get (?g ?n) ((y + 1) * 80 + x) = Some (b ! (80 + ?n))"
      using n assms by (simp add: algebra_simps)
    moreover have "(?g ?n)[?n := b ! (80 + ?n)] = ?g (Suc ?n)"
      using overwrite_next [of ?n b "take ?n (drop 80 b)" "b ! (80 + ?n)"] n assms
      by (simp add: take_Suc_conv_app_nth)
    ultimately show ?thesis using n assms by (simp add: scroll_cell_def VGA_WIDTH_def mult.commute)
  qed
  have row: "ofold (scroll_cell y) [0..<80] (?g (80 * y)) = Some (?g (80 * Suc y))" if "y < 24" for y
    using ofold_upt_eq [where a = 0 and b = 80 and g = "\<lambda>x. ?g (80 * y + x)" and f = "scroll_cell y"
        and s = "?g (80 * y)"] cell [OF that] by (simp add: add.commute)
  have "ofold (\<lambda>y. ofold (scroll_cell y) [0..<80]) [0..<24] b = Some (?g (80 * 24))"
    by (rule ofold_upt_eq [where g = "\<lambda>y. ?g (80 * y)"]) (use row in simp_all)
  then show ?thesis using assms by simp
qed

lemma terminal_scroll_eq:
  assumes "length (terminal_buffer t) = 2000"
  shows "terminal_scroll t = Some (t\<lparr>terminal_row := 24,
    terminal_buffer := drop 80 (terminal_buffer t) @ replicate 80 (vga_entry (uchar CHR '' '') (terminal_color t))\<rparr>)"
proof -
  let ?b = "terminal_buffer t"
  have "ofold (\<lambda>x t. put_cell (of_nat 24) (of_nat x) (vga_entry (uchar CHR '' '') (terminal_color t)) t) [0..<80]
      (t\<lparr>terminal_buffer := drop 80 ?b @ drop 1920 ?b\<rparr>) =
    Some (t\<lparr>terminal_buffer := drop 80 ?b @ replicate 80 (vga_entry (uchar CHR '' '') (terminal_color t))\<rparr>)"
    using assms by (subst fill_row) simp_all
  then show ?thesis using scroll_loop [OF assms] by (simp add: terminal_scroll_def vga_consts)
qed

lemma next_row_eq:
  assumes "terminal_row t < VGA_HEIGHT" and "length (terminal_buffer t) = 2000" and "terminal_column t = 0"
  shows "yields (next_row t) (\<lambda>t'. terminal_ok t' \<and> terminal_color t' = terminal_color t \<and>
    tty_of t' = tty_feed (vga_entry (uchar CHR '' '') (terminal_color t)) (rows_of (terminal_buffer t)) (unat (terminal_row t)))"
proof -
  have r: "unat (terminal_row t) < 25" using assms(1) by (simp add: VGA_HEIGHT_def word_less_nat_alt)
  then have suc: "unat (terminal_row t + 1) = Suc (unat (terminal_row t))"
    by (subst unat_add_lem [THEN iffD1]) simp_all
  have eq: "terminal_row t + 1 = VGA_HEIGHT \<longleftrightarrow> unat (terminal_row t) = 24"
    using suc by (simp add: VGA_HEIGHT_def word_unat_eq_iff)
  show ?thesis
  proof (cases "unat (terminal_row t) = 24")
    case True
    then show ?thesis
      using assms eq by (simp add: next_row_def Let_def terminal_scroll_eq terminal_ok_def vga_consts tty_of_def
          tty_feed_def rows_of_shift)
  next
    case False
    then show ?thesis
      using assms eq suc r by (simp add: next_row_def Let_def terminal_ok_def vga_consts tty_of_def tty_feed_def
          word_less_nat_alt)
  qed
qed

text \<open>Clearing the two low bits rounds down to a multiple of four.\<close>

lemma tab_stop:
  fixes w :: "32 word"
  shows "unat (w AND NOT 3) = unat w div 4 * 4"
proof -
  have "w AND NOT (mask 2) = push_bit 2 (drop_bit 2 w)"
    by (intro bit_word_eqI) (auto simp: bit_simps not_less le_iff_add)
  then have "w AND NOT 3 = push_bit 2 (drop_bit 2 w)" by (simp add: mask_eq_exp_minus_1)
  moreover have "unat w < 2 ^ 32" using unsigned_less [of w] by simp
  then have "unat w div 4 * 4 < 2 ^ 32" by simp
  then have "unat (push_bit 2 (drop_bit 2 w)) = unat w div 4 * 4"
    unfolding unsigned_push_bit_eq unsigned_drop_bit_eq
    by (simp add: push_bit_eq_mult drop_bit_eq_div take_bit_nat_eq_self del: push_bit_of_nat)
  ultimately show ?thesis by simp
qed

text \<open>Every character keeps the terminal on the screen and does what the typewriter does.\<close>

lemma terminal_putchar_refines:
  assumes ok: "terminal_ok t"
  shows "yields (terminal_putchar ch t) (\<lambda>t'. terminal_ok t' \<and> terminal_color t' = terminal_color t \<and>
    tty_of t' = tty_put (terminal_color t) ch (tty_of t))"
proof -
  let ?r = "unat (terminal_row t)" and ?c = "unat (terminal_column t)" and ?b = "terminal_buffer t"
  let ?blank = "vga_entry (uchar CHR '' '') (terminal_color t)"
  have row: "terminal_row t < VGA_HEIGHT" and col: "terminal_column t < VGA_WIDTH" and len: "length ?b = 2000"
    using ok by (simp_all add: terminal_ok_def)
  then have r: "?r < 25" and c: "?c < 80" by (simp_all add: vga_consts word_less_nat_alt)
  have feed: "yields (next_row u) (\<lambda>t'. terminal_ok t' \<and> terminal_color t' = terminal_color t \<and>
      tty_of t' = tty_feed ?blank (rows_of (terminal_buffer u)) ?r)"
    if "terminal_row u = terminal_row t" "length (terminal_buffer u) = 2000" "terminal_column u = 0"
      "terminal_color u = terminal_color t" for u
    using next_row_eq [of u] that row by simp
  consider (nl) "ch = CHR 0x0A" | (cr) "ch = CHR 0x0D" | (tab) "ch = CHR 0x09" | (bs) "ch = CHR 0x08"
    | (vis) "ch \<noteq> CHR 0x0A" "ch \<noteq> CHR 0x0D" "ch \<noteq> CHR 0x09" "ch \<noteq> CHR 0x08" by blast
  then show ?thesis
  proof cases
    case nl
    then show ?thesis using feed [of "t\<lparr>terminal_column := 0\<rparr>"] len
      by (simp add: terminal_putchar_def tty_of_def tty_put.simps)
  next
    case cr
    then show ?thesis using ok by (simp add: terminal_putchar_def tty_of_def tty_put.simps terminal_ok_def VGA_WIDTH_def)
  next
    case tab
    let ?w = "(terminal_column t + 4) AND NOT 3"
    have "unat (terminal_column t + 4) = ?c + 4"
      using c by (subst unat_add_lem [THEN iffD1]) simp_all
    moreover have "(?c + 4) div 4 = ?c div 4 + 1" by simp
    ultimately have w: "unat ?w = (?c div 4 + 1) * 4" unfolding tab_stop by simp
    show ?thesis
    proof (cases "?c < 76")
      case True
      then have "?w < VGA_WIDTH" using w by (simp add: VGA_WIDTH_def word_less_nat_alt)
      then show ?thesis using tab ok True w
        by (simp add: terminal_putchar_def Let_def tty_of_def tty_put.simps terminal_ok_def not_le [symmetric])
    next
      case False
      then have "VGA_WIDTH \<le> ?w" using w c by (simp add: VGA_WIDTH_def word_le_nat_alt)
      then show ?thesis using tab False feed [of "t\<lparr>terminal_column := 0\<rparr>"] len
        by (simp add: terminal_putchar_def Let_def tty_of_def tty_put.simps)
    qed
  next
    case bs
    show ?thesis
    proof (cases "?c = 0")
      case True
      then have "terminal_column t = 0" by (simp add: unat_eq_0)
      then show ?thesis using bs ok by (simp add: terminal_putchar_def tty_of_def tty_put.simps)
    next
      case False
      then have gt: "0 < terminal_column t" by (simp add: word_less_nat_alt)
      have "1 \<le> terminal_column t" using False by (simp add: word_le_nat_alt)
      then have w: "unat (terminal_column t - 1) = ?c - 1" by (simp add: unat_sub)
      then have lt: "terminal_column t - 1 < VGA_WIDTH" using c by (simp add: VGA_WIDTH_def word_less_nat_alt)
      show ?thesis using bs gt lt w False row len rows_of_update [OF len r, of "?c - 1"] c
        by (simp add: terminal_putchar_def Let_def terminal_putentryat_def put_cell_eq tty_of_def tty_put.simps terminal_ok_def)
    qed
  next
    case vis
    let ?b' = "?b[80 * ?r + ?c := vga_entry (uchar ch) (terminal_color t)]"
    have put: "terminal_putentryat ch (terminal_color t) (terminal_column t) (terminal_row t) t =
        Some (t\<lparr>terminal_buffer := ?b'\<rparr>)"
      using row col len by (simp add: terminal_putentryat_def put_cell_eq)
    have w: "unat (terminal_column t + 1) = Suc ?c"
      using c by (subst unat_add_lem [THEN iffD1]) simp_all
    then have eq: "terminal_column t + 1 = VGA_WIDTH \<longleftrightarrow> ?c = 79"
      by (simp add: VGA_WIDTH_def word_unat_eq_iff)
    note upd = rows_of_update [OF len r c, of "vga_entry (uchar ch) (terminal_color t)"]
    show ?thesis
    proof (cases "?c = 79")
      case True
      then show ?thesis using vis put eq len upd feed [of "t\<lparr>terminal_buffer := ?b', terminal_column := 0\<rparr>"]
        by (simp add: terminal_putchar_def Let_def tty_of_def tty_put.simps)
    next
      case False
      then have "terminal_column t + 1 < VGA_WIDTH" using w c by (simp add: VGA_WIDTH_def word_less_nat_alt)
      then show ?thesis using vis put eq w False c row len upd
        by (simp add: terminal_putchar_def Let_def tty_of_def tty_put.simps terminal_ok_def)
    qed
  qed
qed

section \<open>Printing to a character sink\<close>

text \<open>What the printing routines need of the device below them: a character operation that keeps an
  invariant and acts on the visible state as \<open>feed\<close> says.\<close>

locale char_sink =
  fixes inv :: "'t \<Rightarrow> bool"
    and view :: "'t \<Rightarrow> 'v"
    and putc :: "char \<Rightarrow> 't \<Rightarrow> 't option"
    and feed :: "char \<Rightarrow> 'v \<Rightarrow> 'v"
  assumes putc_refines: "inv t \<Longrightarrow> yields (putc c t) (\<lambda>t'. inv t' \<and> view t' = feed c (view t))"
begin

lemma write_prefix:
  assumes "inv t" and "n \<le> length data"
  shows "yields (ofold (\<lambda>i t. do { c \<leftarrow> arr_get data i; putc c t }) [0..<n] t)
    (\<lambda>t'. inv t' \<and> view t' = fold feed (take n data) (view t))"
proof (rule ofold_upt [where P = "\<lambda>i t'. inv t' \<and> view t' = fold feed (take i data) (view t)"])
  fix i u assume i: "0 \<le> i" "i < n" and u: "inv u \<and> view u = fold feed (take i data) (view t)"
  have "take (Suc i) data = take i data @ [data ! i]"
    using i assms(2) by (simp add: take_Suc_conv_app_nth)
  then show "yields (do { c \<leftarrow> arr_get data i; putc c u })
      (\<lambda>t'. inv t' \<and> view t' = fold feed (take (Suc i) data) (view t))"
    using i assms(2) u putc_refines [of u "data ! i"] by simp
qed (use assms in simp_all)

lemma write_string:
  assumes "inv t" and "terminated data"
  shows "yields (do { n \<leftarrow> strlen data; ofold (\<lambda>i t. do { c \<leftarrow> arr_get data i; putc c t }) [0..<n] t })
    (\<lambda>t'. inv t' \<and> view t' = fold feed (cstr data) (view t))"
proof -
  have "take (length (cstr data)) data = cstr data"
    by (metis append_eq_conv_conj assms(2) terminatedE)
  then show ?thesis
    using write_prefix [OF assms(1), of "length (cstr data)" data] length_cstr_le [of data] assms(2)
    by (simp add: strlen_eq)
qed

end

definition tty_view :: "terminal \<Rightarrow> 8 word \<times> tty" where
  "tty_view t = (terminal_color t, tty_of t)"

definition tty_step :: "char \<Rightarrow> 8 word \<times> tty \<Rightarrow> 8 word \<times> tty" where
  "tty_step ch v = (fst v, tty_put (fst v) ch (snd v))"

interpretation screen: char_sink terminal_ok tty_view terminal_putchar tty_step
  by unfold_locales (use terminal_putchar_refines in \<open>simp add: tty_view_def tty_step_def\<close>)

lemma fold_tty_step: "fold tty_step x (color, s) = (color, fold (tty_put color) x s)"
  by (induction x arbitrary: s) (simp_all add: tty_step_def)

lemma terminal_write_ok:
  assumes "terminal_ok t" and "n \<le> length data"
  shows "yields (terminal_write data n t) (\<lambda>t'. terminal_ok t' \<and> terminal_color t' = terminal_color t \<and>
    tty_of t' = fold (tty_put (terminal_color t)) (take n data) (tty_of t))"
  using screen.write_prefix [OF assms] unfolding terminal_write_def
  by (rule yields_mono) (simp add: tty_view_def fold_tty_step)

lemma terminal_writestring_ok:
  assumes "terminal_ok t" and "terminated data"
  shows "yields (terminal_writestring data t) (\<lambda>t'. terminal_ok t' \<and> terminal_color t' = terminal_color t \<and>
    tty_of t' = fold (tty_put (terminal_color t)) (cstr data) (tty_of t))"
  using screen.write_string [OF assms] unfolding terminal_writestring_def terminal_write_def
  by (rule yields_mono) (simp add: tty_view_def fold_tty_step)

lemma terminal_setcolor_ok: "terminal_ok t \<Longrightarrow> terminal_ok (terminal_setcolor color t)"
  by (simp add: terminal_ok_def terminal_setcolor_def)

lemma terminal_clear_eq:
  assumes "terminal_ok t"
  shows "terminal_clear t = Some (t\<lparr>terminal_row := 0, terminal_column := 0,
    terminal_buffer := replicate 2000 (vga_entry (uchar CHR '' '') (terminal_color t))\<rparr>)"
  using assms by (simp add: terminal_clear_def terminal_ok_def blank_screen_eq)

lemma terminal_clear_ok: "terminal_ok t \<Longrightarrow> yields (terminal_clear t) terminal_ok"
  by (simp add: terminal_clear_eq) (simp add: terminal_ok_def vga_consts)

text \<open>Characters that are drawn.\<close>

definition drawn :: "char \<Rightarrow> bool" where
  "drawn ch \<longleftrightarrow> ch \<notin> {CHR 0x0A, CHR 0x0D, CHR 0x09, CHR 0x08}"

lemma tty_text:
  assumes "\<forall>ch \<in> set x. drawn ch" and "c + length x < 80" and "r < length rs" and "length (rs ! r) = 80"
  shows "fold (tty_put color) x (rs, r, c) =
    (rs[r := take c (rs ! r) @ map (\<lambda>ch. vga_entry (uchar ch) color) x @ drop (c + length x) (rs ! r)], r, c + length x)"
  using assms
proof (induction x arbitrary: rs c)
  case (Cons ch x)
  let ?v = "vga_entry (uchar ch) color"
  let ?rs = "rs[r := (rs ! r)[c := ?v]]"
  have put: "tty_put color ch (rs, r, c) = (?rs, r, Suc c)"
    using Cons.prems by (simp add: tty_put.simps Let_def drawn_def)
  have row: "?rs ! r = (rs ! r)[c := ?v]" using Cons.prems by simp
  have "fold (tty_put color) x (?rs, r, Suc c) = (?rs[r := take (Suc c) (?rs ! r) @
      map (\<lambda>ch. vga_entry (uchar ch) color) x @ drop (Suc c + length x) (?rs ! r)], r, Suc c + length x)"
    using Cons.prems by (intro Cons.IH) auto
  then show ?case using Cons.prems unfolding row
    by (simp add: put take_Suc_conv_app_nth)
qed simp

section \<open>Theorems\<close>

text \<open>C12: the terminal refines a typewriter of 25 rows of 80 cells: on every character, control
  characters included, \<open>terminal_putchar\<close> is defined (it writes no cell outside the VGA memory),
  keeps row and column on the screen and has exactly the typewriter's effect on rows and cursor.\<close>

theorem putchar_refines_tty:
  assumes "terminal_ok t"
  shows "yields (terminal_putchar ch t) (\<lambda>t'. terminal_ok t' \<and> terminal_color t' = terminal_color t \<and>
    tty_of t' = tty_put (terminal_color t) ch (tty_of t))"
  using assms by (rule terminal_putchar_refines)

text \<open>Printing a terminated string feeds its characters to the typewriter one by one, however
  long it is and wherever the cursor stands.\<close>

theorem writestring_refines_tty:
  assumes "terminal_ok t" and "terminated data"
  shows "yields (terminal_writestring data t) (\<lambda>t'. terminal_ok t' \<and> terminal_color t' = terminal_color t \<and>
    tty_of t' = fold (tty_put (terminal_color t)) (cstr data) (tty_of t))"
  using assms by (rule terminal_writestring_ok)

text \<open>A text of drawable characters that ends before the last column appears in the current row
  from the cursor on, in the current color, and the cursor stands behind it; all other cells are as
  before.\<close>

theorem writestring_shows_text:
  assumes "terminal_ok t" and "tty_of t = (rs, r, c)" and "\<forall>ch \<in> set x. drawn ch" and "NUL \<notin> set x"
    and "c + length x < 80"
  shows "yields (terminal_writestring (lit x) t) (\<lambda>t'. tty_of t' =
    (rs[r := take c (rs ! r) @ map (\<lambda>ch. vga_entry (uchar ch) (terminal_color t)) x @ drop (c + length x) (rs ! r)],
     r, c + length x))"
proof -
  have "r < 25" "length (rs ! r) = 80" "length rs = 25"
    using assms(1,2) by (auto simp: tty_of_def terminal_ok_def vga_consts word_less_nat_alt length_row)
  then show ?thesis
    using terminal_writestring_ok [OF assms(1) terminated_lit, of x] assms(2-5)
    by (auto simp: cstr_lit tty_text elim!: yields_mono)
qed

text \<open>\<open>terminal_initialize\<close> fills the VGA memory with blanks in light grey on black and puts
  the cursor home, whatever the memory and the statics held before.\<close>

theorem terminal_initialize_blank:
  assumes "length vga = 2000"
  shows "yields (terminal_initialize vga t) (\<lambda>t'. terminal_ok t' \<and>
    terminal_color t' = vga_entry_color VGA_COLOR_LIGHT_GREY VGA_COLOR_BLACK \<and>
    tty_of t' = (replicate 25 (replicate 80 (vga_entry (uchar CHR '' '') 7)), 0, 0))"
proof -
  have "vga_entry_color VGA_COLOR_LIGHT_GREY VGA_COLOR_BLACK = 7" by (simp add: vga_entry_color_def)
  then show ?thesis using assms
    by (simp add: terminal_initialize_def blank_screen_eq terminal_ok_def vga_consts tty_of_def rows_of_blank)
qed

text \<open>C40: a VGA cell keeps its character in the low byte and its color in the high byte, and a color
  keeps the foreground in the low and the background in the high nibble: both can be read back.\<close>

theorem vga_entry_fields:
  "ucast (vga_entry ch color) = ch \<and> ucast (drop_bit 8 (vga_entry ch color)) = color \<and>
   ucast (vga_entry_color fg bg AND 15) = vga_code fg \<and> ucast (drop_bit 4 (vga_entry_color fg bg)) = vga_code bg"
proof (intro conjI)
  show "ucast (vga_entry ch color) = ch"
    by (rule bit_word_eqI) (simp add: vga_entry_def bit_simps)
  show "ucast (drop_bit 8 (vga_entry ch color)) = color"
    by (rule bit_word_eqI) (auto simp: vga_entry_def bit_simps dest: bit_imp_le_length)
  show "ucast (vga_entry_color fg bg AND 15) = vga_code fg"
    by (cases fg; cases bg) (simp_all add: vga_entry_color_def)
  show "ucast (drop_bit 4 (vga_entry_color fg bg)) = vga_code bg"
    by (cases fg; cases bg) (simp_all add: vga_entry_color_def)
qed

text \<open>The booted terminal, for use as a concrete input.\<close>

definition demo_terminal :: terminal where
  "demo_terminal = \<lparr>terminal_row = 0, terminal_column = 0, terminal_color = 7,
     terminal_buffer = replicate 2000 (vga_entry (uchar CHR '' '') 7)\<rparr>"

lemma demo_terminal:
  shows demo_terminal_ok: "terminal_ok demo_terminal"
    and demo_tty: "tty_of demo_terminal = (replicate 25 (replicate 80 (vga_entry (uchar CHR '' '') 7)), 0, 0)"
    and demo_color: "terminal_color demo_terminal = 7"
  by (simp_all add: demo_terminal_def terminal_ok_def vga_consts tty_of_def rows_of_blank)

theorem putchar_refines_tty_witness:
  "yields (terminal_putchar CHR 0x09 demo_terminal) (\<lambda>t'. terminal_ok t' \<and> snd (tty_of t') = (0, 4))"
  using putchar_refines_tty [OF demo_terminal_ok, of "CHR 0x09"]
  by (auto simp: demo_tty demo_color tty_put.simps Let_def elim!: yields_mono)

theorem writestring_refines_tty_witness:
  "yields (terminal_writestring (lit [CHR ''a'', CHR 0x0A]) demo_terminal) (\<lambda>t'. snd (tty_of t') = (1, 0))"
  using writestring_refines_tty [OF demo_terminal_ok terminated_lit, of "[CHR ''a'', CHR 0x0A]"]
  by (auto simp: demo_tty demo_color cstr_lit tty_put.simps Let_def tty_feed_def elim!: yields_mono)

theorem writestring_shows_text_witness:
  "yields (terminal_writestring (lit ''ok'') demo_terminal)
    (\<lambda>t'. take 3 (hd (fst (tty_of t'))) = map (\<lambda>ch. vga_entry (uchar ch) 7) ''ok '')"
  using writestring_shows_text [OF demo_terminal_ok demo_tty, of "''ok''"]
  by (auto simp: drawn_def demo_color hd_conv_nth elim!: yields_mono)

theorem terminal_initialize_blank_witness:
  "yields (terminal_initialize (replicate 2000 0) demo_terminal) (\<lambda>t'. terminal_ok t' \<and> snd (tty_of t') = (0, 0))"
  using terminal_initialize_blank [of "replicate 2000 0" demo_terminal] by (auto elim!: yields_mono)

end
