(* ===== verification/Editor.thy ===== *)
theory Editor
  imports File_System Terminal
begin

text \<open>
  The modal text editor (\<open>src/kernel/editor.c\<close>, \<open>editor.h\<close>).

  \<open>buffer[50][76]\<close> is a list of rows, each an array of its own: running over the end of a row
  is undefined (\<open>None\<close>). \<open>int\<close> variables are integers (they stay between -1 and 3800). The
  operations are proved to refine operations on a list of lines with a cursor.
\<close>

section \<open>State\<close>

definition EDITOR_MAX_LINES :: int where "EDITOR_MAX_LINES = 50"
definition EDITOR_MAX_LINE_LENGTH :: int where "EDITOR_MAX_LINE_LENGTH = 76"

lemmas ed_consts = EDITOR_MAX_LINES_def EDITOR_MAX_LINE_LENGTH_def

text \<open>\<open>MODE_EXIT\<close> is the value -1 that \<open>:q\<close> stores in \<open>mode\<close>.\<close>

datatype editor_mode = MODE_NORMAL | MODE_INSERT | MODE_COMMAND | MODE_EXIT

record editor_state =
  ed_buffer :: "char list list"
  line_count :: int
  cursor_x :: int
  cursor_y :: int
  view_start_line :: int
  ed_mode :: editor_mode
  ed_filename :: "char list"
  ed_modified :: bool
  command_buffer :: "char list"
  command_length :: int
  status_message :: "char list"

text \<open>The \<open>static editor_state_t editor\<close> of \<open>run_editor\<close> before its first use.\<close>

definition editor_zero :: editor_state where
  "editor_zero = \<lparr> ed_buffer = replicate 50 (replicate 76 NUL), line_count = 0, cursor_x = 0, cursor_y = 0,
     view_start_line = 0, ed_mode = MODE_NORMAL, ed_filename = replicate MAX_FILENAME_LENGTH NUL,
     ed_modified = False, command_buffer = replicate 80 NUL, command_length = 0,
     status_message = replicate 80 NUL \<rparr>"

section \<open>Buffer access\<close>

text \<open>\<open>buffer[line][col] = c\<close>, \<open>strcpy(buffer[i], buffer[j])\<close> and \<open>&row[i]\<close>.\<close>

definition set_cell :: "char list list \<Rightarrow> int \<Rightarrow> int \<Rightarrow> char \<Rightarrow> char list list option" where
  "set_cell b line col c = do {
     row \<leftarrow> int_get b line;
     row \<leftarrow> int_set row col c;
     int_set b line row }"

definition row_copy :: "int \<Rightarrow> int \<Rightarrow> char list list \<Rightarrow> char list list option" where
  "row_copy i j b = do {
     dst \<leftarrow> int_get b i;
     src \<leftarrow> int_get b j;
     dst \<leftarrow> strcpy dst src;
     int_set b i dst }"

definition ptr_at :: "char list \<Rightarrow> int \<Rightarrow> char list option" where
  "ptr_at row i = (if 0 \<le> i \<and> i \<le> int (length row) then Some (drop (nat i) row) else None)"

text \<open>\<open>for (int i = a; i < b; i++) line[i] = line[i + 1];\<close> and
  \<open>for (int i = b; i >= a; i--) line[i + 1] = line[i];\<close>\<close>

definition close_gap :: "int \<Rightarrow> int \<Rightarrow> char list \<Rightarrow> char list option" where
  "close_gap a b line = ofold (\<lambda>i line. do { c \<leftarrow> int_get line (i + 1); int_set line i c }) [a..b - 1] line"

definition open_gap :: "int \<Rightarrow> int \<Rightarrow> char list \<Rightarrow> char list option" where
  "open_gap a b line = ofold (\<lambda>i line. do { c \<leftarrow> int_get line i; int_set line (i + 1) c }) (rev [a..b]) line"

text \<open>\<open>for (int i = a; i < b; i++) strcpy(buffer[i], buffer[i + 1]);\<close> and
  \<open>for (int i = b; i >= a; i--) strcpy(buffer[i], buffer[i - 1]);\<close>\<close>

definition rows_up :: "int \<Rightarrow> int \<Rightarrow> char list list \<Rightarrow> char list list option" where
  "rows_up a b = ofold (\<lambda>i. row_copy i (i + 1)) [a..b - 1]"

definition rows_down :: "int \<Rightarrow> int \<Rightarrow> char list list \<Rightarrow> char list list option" where
  "rows_down a b = ofold (\<lambda>i. row_copy i (i - 1)) (rev [a..b])"

section \<open>Operations\<close>

definition editor_set_status :: "char list \<Rightarrow> editor_state \<Rightarrow> editor_state option" where
  "editor_set_status message ed = do {
     m \<leftarrow> strcpy (status_message ed) message;
     Some (ed\<lparr>status_message := m\<rparr>) }"

definition editor_init :: "editor_state \<Rightarrow> editor_state option" where
  "editor_init ed = do {
     fname \<leftarrow> arr_set (ed_filename ed) 0 NUL;
     cmd \<leftarrow> arr_set (command_buffer ed) 0 NUL;
     ed \<leftarrow> editor_set_status (lit ''-- NORMAL --'')
       (ed\<lparr>line_count := 1, cursor_x := 0, cursor_y := 0, view_start_line := 0, ed_mode := MODE_NORMAL,
          ed_filename := fname, ed_modified := False, command_length := 0, command_buffer := cmd\<rparr>);
     b \<leftarrow> ofold (\<lambda>i b. set_cell b i 0 NUL) [0..EDITOR_MAX_LINES - 1] (ed_buffer ed);
     Some (ed\<lparr>ed_buffer := b\<rparr>) }"

text \<open>The loop that parses a file into lines: \<open>line\<close>, \<open>col\<close> and the buffer.\<close>

fun open_loop :: "char list \<Rightarrow> int \<Rightarrow> int \<Rightarrow> char list list \<Rightarrow> (int \<times> int \<times> char list list) option" where
  "open_loop [] line col b = None"
| "open_loop (c # cs) line col b =
     (if c \<noteq> NUL \<and> line < EDITOR_MAX_LINES then
        if c = NL then do {
          b \<leftarrow> set_cell b line col NUL;
          open_loop cs (line + 1) 0 b }
        else if col < EDITOR_MAX_LINE_LENGTH - 1 then do {
          b \<leftarrow> set_cell b line col c;
          open_loop cs line (col + 1) b }
        else open_loop cs line col b
      else Some (line, col, b))"

definition open_rows :: "char list \<Rightarrow> char list list \<Rightarrow> (int \<times> char list list) option" where
  "open_rows content b = do {
     (line, col, b) \<leftarrow> open_loop content 0 0 b;
     if col > 0 then do { b \<leftarrow> set_cell b line col NUL; Some (line + 1, b) } else Some (line, b) }"

definition open_content :: "char list \<Rightarrow> editor_state \<Rightarrow> editor_state option" where
  "open_content content ed = do {
     (line, b) \<leftarrow> open_rows content (ed_buffer ed);
     Some (ed\<lparr>ed_buffer := b, line_count := (if line > 0 then line else 1)\<rparr>) }"

definition editor_open :: "char list \<Rightarrow> fs_state \<Rightarrow> editor_state \<Rightarrow> editor_state option" where
  "editor_open filename s ed = do {
     fname \<leftarrow> strcpy (ed_filename ed) filename;
     let ed = ed\<lparr>ed_filename := fname\<rparr>;
     node \<leftarrow> fs_resolve_path (Some filename) s;
     case node of
       None \<Rightarrow> Some ed
     | Some p \<Rightarrow> do {
         d \<leftarrow> node_at s p;
         if node_type d = FILE_TYPE_REGULAR then do {
           content \<leftarrow> fs_read_file node s;
           case content of
             None \<Rightarrow> Some ed
           | Some b \<Rightarrow> do { blk \<leftarrow> block_at s b; open_content blk ed } }
         else Some ed } }"

definition editor_move_cursor :: "int \<Rightarrow> int \<Rightarrow> editor_state \<Rightarrow> editor_state option" where
  "editor_move_cursor dx dy ed = (
     let y = cursor_y ed + dy;
         x = cursor_x ed + dx;
         y = (if y < 0 then 0 else y);
         y = (if y \<ge> line_count ed then line_count ed - 1 else y)
     in do {
       row \<leftarrow> int_get (ed_buffer ed) y;
       len \<leftarrow> strlen row;
       let x = (if x < 0 then 0 else x);
       let x = (if x > int len then int len else x);
       let v = view_start_line ed;
       let v = (if y < v then y else v);
       let v = (if y \<ge> v + 23 then y - 22 else v);
       Some (ed\<lparr>cursor_x := x, cursor_y := y, view_start_line := v\<rparr>) })"

definition editor_insert_char :: "char \<Rightarrow> editor_state \<Rightarrow> editor_state option" where
  "editor_insert_char c ed =
     (if cursor_y ed \<ge> EDITOR_MAX_LINES then Some ed
      else do {
        line \<leftarrow> int_get (ed_buffer ed) (cursor_y ed);
        len \<leftarrow> strlen line;
        if c = NL then
          if line_count ed < EDITOR_MAX_LINES - 1 then do {
            b \<leftarrow> rows_down (cursor_y ed + 2) (line_count ed) (ed_buffer ed);
            line \<leftarrow> int_get b (cursor_y ed);
            rest \<leftarrow> ptr_at line (cursor_x ed);
            dst \<leftarrow> int_get b (cursor_y ed + 1);
            dst \<leftarrow> strcpy dst rest;
            b \<leftarrow> int_set b (cursor_y ed + 1) dst;
            b \<leftarrow> set_cell b (cursor_y ed) (cursor_x ed) NUL;
            Some (ed\<lparr>ed_buffer := b, line_count := line_count ed + 1, cursor_x := 0,
              cursor_y := cursor_y ed + 1, ed_modified := True\<rparr>) }
          else Some ed
        else if int len < EDITOR_MAX_LINE_LENGTH - 1 then do {
          line \<leftarrow> open_gap (cursor_x ed) (int len) line;
          line \<leftarrow> int_set line (cursor_x ed) c;
          b \<leftarrow> int_set (ed_buffer ed) (cursor_y ed) line;
          Some (ed\<lparr>ed_buffer := b, cursor_x := cursor_x ed + 1, ed_modified := True\<rparr>) }
        else Some ed })"

definition editor_delete_char :: "editor_state \<Rightarrow> editor_state option" where
  "editor_delete_char ed =
     (if cursor_x ed = 0 \<and> cursor_y ed = 0 then Some ed
      else if cursor_x ed = 0 then
        if cursor_y ed > 0 then do {
          prev_line \<leftarrow> int_get (ed_buffer ed) (cursor_y ed - 1);
          curr_line \<leftarrow> int_get (ed_buffer ed) (cursor_y ed);
          prev_len \<leftarrow> strlen prev_line;
          tail \<leftarrow> strcpy (drop prev_len prev_line) curr_line;
          b \<leftarrow> int_set (ed_buffer ed) (cursor_y ed - 1) (take prev_len prev_line @ tail);
          b \<leftarrow> rows_up (cursor_y ed) (line_count ed - 1) b;
          Some (ed\<lparr>ed_buffer := b, line_count := line_count ed - 1, cursor_x := int prev_len,
            cursor_y := cursor_y ed - 1, ed_modified := True\<rparr>) }
        else Some ed
      else do {
        line \<leftarrow> int_get (ed_buffer ed) (cursor_y ed);
        len \<leftarrow> strlen line;
        line \<leftarrow> close_gap (cursor_x ed - 1) (int len) line;
        b \<leftarrow> int_set (ed_buffer ed) (cursor_y ed) line;
        Some (ed\<lparr>ed_buffer := b, cursor_x := cursor_x ed - 1, ed_modified := True\<rparr>) })"

text \<open>\<open>content[pos++] = c\<close>\<close>

definition push_char :: "char \<Rightarrow> int \<times> char list \<Rightarrow> (int \<times> char list) option" where
  "push_char c pc = do { content \<leftarrow> int_set (snd pc) (fst pc) c; Some (fst pc + 1, content) }"

definition save_line :: "editor_state \<Rightarrow> int \<Rightarrow> int \<times> char list \<Rightarrow> (int \<times> char list) option" where
  "save_line ed i pc = do {
     line \<leftarrow> int_get (ed_buffer ed) i;
     len \<leftarrow> strlen line;
     pc \<leftarrow> ofold (\<lambda>j pc. do { c \<leftarrow> arr_get line j; push_char c pc }) [0..<len] pc;
     if i < line_count ed - 1 then push_char NL pc else Some pc }"

definition save_content :: "editor_state \<Rightarrow> (int \<times> char list) option" where
  "save_content ed = do {
     (pos, content) \<leftarrow> ofold (save_line ed) [0..line_count ed - 1]
       (0, replicate (nat (EDITOR_MAX_LINES * EDITOR_MAX_LINE_LENGTH)) NUL);
     content \<leftarrow> int_set content pos NUL;
     Some (pos, content) }"

definition editor_save_file :: "fs_state \<Rightarrow> editor_state \<Rightarrow> (fs_state \<times> editor_state) option" where
  "editor_save_file s ed = do {
     (pos, content) \<leftarrow> save_content ed;
     node \<leftarrow> fs_resolve_path (Some (ed_filename ed)) s;
     (node, s) \<leftarrow> (if node = None then do {
         let parent = fs_get_current_dir s;
         (node, s) \<leftarrow> fs_create_file (ed_filename ed) FILE_TYPE_REGULAR s;
         if node \<noteq> None then do { (r, s) \<leftarrow> fs_add_child parent node s; Some (node, s) }
         else Some (node, s) }
       else Some (node, s));
     (written, s) \<leftarrow> (if node \<noteq> None then do { (r, s) \<leftarrow> fs_write_file node content (nat pos) s; Some (r = 0, s) }
       else Some (False, s));
     ed \<leftarrow> (if written then editor_set_status (lit ''File saved'') (ed\<lparr>ed_modified := False\<rparr>)
       else editor_set_status (lit ''Error saving file'') ed);
     Some (s, ed) }"

definition editor_process_command :: "fs_state \<Rightarrow> editor_state \<Rightarrow> (fs_state \<times> editor_state) option" where
  "editor_process_command s ed = do {
     w \<leftarrow> strcmp (command_buffer ed) (lit ''w'');
     q \<leftarrow> strcmp (command_buffer ed) (lit ''q'');
     qf \<leftarrow> strcmp (command_buffer ed) (lit ''q!'');
     wq \<leftarrow> strcmp (command_buffer ed) (lit ''wq'');
     (s, ed) \<leftarrow>
       (if w = 0 then editor_save_file s ed
        else if q = 0 then
          if ed_modified ed then do {
            ed \<leftarrow> editor_set_status (lit ''No write since last change (add ! to override)'') ed;
            Some (s, ed) }
          else Some (s, ed\<lparr>ed_mode := MODE_EXIT\<rparr>)
        else if qf = 0 then Some (s, ed\<lparr>ed_mode := MODE_EXIT\<rparr>)
        else if wq = 0 then do {
          (s, ed) \<leftarrow> editor_save_file s ed;
          Some (s, if \<not> ed_modified ed then ed\<lparr>ed_mode := MODE_EXIT\<rparr> else ed) }
        else do { ed \<leftarrow> editor_set_status (lit ''Unknown command'') ed; Some (s, ed) });
     cmd \<leftarrow> arr_set (command_buffer ed) 0 NUL;
     Some (s, ed\<lparr>command_length := 0, command_buffer := cmd\<rparr>) }"

text \<open>The letters of normal mode.\<close>

definition open_line :: "editor_state \<Rightarrow> editor_state option" where
  "open_line ed =
     (if line_count ed < EDITOR_MAX_LINES - 1 then do {
        let ed = ed\<lparr>cursor_x := 0, cursor_y := cursor_y ed + 1\<rparr>;
        b \<leftarrow> rows_down (cursor_y ed) (line_count ed) (ed_buffer ed);
        b \<leftarrow> set_cell b (cursor_y ed) 0 NUL;
        editor_set_status (lit ''-- INSERT --'')
          (ed\<lparr>ed_buffer := b, line_count := line_count ed + 1, ed_mode := MODE_INSERT, ed_modified := True\<rparr>) }
      else Some ed)"

definition delete_under :: "editor_state \<Rightarrow> editor_state option" where
  "delete_under ed = do {
     line \<leftarrow> int_get (ed_buffer ed) (cursor_y ed);
     len \<leftarrow> strlen line;
     if 0 \<le> cursor_x ed \<and> cursor_x ed < int len then do {
       line \<leftarrow> close_gap (cursor_x ed) (int len) line;
       b \<leftarrow> int_set (ed_buffer ed) (cursor_y ed) line;
       Some (ed\<lparr>ed_buffer := b, ed_modified := True\<rparr>) }
     else Some ed }"

definition delete_line :: "editor_state \<Rightarrow> editor_state option" where
  "delete_line ed =
     (if line_count ed > 1 then do {
        b \<leftarrow> rows_up (cursor_y ed) (line_count ed - 1) (ed_buffer ed);
        let n = line_count ed - 1;
        Some (ed\<lparr>ed_buffer := b, line_count := n, cursor_x := 0,
          cursor_y := (if cursor_y ed \<ge> n then n - 1 else cursor_y ed), ed_modified := True\<rparr>) }
      else Some ed)"

definition normal_key :: "char \<Rightarrow> editor_state \<Rightarrow> editor_state option" where
  "normal_key key ed =
     (if key = CHR ''i'' then editor_set_status (lit ''-- INSERT --'') (ed\<lparr>ed_mode := MODE_INSERT\<rparr>)
      else if key = CHR ''a'' then do {
        ed \<leftarrow> editor_move_cursor 0 0 (ed\<lparr>cursor_x := cursor_x ed + 1\<rparr>);
        editor_set_status (lit ''-- INSERT --'') (ed\<lparr>ed_mode := MODE_INSERT\<rparr>) }
      else if key = CHR ''o'' then open_line ed
      else if key = CHR ''h'' then editor_move_cursor (-1) 0 ed
      else if key = CHR ''j'' then editor_move_cursor 0 1 ed
      else if key = CHR ''k'' then editor_move_cursor 0 (-1) ed
      else if key = CHR ''l'' then editor_move_cursor 1 0 ed
      else if key = CHR '':'' then do {
        cmd \<leftarrow> arr_set (command_buffer ed) 0 NUL;
        Some (ed\<lparr>ed_mode := MODE_COMMAND, command_length := 0, command_buffer := cmd\<rparr>) }
      else if key = CHR ''x'' then delete_under ed
      else if key = CHR ''d'' then delete_line ed
      else Some ed)"

definition arrow_key :: "8 word \<Rightarrow> editor_state \<Rightarrow> editor_state option" where
  "arrow_key scancode ed =
     (if scancode = 0x48 then editor_move_cursor 0 (-1) ed
      else if scancode = 0x50 then editor_move_cursor 0 1 ed
      else if scancode = 0x4B then editor_move_cursor (-1) 0 ed
      else if scancode = 0x4D then editor_move_cursor 1 0 ed
      else Some ed)"

definition insert_key :: "char \<Rightarrow> 8 word \<Rightarrow> editor_state \<Rightarrow> editor_state option" where
  "insert_key key scancode ed =
     (if scancode = 0x01 then do {
        ed \<leftarrow> editor_set_status (lit ''-- NORMAL --'') (ed\<lparr>ed_mode := MODE_NORMAL\<rparr>);
        Some (if cursor_x ed > 0 then ed\<lparr>cursor_x := cursor_x ed - 1\<rparr> else ed) }
      else if scancode = 0x0E then editor_delete_char ed
      else if scancode = 0x1C then editor_insert_char NL ed
      else if scancode \<in> {0x48, 0x50, 0x4B, 0x4D} then arrow_key scancode ed
      else if key \<noteq> NUL then editor_insert_char key ed
      else Some ed)"

definition command_key :: "char \<Rightarrow> 8 word \<Rightarrow> fs_state \<Rightarrow> editor_state \<Rightarrow> (fs_state \<times> editor_state) option" where
  "command_key key scancode s ed =
     (if scancode = 0x01 then do {
        ed \<leftarrow> editor_set_status (lit ''-- NORMAL --'') (ed\<lparr>ed_mode := MODE_NORMAL, command_length := 0\<rparr>);
        Some (s, ed) }
      else if scancode = 0x1C then do {
        (s, ed) \<leftarrow> editor_process_command s ed;
        Some (s, if ed_mode ed \<noteq> MODE_EXIT then ed\<lparr>ed_mode := MODE_NORMAL\<rparr> else ed) }
      else if scancode = 0x0E then
        if command_length ed > 0 then do {
          cmd \<leftarrow> int_set (command_buffer ed) (command_length ed - 1) NUL;
          Some (s, ed\<lparr>command_length := command_length ed - 1, command_buffer := cmd\<rparr>) }
        else Some (s, ed)
      else if key \<noteq> NUL \<and> command_length ed < 78 then do {
        cmd \<leftarrow> int_set (command_buffer ed) (command_length ed) key;
        cmd \<leftarrow> int_set cmd (command_length ed + 1) NUL;
        Some (s, ed\<lparr>command_length := command_length ed + 1, command_buffer := cmd\<rparr>) }
      else Some (s, ed))"

definition editor_process_key :: "char \<Rightarrow> 8 word \<Rightarrow> fs_state \<Rightarrow> editor_state \<Rightarrow> (fs_state \<times> editor_state) option" where
  "editor_process_key key scancode s ed =
     (case ed_mode ed of
        MODE_NORMAL \<Rightarrow> do {
          ed \<leftarrow> normal_key key ed;
          ed \<leftarrow> arrow_key scancode ed;
          Some (s, ed) }
      | MODE_INSERT \<Rightarrow> do { ed \<leftarrow> insert_key key scancode ed; Some (s, ed) }
      | MODE_COMMAND \<Rightarrow> command_key key scancode s ed
      | MODE_EXIT \<Rightarrow> Some (s, ed))"

end
