(* ===== verification/Editor_Text.thy ===== *)
theory Editor_Text
  imports Editor
begin

text \<open>
  The editor's buffer as a list of lines. Every editing operation is shown to keep the editor's
  invariant (\<open>ed_ok\<close>) and to refine an operation on the lines and the cursor.
\<close>

section \<open>Rows and their texts\<close>

definition rows_ok :: "char list list \<Rightarrow> bool" where
  "rows_ok b \<longleftrightarrow> length b = 50 \<and> (\<forall>r \<in> set b. length r = 76 \<and> terminated r)"

definition texts :: "char list list \<Rightarrow> string list" where
  "texts b = map cstr b"

lemma rows_okD:
  assumes "rows_ok b" and "i < 50"
  shows "length (b ! i) = 76" and "terminated (b ! i)" and "texts b ! i = cstr (b ! i)"
    and "length (texts b ! i) < 76" and "NUL \<notin> set (texts b ! i)"
proof -
  have "i < length b" using assms by (simp add: rows_ok_def)
  then have r: "b ! i \<in> set b" by simp
  then show l: "length (b ! i) = 76" and t: "terminated (b ! i)" using assms by (simp_all add: rows_ok_def)
  show x: "texts b ! i = cstr (b ! i)" using \<open>i < length b\<close> by (simp add: texts_def)
  show "length (texts b ! i) < 76" unfolding x using length_cstr_less [OF t] l by simp
  show "NUL \<notin> set (texts b ! i)" unfolding x by simp
qed

lemma length_texts [simp]: "length (texts b) = length b"
  by (simp add: texts_def)

lemma rows_ok_length: "rows_ok b \<Longrightarrow> length b = 50"
  by (simp add: rows_ok_def)

lemma rows_ok_update:
  assumes "rows_ok b" and "i < 50" and "length r = 76" and "terminated r"
  shows "rows_ok (b[i := r])" and "texts (b[i := r]) = (texts b)[i := cstr r]"
  using assms by (auto simp: rows_ok_def texts_def map_update dest: set_update_subset_insert [THEN subsetD])

text \<open>Writing a row whose text is known.\<close>

lemma set_row_eq:
  assumes "rows_ok b" and "0 \<le> i" and "i < 50" and "length r = 76" and "terminated r" and "cstr r = x"
  shows "yields (int_set b i r) (\<lambda>b'. rows_ok b' \<and> texts b' = (texts b)[nat i := x])"
  using rows_ok_update [of b "nat i" r] assms by (simp add: int_set_Some rows_ok_length)

lemma get_row_eq:
  assumes "rows_ok b" and "0 \<le> i" and "i < 50"
  shows "int_get b i = Some (b ! nat i)"
  using assms by (simp add: int_get_Some rows_ok_length)

lemma row_copy_eq:
  assumes ok: "rows_ok b" and i: "0 \<le> i" "i < 50" and j: "0 \<le> j" "j < 50"
  shows "yields (row_copy i j b) (\<lambda>b'. rows_ok b' \<and> texts b' = (texts b)[nat i := texts b ! nat j])"
proof -
  have ij: "nat i < 50" "nat j < 50" using i j by simp_all
  note ri = rows_okD [OF ok ij(1)] and rj = rows_okD [OF ok ij(2)]
  obtain d where d: "strcpy (b ! nat i) (b ! nat j) = Some d" "length d = length (b ! nat i)"
    "terminated d" "cstr d = cstr (b ! nat j)"
    using strcpy_fits [OF rj(2), of "b ! nat i"] rj ri by (auto elim!: yieldsE)
  then show ?thesis
    using set_row_eq [OF ok i, of d "texts b ! nat j"] ri rj ok i j by (simp add: row_copy_def get_row_eq)
qed

text \<open>Shifting rows shifts their texts.\<close>

lemma rows_up_eq:
  assumes ok: "rows_ok b" and "0 \<le> i" and "i \<le> m" and "m < 50"
  shows "yields (rows_up i m b) (\<lambda>b'. rows_ok b' \<and>
    (\<forall>k < 50. texts b' ! k = (if nat i \<le> k \<and> k < nat m then texts b ! Suc k else texts b ! k)))"
proof -
  obtain p n where pn: "i = int p" "m = int n" using assms by (metis nonneg_int_cases order_trans)
  let ?T = "texts b"
  let ?T' = "take p ?T @ take (n - p) (drop (Suc p) ?T) @ drop n ?T"
  have "ofold shift_left_step [p..<n] ?T = Some ?T'"
    using assms by (intro shift_left) (simp_all add: pn rows_ok_length)
  moreover have "yields (row_copy (int x) (int x + 1) s) (\<lambda>s'. rows_ok s' \<and> texts s' = t')"
    if "x \<in> set [p..<n]" "rows_ok s \<and> texts s = t" "shift_left_step x t = Some t'" for x s t t'
  proof -
    have x: "x < 50" "x + 1 < 50" using that(1) assms by (auto simp: pn)
    have "length t = 50" using that(2) by (auto simp: rows_ok_length)
    then have "t' = t[x := t ! Suc x]" using that(3) x by (simp add: shift_left_step_def)
    moreover have "nat (int x + 1) = Suc x" by simp
    ultimately show ?thesis using row_copy_eq [of s "int x" "int x + 1"] that(2) x by auto
  qed
  ultimately have "yields (ofold (\<lambda>x. row_copy (int x) (int x + 1)) [p..<n] b) (\<lambda>b'. rows_ok b' \<and> texts b' = ?T')"
    using ok by (intro ofold_simulates [where R = "\<lambda>s t. rows_ok s \<and> texts s = t"]) auto
  then show ?thesis
    using nth_shift_left [of p n ?T] assms
    by (auto simp: rows_up_def pn upto_map_int ofold_map rows_ok_length elim!: yields_mono)
qed

lemma rows_down_eq:
  assumes ok: "rows_ok b" and "1 \<le> i" and "i \<le> m + 1" and "m < 50"
  shows "yields (rows_down i m b) (\<lambda>b'. rows_ok b' \<and>
    (\<forall>k < 50. texts b' ! k = (if nat i \<le> k \<and> k \<le> nat m then texts b ! (k - 1) else texts b ! k)))"
proof -
  obtain p where p: "i = int (Suc p)" using assms(2) by (metis nonneg_int_cases add.commute diff_add_cancel diff_ge_0_iff_ge of_nat_Suc)
  obtain n where n: "m = int n" using assms(2,3) p by (metis nonneg_int_cases add_le_cancel_right le_add_same_cancel2 of_nat_0_le_iff of_nat_Suc order_trans)
  let ?T = "texts b"
  let ?T' = "take (Suc p) ?T @ take (n - p) (drop p ?T) @ drop (Suc n) ?T"
  have le: "p \<le> n" "n < 50" using assms by (simp_all add: p n)
  have "ofold shift_right_step (rev [p..<n]) ?T = Some ?T'"
    using le ok by (intro shift_right) (simp_all add: rows_ok_length)
  moreover have "yields (row_copy (int (Suc x)) (int x) s) (\<lambda>s'. rows_ok s' \<and> texts s' = t')"
    if "x \<in> set (rev [p..<n])" "rows_ok s \<and> texts s = t" "shift_right_step x t = Some t'" for x s t t'
  proof -
    have x: "x < 50" "Suc x < 50" using that(1) le by auto
    have "length t = 50" using that(2) by (auto simp: rows_ok_length)
    then have "t' = t[Suc x := t ! x]" using that(3) x by (simp add: shift_right_step_def)
    then show ?thesis using row_copy_eq [of s "int (Suc x)" "int x"] that(2) x by (auto simp del: of_nat_Suc)
  qed
  ultimately have "yields (ofold (\<lambda>x. row_copy (int (Suc x)) (int x)) (rev [p..<n]) b) (\<lambda>b'. rows_ok b' \<and> texts b' = ?T')"
    using ok by (intro ofold_simulates [where R = "\<lambda>s t. rows_ok s \<and> texts s = t"]) auto
  moreover have "[i..m] = map (\<lambda>x. int (Suc x)) [p..<n]"
    using upto_map_int [of "Suc p" "Suc n"] by (simp add: p n map_Suc_upt [symmetric] del: map_Suc_upt upt_Suc)
  ultimately show ?thesis
    using nth_shift_right [of p n ?T] le ok
    by (auto simp: rows_down_def rev_map ofold_map p n rows_ok_length elim!: yields_mono)
qed

section \<open>Gaps in a row\<close>

lemma int_set_next: "int_set s (int x) = arr_set s x" "int_set s (int x + 1) = arr_set s (Suc x)"
    "int_get s (int x + 1) = arr_get s (Suc x)"
  using nat_int [of "Suc x"] by (simp_all add: fun_eq_iff int_set_def int_get_def add.commute)

lemma close_gap_eq:
  assumes t: "terminated line" and a: "0 \<le> a" "a < int (length (cstr line))"
  shows "yields (close_gap a (int (length (cstr line))) line) (\<lambda>l. length l = length line \<and> terminated l \<and>
    cstr l = take (nat a) (cstr line) @ drop (Suc (nat a)) (cstr line))"
proof -
  obtain r where r: "line = cstr line @ NUL # r" "NUL \<notin> set (cstr line)" using t by (rule terminatedE)
  obtain p where p: "a = int p" using a(1) by (metis nonneg_int_cases)
  let ?x = "cstr line" and ?n = "length (cstr line)"
  have lt: "p < ?n" using a(2) p by simp
  have "ofold shift_left_step [p..<?n] line = Some (take p line @ take (?n - p) (drop (Suc p) line) @ drop ?n line)"
    using lt length_cstr_less [OF t] by (intro shift_left) simp_all
  moreover have "take p line @ take (?n - p) (drop (Suc p) line) @ drop ?n line = (take p ?x @ drop (Suc p) ?x) @ NUL # NUL # r"
  proof -
    have "take p line = take p ?x" by (subst r(1)) (use lt in simp)
    moreover have "take (?n - p) (drop (Suc p) line) = drop (Suc p) ?x @ [NUL]"
      by (subst r(1)) (use lt in \<open>simp add: Suc_diff_Suc\<close>)
    moreover have "drop ?n line = NUL # r" by (subst r(1)) simp
    ultimately show ?thesis by simp
  qed
  moreover have "close_gap a (int ?n) line = ofold shift_left_step [p..<?n] line"
  proof -
    show ?thesis unfolding close_gap_def p upto_map_int ofold_map
      by (rule ofold_cong) (simp add: shift_left_step_def int_set_next)
  qed
  moreover have nul: "NUL \<notin> set (take p ?x @ drop (Suc p) ?x)"
    using r(2) by (auto dest: in_set_takeD in_set_dropD)
  moreover have "length ((take p ?x @ drop (Suc p) ?x) @ NUL # NUL # r) = length line"
    by (subst (3) r(1)) (use lt in simp)
  ultimately show ?thesis using p by (simp only: yields_Some cstr_append [OF nul] terminated_append nat_int simp_thms)
qed

lemma open_gap_eq:
  assumes t: "terminated line" and a: "0 \<le> a" "a \<le> int (length (cstr line))"
    and room: "length (cstr line) + 1 < length line" and c: "c \<noteq> NUL"
  shows "yields (do { l \<leftarrow> open_gap a (int (length (cstr line))) line; int_set l a c })
    (\<lambda>l. length l = length line \<and> terminated l \<and> cstr l = take (nat a) (cstr line) @ c # drop (nat a) (cstr line))"
proof -
  obtain r where r: "line = cstr line @ NUL # r" "NUL \<notin> set (cstr line)" using t by (rule terminatedE)
  obtain p where p: "a = int p" using a(1) by (metis nonneg_int_cases)
  let ?x = "cstr line" and ?n = "length (cstr line)"
  have le: "p \<le> ?n" using a(2) p by simp
  have len: "length line = ?n + Suc (length r)" by (subst r(1)) simp
  then obtain z r' where r': "r = z # r'" using room by (cases r) auto
  let ?l = "take (Suc p) line @ take (Suc ?n - p) (drop p line) @ drop (Suc (Suc ?n)) line"
  have "ofold shift_right_step (rev [p..<Suc ?n]) line = Some ?l"
    using le room by (intro shift_right) simp_all
  moreover have "open_gap a (int ?n) line = ofold shift_right_step (rev [p..<Suc ?n]) line"
  proof -
    have "[int p..int ?n] = map int [p..<Suc ?n]" using upto_map_int [of p "Suc ?n"] by simp
    then show ?thesis unfolding open_gap_def p by (simp only: rev_map ofold_map)
      (rule ofold_cong, simp add: shift_right_step_def int_set_next)
  qed
  moreover have "?l[p := c] = (take p ?x @ c # drop p ?x) @ NUL # r'"
  proof -
    have "take (Suc p) line = take p line @ [line ! p]" using le room by (simp add: take_Suc_conv_app_nth)
    moreover have "take p line = take p ?x" by (subst r(1)) (use le in simp)
    moreover have "take (Suc ?n - p) (drop p line) = drop p ?x @ [NUL]"
      by (subst r(1)) (use le in \<open>simp add: Suc_diff_le\<close>)
    moreover have "drop (Suc (Suc ?n)) line = r'" by (subst r(1)) (simp add: r')
    ultimately show ?thesis using le by (simp add: list_update_append)
  qed
  moreover have nul: "NUL \<notin> set (take p ?x @ c # drop p ?x)"
    using r(2) c by (auto dest: in_set_takeD in_set_dropD)
  moreover have "length ((take p ?x @ c # drop p ?x) @ NUL # r') = length line"
    using le unfolding len by (simp add: r')
  moreover have "length ?l = length line" using le room by simp
  moreover have "p < length line" using le room by simp
  ultimately show ?thesis using p by (simp only: bind.bind_lunit int_set_of_nat arr_set_Some yields_Some cstr_append [OF nul] terminated_append nat_int simp_thms)
qed

section \<open>The invariant and the view\<close>

definition ed_lines :: "editor_state \<Rightarrow> string list" where
  "ed_lines ed = take (nat (line_count ed)) (texts (ed_buffer ed))"

definition ed_ok :: "editor_state \<Rightarrow> bool" where
  "ed_ok ed \<longleftrightarrow> rows_ok (ed_buffer ed) \<and> 1 \<le> line_count ed \<and> line_count ed \<le> 50 \<and>
     0 \<le> cursor_y ed \<and> cursor_y ed < line_count ed \<and>
     0 \<le> cursor_x ed \<and> cursor_x ed \<le> int (length (texts (ed_buffer ed) ! nat (cursor_y ed))) \<and>
     0 \<le> view_start_line ed \<and> view_start_line ed < 50 \<and>
     length (ed_filename ed) = MAX_FILENAME_LENGTH \<and> terminated (ed_filename ed) \<and>
     length (command_buffer ed) = 80 \<and> terminated (command_buffer ed) \<and>
     0 \<le> command_length ed \<and> command_length ed \<le> 78 \<and>
     length (status_message ed) = 80 \<and> terminated (status_message ed)"

text \<open>Lines, cursor and the \<open>modified\<close> flag: what an editing operation is about.\<close>

type_synonym text_view = "string list \<times> nat \<times> nat \<times> bool"

definition ed_view :: "editor_state \<Rightarrow> text_view" where
  "ed_view ed = (ed_lines ed, nat (cursor_y ed), nat (cursor_x ed), ed_modified ed)"

text \<open>The fields an editing operation does not touch.\<close>

definition same_chrome :: "editor_state \<Rightarrow> editor_state \<Rightarrow> bool" where
  "same_chrome ed ed' \<longleftrightarrow> ed_mode ed' = ed_mode ed \<and> ed_filename ed' = ed_filename ed \<and>
     command_buffer ed' = command_buffer ed \<and> command_length ed' = command_length ed \<and>
     status_message ed' = status_message ed"

lemma same_chrome_refl [simp]: "same_chrome ed ed"
  by (simp add: same_chrome_def)

lemma ed_okD:
  assumes "ed_ok ed"
  shows "rows_ok (ed_buffer ed)" and "1 \<le> line_count ed" "line_count ed \<le> 50"
    and "0 \<le> cursor_y ed" "cursor_y ed < line_count ed"
    and "0 \<le> cursor_x ed" "cursor_x ed \<le> int (length (texts (ed_buffer ed) ! nat (cursor_y ed)))"
  using assms by (simp_all add: ed_ok_def)

lemma length_ed_lines: "ed_ok ed \<Longrightarrow> length (ed_lines ed) = nat (line_count ed)"
  by (auto simp: ed_lines_def ed_ok_def rows_ok_length)

lemma ed_lines_nth: "ed_ok ed \<Longrightarrow> k < nat (line_count ed) \<Longrightarrow> ed_lines ed ! k = texts (ed_buffer ed) ! k"
  by (simp add: ed_lines_def)

lemma ed_lines_eqI:
  assumes "length xs = nat n" and "n \<le> 50" and "rows_ok b"
    and "\<And>k. k < nat n \<Longrightarrow> texts b ! k = xs ! k"
  shows "take (nat n) (texts b) = xs"
  by (rule nth_equalityI) (use assms in \<open>simp_all add: rows_ok_length\<close>)

text \<open>The row under the cursor.\<close>

lemma cursor_row:
  assumes "ed_ok ed"
  obtains row where "int_get (ed_buffer ed) (cursor_y ed) = Some row" and "length row = 76"
    and "terminated row" and "cstr row = ed_lines ed ! nat (cursor_y ed)"
    and "strlen row = Some (length (ed_lines ed ! nat (cursor_y ed)))"
    and "nat (cursor_x ed) \<le> length (ed_lines ed ! nat (cursor_y ed))"
    and "length (ed_lines ed ! nat (cursor_y ed)) < 76" "nat (cursor_y ed) < 50"
proof -
  note ok = ed_okD [OF assms]
  have y: "nat (cursor_y ed) < 50" using ok by simp
  note r = rows_okD [OF ok(1) y]
  have l: "ed_lines ed ! nat (cursor_y ed) = texts (ed_buffer ed) ! nat (cursor_y ed)"
    using ok by (intro ed_lines_nth [OF assms]) simp
  show ?thesis
    by (rule that [of "ed_buffer ed ! nat (cursor_y ed)"])
       (use ok r l y in \<open>simp_all add: get_row_eq strlen_eq\<close>)
qed

section \<open>The operations on lines\<close>

fun text_insert :: "char \<Rightarrow> text_view \<Rightarrow> text_view" where
  "text_insert c (ls, y, x, m) =
     (if length (ls ! y) < 75 then (ls[y := take x (ls ! y) @ c # drop x (ls ! y)], y, Suc x, True)
      else (ls, y, x, m))"

fun text_split :: "text_view \<Rightarrow> text_view" where
  "text_split (ls, y, x, m) =
     (if length ls < 49 then (take y ls @ [take x (ls ! y), drop x (ls ! y)] @ drop (Suc y) ls, Suc y, 0, True)
      else (ls, y, x, m))"

fun text_backspace :: "text_view \<Rightarrow> text_view" where
  "text_backspace (ls, y, x, m) =
     (if x > 0 then (ls[y := take (x - 1) (ls ! y) @ drop x (ls ! y)], y, x - 1, True)
      else if y > 0 then
        (take (y - 1) ls @ [ls ! (y - 1) @ ls ! y] @ drop (Suc y) ls, y - 1, length (ls ! (y - 1)), True)
      else (ls, y, x, m))"

fun text_delete_under :: "text_view \<Rightarrow> text_view" where
  "text_delete_under (ls, y, x, m) =
     (if x < length (ls ! y) then (ls[y := take x (ls ! y) @ drop (Suc x) (ls ! y)], y, x, True)
      else (ls, y, x, m))"

fun text_delete_line :: "text_view \<Rightarrow> text_view" where
  "text_delete_line (ls, y, x, m) =
     (if length ls > 1 then (take y ls @ drop (Suc y) ls, (if Suc y = length ls then y - 1 else y), 0, True)
      else (ls, y, x, m))"

fun text_open_line :: "text_view \<Rightarrow> text_view" where
  "text_open_line (ls, y, x, m) =
     (if length ls < 49 then (take (Suc y) ls @ [[]] @ drop (Suc y) ls, Suc y, 0, True)
      else (ls, y, x, m))"

text \<open>Moving by one step in either direction, staying in the text.\<close>

fun text_move :: "int \<Rightarrow> int \<Rightarrow> text_view \<Rightarrow> text_view" where
  "text_move dx dy (ls, y, x, m) =
     (let y' = nat (min (max (int y + dy) 0) (int (length ls) - 1))
      in (ls, y', nat (min (max (int x + dx) 0) (int (length (ls ! y')))), m))"

section \<open>Refinement\<close>

text \<open>An operation that replaces the row under the cursor.\<close>

lemma ed_row_update:
  assumes ok: "ed_ok ed" and l: "length l = 76" "terminated l" and x: "0 \<le> x" "x \<le> int (length (cstr l))"
  shows "yields (do { b \<leftarrow> int_set (ed_buffer ed) (cursor_y ed) l;
      Some (ed\<lparr>ed_buffer := b, cursor_x := x, ed_modified := True\<rparr>) })
    (\<lambda>ed'. ed_ok ed' \<and> same_chrome ed ed' \<and>
      ed_view ed' = ((ed_lines ed)[nat (cursor_y ed) := cstr l], nat (cursor_y ed), nat x, True))"
proof -
  note o = ed_okD [OF ok]
  let ?y = "nat (cursor_y ed)" and ?n = "nat (line_count ed)"
  have y: "?y < 50" "?y < ?n" using o by simp_all
  have "yields (int_set (ed_buffer ed) (cursor_y ed) l) (\<lambda>b'. rows_ok b' \<and> texts b' = (texts (ed_buffer ed))[?y := cstr l])"
    using o l by (intro set_row_eq) auto
  then show ?thesis
  proof (auto elim!: yields_mono)
    fix b assume b: "rows_ok b" "texts b = (texts (ed_buffer ed))[?y := cstr l]"
    then show "ed_ok (ed\<lparr>ed_buffer := b, cursor_x := x, ed_modified := True\<rparr>)"
      using ok x y rows_ok_length [OF o(1)] by (simp add: ed_ok_def)
    show "same_chrome ed (ed\<lparr>ed_buffer := b, cursor_x := x, ed_modified := True\<rparr>)" by (simp add: same_chrome_def)
    show "ed_view (ed\<lparr>ed_buffer := b, cursor_x := x, ed_modified := True\<rparr>) = ((ed_lines ed)[?y := cstr l], ?y, nat x, True)"
      using b y by (simp add: ed_view_def ed_lines_def take_update_swap)
  qed
qed

lemma insert_char_refines:
  assumes ok: "ed_ok ed" and c: "c \<noteq> NUL" "c \<noteq> NL"
  shows "yields (editor_insert_char c ed) (\<lambda>ed'. ed_ok ed' \<and> same_chrome ed ed' \<and>
    ed_view ed' = text_insert c (ed_view ed))"
proof -
  note o = ed_okD [OF ok]
  let ?y = "nat (cursor_y ed)" and ?x = "nat (cursor_x ed)"
  obtain row where row: "int_get (ed_buffer ed) (cursor_y ed) = Some row" "length row = 76" "terminated row"
    "cstr row = ed_lines ed ! ?y" "strlen row = Some (length (ed_lines ed ! ?y))"
    "?x \<le> length (ed_lines ed ! ?y)" by (rule cursor_row [OF ok])
  have cy: "cursor_y ed < EDITOR_MAX_LINES" using o by (simp add: ed_consts)
  show ?thesis
  proof (cases "length (ed_lines ed ! ?y) < 75")
    case False
    then show ?thesis using row cy c ok by (simp add: editor_insert_char_def ed_consts ed_view_def)
  next
    case True
    have "yields (do { l \<leftarrow> open_gap (cursor_x ed) (int (length (cstr row))) row; int_set l (cursor_x ed) c })
      (\<lambda>l. length l = length row \<and> terminated l \<and> cstr l = take ?x (cstr row) @ c # drop ?x (cstr row))"
      using o row c True by (intro open_gap_eq) auto
    then have gap: "yields (open_gap (cursor_x ed) (int (length (ed_lines ed ! ?y))) row) (\<lambda>l. yields (int_set l (cursor_x ed) c)
      (\<lambda>l. length l = 76 \<and> terminated l \<and> cstr l = take ?x (ed_lines ed ! ?y) @ c # drop ?x (ed_lines ed ! ?y)))"
      using row by simp
    have upd: "yields (int_set (ed_buffer ed) (cursor_y ed) l) (\<lambda>b. yields
        (Some (ed\<lparr>ed_buffer := b, cursor_x := cursor_x ed + 1, ed_modified := True\<rparr>))
        (\<lambda>ed'. ed_ok ed' \<and> same_chrome ed ed' \<and> ed_view ed' = text_insert c (ed_view ed)))"
      if "length l = 76 \<and> terminated l \<and> cstr l = take ?x (ed_lines ed ! ?y) @ c # drop ?x (ed_lines ed ! ?y)" for l
    proof -
      have "nat (cursor_x ed + 1) = Suc ?x" using o by simp
      then show ?thesis
        using ed_row_update [OF ok, of l "cursor_x ed + 1"] that row(6) o True by (simp add: ed_view_def)
    qed
    show ?thesis
      using cy c True row(1,5)
      by (simp add: editor_insert_char_def ed_consts del: yields_Some)
        (rule yields_mono [OF gap], erule yields_mono, rule upd)
  qed
qed

lemma delete_under_refines:
  assumes ok: "ed_ok ed"
  shows "yields (delete_under ed) (\<lambda>ed'. ed_ok ed' \<and> same_chrome ed ed' \<and>
    ed_view ed' = text_delete_under (ed_view ed))"
proof -
  note o = ed_okD [OF ok]
  let ?y = "nat (cursor_y ed)" and ?x = "nat (cursor_x ed)"
  obtain row where row: "int_get (ed_buffer ed) (cursor_y ed) = Some row" "length row = 76" "terminated row"
    "cstr row = ed_lines ed ! ?y" "strlen row = Some (length (ed_lines ed ! ?y))"
    "?x \<le> length (ed_lines ed ! ?y)" by (rule cursor_row [OF ok])
  show ?thesis
  proof (cases "cursor_x ed < int (length (ed_lines ed ! ?y))")
    case False
    then show ?thesis using row o ok by (auto simp: delete_under_def ed_view_def)
  next
    case True
    have gap: "yields (close_gap (cursor_x ed) (int (length (ed_lines ed ! ?y))) row)
      (\<lambda>l. length l = 76 \<and> terminated l \<and> cstr l = take ?x (ed_lines ed ! ?y) @ drop (Suc ?x) (ed_lines ed ! ?y))"
      using close_gap_eq [OF row(3), of "cursor_x ed"] o row True by simp
    have upd: "yields (int_set (ed_buffer ed) (cursor_y ed) l) (\<lambda>b. yields (Some (ed\<lparr>ed_buffer := b, ed_modified := True\<rparr>))
        (\<lambda>ed'. ed_ok ed' \<and> same_chrome ed ed' \<and> ed_view ed' = text_delete_under (ed_view ed)))"
      if "length l = 76 \<and> terminated l \<and> cstr l = take ?x (ed_lines ed ! ?y) @ drop (Suc ?x) (ed_lines ed ! ?y)" for l
    proof -
      have "?x < length (ed_lines ed ! ?y)" using True o by linarith
      then have "cursor_x ed \<le> int (length (cstr l))" using that o by simp
      moreover have "ed\<lparr>ed_buffer := b, cursor_x := cursor_x ed, ed_modified := True\<rparr> = ed\<lparr>ed_buffer := b, ed_modified := True\<rparr>" for b
        by simp
      ultimately show ?thesis
        using ed_row_update [OF ok, of l "cursor_x ed"] that \<open>?x < length (ed_lines ed ! ?y)\<close> o by (simp add: ed_view_def)
    qed
    show ?thesis
      using True o row(1,5)
      by (simp add: delete_under_def del: yields_Some) (rule yields_mono [OF gap], rule upd)
  qed
qed

lemma backspace_in_line_refines:
  assumes ok: "ed_ok ed" and x: "cursor_x ed \<noteq> 0"
  shows "yields (editor_delete_char ed) (\<lambda>ed'. ed_ok ed' \<and> same_chrome ed ed' \<and>
    ed_view ed' = text_backspace (ed_view ed))"
proof -
  note o = ed_okD [OF ok]
  let ?y = "nat (cursor_y ed)" and ?x = "nat (cursor_x ed)"
  obtain row where row: "int_get (ed_buffer ed) (cursor_y ed) = Some row" "length row = 76" "terminated row"
    "cstr row = ed_lines ed ! ?y" "strlen row = Some (length (ed_lines ed ! ?y))"
    "?x \<le> length (ed_lines ed ! ?y)" by (rule cursor_row [OF ok])
  have x1: "nat (cursor_x ed - 1) = ?x - 1" "0 < ?x" "Suc (?x - 1) = ?x" using x o by simp_all
  have gap: "yields (close_gap (cursor_x ed - 1) (int (length (ed_lines ed ! ?y))) row)
      (\<lambda>l. length l = 76 \<and> terminated l \<and> cstr l = take (?x - 1) (ed_lines ed ! ?y) @ drop ?x (ed_lines ed ! ?y))"
    using close_gap_eq [OF row(3), of "cursor_x ed - 1"] o row x x1 by simp
  have upd: "yields (int_set (ed_buffer ed) (cursor_y ed) l) (\<lambda>b. yields
        (Some (ed\<lparr>ed_buffer := b, cursor_x := cursor_x ed - 1, ed_modified := True\<rparr>))
        (\<lambda>ed'. ed_ok ed' \<and> same_chrome ed ed' \<and> ed_view ed' = text_backspace (ed_view ed)))"
    if "length l = 76 \<and> terminated l \<and> cstr l = take (?x - 1) (ed_lines ed ! ?y) @ drop ?x (ed_lines ed ! ?y)" for l
    using ed_row_update [OF ok, of l "cursor_x ed - 1"] that row(6) x1 o x by (simp add: ed_view_def)
  show ?thesis
    using x row(1,5)
    by (simp add: editor_delete_char_def del: yields_Some) (rule yields_mono [OF gap], rule upd)
qed

text \<open>A new buffer with a new number of lines.\<close>

lemma ed_lines_update:
  assumes ok: "ed_ok ed" and b: "rows_ok b" and n: "1 \<le> n" "n \<le> 50" "length xs = nat n"
    and t: "\<And>k. k < nat n \<Longrightarrow> texts b ! k = xs ! k"
    and y: "0 \<le> y" "y < n" and x: "0 \<le> x" "x \<le> int (length (xs ! nat y))"
  shows "ed_ok (ed\<lparr>ed_buffer := b, line_count := n, cursor_x := x, cursor_y := y, ed_modified := m\<rparr>)"
    and "same_chrome ed (ed\<lparr>ed_buffer := b, line_count := n, cursor_x := x, cursor_y := y, ed_modified := m\<rparr>)"
    and "ed_view (ed\<lparr>ed_buffer := b, line_count := n, cursor_x := x, cursor_y := y, ed_modified := m\<rparr>) =
      (xs, nat y, nat x, m)"
proof -
  have "nat y < nat n" using y by simp
  then show "ed_ok (ed\<lparr>ed_buffer := b, line_count := n, cursor_x := x, cursor_y := y, ed_modified := m\<rparr>)"
    using ok b n(1,2) y x t by (simp add: ed_ok_def)
  show "same_chrome ed (ed\<lparr>ed_buffer := b, line_count := n, cursor_x := x, cursor_y := y, ed_modified := m\<rparr>)"
    by (simp add: same_chrome_def)
  show "ed_view (ed\<lparr>ed_buffer := b, line_count := n, cursor_x := x, cursor_y := y, ed_modified := m\<rparr>) = (xs, nat y, nat x, m)"
    using ed_lines_eqI [OF n(3,2) b t] by (simp add: ed_view_def ed_lines_def)
qed

lemma delete_line_refines:
  assumes ok: "ed_ok ed"
  shows "yields (delete_line ed) (\<lambda>ed'. ed_ok ed' \<and> same_chrome ed ed' \<and>
    ed_view ed' = text_delete_line (ed_view ed))"
proof (cases "line_count ed > 1")
  case False
  then show ?thesis using ok by (simp add: delete_line_def ed_view_def length_ed_lines)
next
  case True
  note o = ed_okD [OF ok]
  let ?y = "nat (cursor_y ed)" and ?n = "nat (line_count ed)" and ?T = "texts (ed_buffer ed)"
  have up: "yields (rows_up (cursor_y ed) (line_count ed - 1) (ed_buffer ed)) (\<lambda>b'. rows_ok b' \<and>
    (\<forall>k < 50. texts b' ! k = (if ?y \<le> k \<and> k < nat (line_count ed - 1) then ?T ! Suc k else ?T ! k)))"
    using o by (intro rows_up_eq) auto
  show ?thesis
    unfolding delete_line_def if_P [OF True] Let_def
  proof (simp only: yields_bind yields_Some, rule yields_mono [OF up])
    fix b assume b: "rows_ok b \<and> (\<forall>k < 50. texts b ! k = (if ?y \<le> k \<and> k < nat (line_count ed - 1) then ?T ! Suc k else ?T ! k))"
    let ?xs = "take ?y (ed_lines ed) @ drop (Suc ?y) (ed_lines ed)"
    let ?yy = "if cursor_y ed \<ge> line_count ed - 1 then line_count ed - 2 else cursor_y ed"
    have len: "length ?xs = nat (line_count ed - 1)" using o True by (simp add: length_ed_lines [OF ok])
    have t: "texts b ! k = ?xs ! k" if k: "k < nat (line_count ed - 1)" for k
      using k b o by (auto simp: nth_append length_ed_lines [OF ok] ed_lines_nth [OF ok] min_def)
    have "(if Suc ?y = ?n then ?y - 1 else ?y) = nat ?yy" using o True by auto
    then have view: "text_delete_line (ed_view ed) = (?xs, nat ?yy, nat 0, True)"
      using True by (simp add: ed_view_def length_ed_lines [OF ok] del: nat_diff_distrib)
    have yy: "0 \<le> ?yy" "?yy < line_count ed - 1" and n: "1 \<le> line_count ed - 1" "line_count ed - 1 \<le> 50"
      using o True by auto
    have e: "(if line_count ed - 1 \<le> cursor_y ed then line_count ed - 1 - 1 else cursor_y ed) = ?yy" by simp
    have z: "(0 :: int) \<le> 0" "0 \<le> int (length (?xs ! nat ?yy))" by simp_all
    note up = ed_lines_update [OF ok conjunct1 [OF b] n len t yy z, of True]
    show "ed_ok (ed\<lparr>ed_buffer := b, line_count := line_count ed - 1, cursor_x := 0,
          cursor_y := if line_count ed - 1 \<le> cursor_y ed then line_count ed - 1 - 1 else cursor_y ed, ed_modified := True\<rparr>) \<and>
      same_chrome ed (ed\<lparr>ed_buffer := b, line_count := line_count ed - 1, cursor_x := 0,
          cursor_y := if line_count ed - 1 \<le> cursor_y ed then line_count ed - 1 - 1 else cursor_y ed, ed_modified := True\<rparr>) \<and>
      ed_view (ed\<lparr>ed_buffer := b, line_count := line_count ed - 1, cursor_x := 0,
          cursor_y := if line_count ed - 1 \<le> cursor_y ed then line_count ed - 1 - 1 else cursor_y ed, ed_modified := True\<rparr>) =
        text_delete_line (ed_view ed)"
      unfolding e view using up by blast
  qed
qed

text \<open>Row access after an update elsewhere.\<close>

lemma set_cell_eq:
  assumes ok: "rows_ok b" and i: "0 \<le> i" "i < 50" and x: "0 \<le> x" "x \<le> int (length (texts b ! nat i))"
  shows "yields (set_cell b i x NUL) (\<lambda>b'. rows_ok b' \<and> texts b' = (texts b)[nat i := take (nat x) (texts b ! nat i)])"
proof -
  have "nat i < 50" using i by simp
  note r = rows_okD [OF ok this]
  obtain rest where row: "b ! nat i = texts b ! nat i @ NUL # rest"
    using r(2,3) by (metis terminatedE)
  let ?row = "(b ! nat i)[nat x := NUL]"
  have nx: "nat x \<le> length (texts b ! nat i)" "nat x < 76" using x r(4) by linarith+
  have "int_set (b ! nat i) x NUL = Some ?row" using x r(1,4) by (simp add: int_set_Some)
  moreover have "?row = take (nat x) (texts b ! nat i) @ NUL # drop (Suc (nat x)) (b ! nat i)"
    using nx r(1) by (subst upd_conv_take_nth_drop) (simp_all add: row)
  moreover have "NUL \<notin> set (take (nat x) (texts b ! nat i))"
    using r(5) by (auto dest: in_set_takeD)
  ultimately have "cstr ?row = take (nat x) (texts b ! nat i)" "terminated ?row" "int_set (b ! nat i) x NUL = Some ?row"
    by (simp_all add: cstr_append)
  then show ?thesis
    using set_row_eq [OF ok i, of ?row] ok i r(1) by (simp add: set_cell_def get_row_eq)
qed

lemma split_refines:
  assumes ok: "ed_ok ed"
  shows "yields (editor_insert_char NL ed) (\<lambda>ed'. ed_ok ed' \<and> same_chrome ed ed' \<and>
    ed_view ed' = text_split (ed_view ed))"
proof -
  note o = ed_okD [OF ok]
  let ?y = "nat (cursor_y ed)" and ?x = "nat (cursor_x ed)" and ?n = "nat (line_count ed)" and ?T = "texts (ed_buffer ed)"
  obtain row where row: "int_get (ed_buffer ed) (cursor_y ed) = Some row"
    "strlen row = Some (length (ed_lines ed ! ?y))" "?x \<le> length (ed_lines ed ! ?y)"
    by (rule cursor_row [OF ok])
  have cy: "\<not> cursor_y ed \<ge> EDITOR_MAX_LINES" using o by (simp add: ed_consts)
  show ?thesis
  proof (cases "line_count ed < 49")
    case False
    then have "\<not> length (ed_lines ed) < 49" by (simp add: length_ed_lines [OF ok])
    then show ?thesis using False row cy ok by (simp add: editor_insert_char_def ed_consts ed_view_def)
  next
    case True
    have down: "yields (rows_down (cursor_y ed + 2) (line_count ed) (ed_buffer ed)) (\<lambda>b'. rows_ok b' \<and>
      (\<forall>k < 50. texts b' ! k = (if nat (cursor_y ed + 2) \<le> k \<and> k \<le> ?n then ?T ! (k - 1) else ?T ! k)))"
      using o True by (intro rows_down_eq) auto
    then obtain b1 where b1: "rows_down (cursor_y ed + 2) (line_count ed) (ed_buffer ed) = Some b1" "rows_ok b1"
      and t1: "\<And>k. k < 50 \<Longrightarrow> texts b1 ! k = (if ?y + 2 \<le> k \<and> k \<le> ?n then ?T ! (k - 1) else ?T ! k)"
      using o by (auto elim!: yieldsE simp: nat_add_distrib)
    have y1: "?y < 50" "Suc ?y < 50" "nat (cursor_y ed + 1) = Suc ?y" "?y < ?n" using o True by simp_all
    note r = rows_okD [OF b1(2) y1(1)] and r' = rows_okD [OF b1(2) y1(2)]
    have l: "texts b1 ! ?y = ed_lines ed ! ?y" using t1 [OF y1(1)] ed_lines_nth [OF ok] y1 by simp
    obtain rest where "b1 ! ?y = cstr (b1 ! ?y) @ NUL # rest" using r(2) by (metis terminatedE)
    then have bx: "drop ?x (b1 ! ?y) = drop ?x (ed_lines ed ! ?y) @ NUL # rest"
      using row(3) l r(3) by (metis drop_append diff_is_0_eq' drop0)
    have ptr: "ptr_at (b1 ! ?y) (cursor_x ed) = Some (drop ?x (b1 ! ?y))"
      using o row(3) l r(1,4) by (simp add: ptr_at_def)
    have nul: "NUL \<notin> set (drop ?x (ed_lines ed ! ?y))" using r(5) l by (auto dest: in_set_dropD)
    have src: "terminated (drop ?x (b1 ! ?y))" "cstr (drop ?x (b1 ! ?y)) = drop ?x (ed_lines ed ! ?y)"
      unfolding bx using nul by (simp_all add: cstr_append)
    have "length (cstr (drop ?x (b1 ! ?y))) < length (b1 ! Suc ?y)" using src(2) r(4) r'(1) l by simp
    then obtain d where d: "strcpy (b1 ! Suc ?y) (drop ?x (b1 ! ?y)) = Some d" "length d = 76" "terminated d"
      "cstr d = drop ?x (ed_lines ed ! ?y)"
      using strcpy_fits [OF src(1), of "b1 ! Suc ?y"] r'(1) src(2) by (auto elim!: yieldsE)
    obtain b2 where b2: "int_set b1 (cursor_y ed + 1) d = Some b2" "rows_ok b2"
      "texts b2 = (texts b1)[Suc ?y := drop ?x (ed_lines ed ! ?y)]"
      using set_row_eq [OF b1(2), of "cursor_y ed + 1" d] d o True y1(3) by (auto elim!: yieldsE)
    have l2: "texts b2 ! ?y = ed_lines ed ! ?y" using b2(3) l by simp
    have cx: "cursor_x ed \<le> int (length (ed_lines ed ! ?y))" using row(3) o by linarith
    obtain b3 where b3: "set_cell b2 (cursor_y ed) (cursor_x ed) NUL = Some b3" "rows_ok b3"
      "texts b3 = (texts b2)[?y := take ?x (ed_lines ed ! ?y)]"
      using set_cell_eq [OF b2(2), of "cursor_y ed" "cursor_x ed"] o cx l2 by (auto elim!: yieldsE)
    let ?xs = "take ?y (ed_lines ed) @ [take ?x (ed_lines ed ! ?y), drop ?x (ed_lines ed ! ?y)] @ drop (Suc ?y) (ed_lines ed)"
    have eq: "editor_insert_char NL ed = Some (ed\<lparr>ed_buffer := b3, line_count := line_count ed + 1,
        cursor_x := 0, cursor_y := cursor_y ed + 1, ed_modified := True\<rparr>)"
      using cy True row(1,2) b1 ptr d(1) b2 b3 o y1
      by (simp add: editor_insert_char_def ed_consts get_row_eq)
    have len: "length ?xs = nat (line_count ed + 1)"
      using o y1 by (simp add: length_ed_lines [OF ok] nat_add_distrib)
    have t3: "texts b3 ! k = ?xs ! k" if k: "k < nat (line_count ed + 1)" for k
    proof -
      have k': "k < Suc ?n" "k < 50" using k o True by simp_all
      have lenb: "length (texts b1) = 50" using b1(2) by (simp add: rows_ok_length)
      consider "k < ?y" | "k = ?y" | "k = Suc ?y" | "?y + 2 \<le> k" by linarith
      then show ?thesis
      proof cases
        case 1
        then have "k < ?n" using y1(4) by (rule less_trans)
        from 1 this ed_lines_nth [OF ok this] show ?thesis
          using k' t1 [OF k'(2)] b3(3) b2(3) by (simp add: nth_append length_ed_lines [OF ok])
      next
        case 4
        then have "?xs ! k = drop (Suc ?y) (ed_lines ed) ! (k - (?y + 2))"
          using y1 by (simp add: nth_append length_ed_lines [OF ok])
        also have "\<dots> = ed_lines ed ! (k - 1)"
        proof -
          have "Suc ?y + (k - (?y + 2)) = k - 1" using 4 by linarith
          moreover have "Suc ?y \<le> length (ed_lines ed)" using y1(4) by (simp only: length_ed_lines [OF ok] Suc_le_eq)
          ultimately show ?thesis by (simp only: nth_drop)
        qed
        also have "\<dots> = ?T ! (k - 1)" using 4 k' by (intro ed_lines_nth [OF ok]) linarith
        finally show ?thesis using 4 k' t1 [OF k'(2)] b3(3) b2(3) by simp
      qed (use y1 k' t1 [OF k'(2)] b3(3) b2(3) lenb ed_lines_nth [OF ok, of k] in
          \<open>simp_all add: nth_append length_ed_lines [OF ok]\<close>)
    qed
    have n: "1 \<le> line_count ed + 1" "line_count ed + 1 \<le> 50" "0 \<le> cursor_y ed + 1" "cursor_y ed + 1 < line_count ed + 1"
      "(0 :: int) \<le> 0" "0 \<le> int (length (?xs ! nat (cursor_y ed + 1)))" using o True by simp_all
    have "text_split (ed_view ed) = (?xs, nat (cursor_y ed + 1), nat 0, True)"
      using True y1 by (simp add: ed_view_def length_ed_lines [OF ok])
    with ed_lines_update [OF ok b3(2) n(1,2) len t3 n(3-6), of True] show ?thesis
      unfolding eq yields_Some by metis
  qed
qed

text \<open>Joining with the previous line is defined only if the joined line fits a row.\<close>

definition join_fits :: "editor_state \<Rightarrow> bool" where
  "join_fits ed \<longleftrightarrow> cursor_x ed = 0 \<and> cursor_y ed > 0 \<longrightarrow>
     length (ed_lines ed ! nat (cursor_y ed - 1)) + length (ed_lines ed ! nat (cursor_y ed)) < 76"

lemma join_refines:
  assumes ok: "ed_ok ed" and x: "cursor_x ed = 0" and y: "cursor_y ed > 0" and fits: "join_fits ed"
  shows "yields (editor_delete_char ed) (\<lambda>ed'. ed_ok ed' \<and> same_chrome ed ed' \<and>
    ed_view ed' = text_backspace (ed_view ed))"
proof -
  note o = ed_okD [OF ok]
  obtain p where p: "nat (cursor_y ed) = Suc p" "cursor_y ed = int (Suc p)"
    using y by (metis Suc_pred nat_0_le order_less_imp_le zero_less_nat_eq)
  let ?n = "nat (line_count ed)" and ?T = "texts (ed_buffer ed)" and ?b = "ed_buffer ed"
  have lt: "p < 50" "Suc p < 50" "Suc p < ?n" using o p by simp_all
  have np: "nat (cursor_y ed - 1) = p" using p by simp
  note r = rows_okD [OF o(1) lt(1)] and r' = rows_okD [OF o(1) lt(2)]
  have ls: "ed_lines ed ! p = cstr (?b ! p)" "ed_lines ed ! Suc p = cstr (?b ! Suc p)"
    using ed_lines_nth [OF ok] lt r(3) r'(3) by simp_all
  let ?prev = "cstr (?b ! p)" and ?cur = "cstr (?b ! Suc p)"
  have short: "length ?prev + length ?cur < 76" using fits x y by (simp add: join_fits_def np p(1) ls)
  obtain rest where rest: "?b ! p = ?prev @ NUL # rest" using r(2) by (metis terminatedE)
  have dp: "drop (length ?prev) (?b ! p) = NUL # rest" "take (length ?prev) (?b ! p) = ?prev"
    by (subst rest, simp)+
  have lr: "length (NUL # rest) = 76 - length ?prev" using r(1) by (subst (asm) rest) simp
  then have "length ?cur < length (NUL # rest)" using short by linarith
  with lr obtain d where d: "strcpy (NUL # rest) (?b ! Suc p) = Some d" "length d = 76 - length ?prev" "terminated d"
    "cstr d = ?cur"
    using strcpy_fits [OF r'(2), of "NUL # rest"] by (auto elim!: yieldsE)
  obtain e where "d = ?cur @ NUL # e" using d(3,4) by (metis terminatedE)
  then have pd: "?prev @ d = (?prev @ ?cur) @ NUL # e" by simp
  have nul: "NUL \<notin> set (?prev @ ?cur)" by simp
  have row: "terminated (?prev @ d)" "cstr (?prev @ d) = ?prev @ ?cur"
    unfolding pd using cstr_append [OF nul] by (simp_all only: terminated_append)
  have row_len: "length (?prev @ d) = 76" using d(2) short by simp
  obtain b1 where b1: "int_set ?b (cursor_y ed - 1) (?prev @ d) = Some b1" "rows_ok b1"
    "texts b1 = ?T[p := ?prev @ ?cur]"
    using set_row_eq [OF o(1), of "cursor_y ed - 1" "?prev @ d"] row row_len lt np y o by (auto elim!: yieldsE)
  obtain b2 where b2: "rows_up (cursor_y ed) (line_count ed - 1) b1 = Some b2" "rows_ok b2"
    and t2: "\<And>k. k < 50 \<Longrightarrow> texts b2 ! k = (if Suc p \<le> k \<and> k < nat (line_count ed - 1) then texts b1 ! Suc k else texts b1 ! k)"
    using rows_up_eq [OF b1(2), of "cursor_y ed" "line_count ed - 1"] o p y by (auto elim!: yieldsE)
  have eq: "editor_delete_char ed = Some (ed\<lparr>ed_buffer := b2, line_count := line_count ed - 1,
      cursor_x := int (length ?prev), cursor_y := cursor_y ed - 1, ed_modified := True\<rparr>)"
  proof -
    have "int_get ?b (cursor_y ed - 1) = Some (?b ! p)" "int_get ?b (cursor_y ed) = Some (?b ! Suc p)"
      using o y np p(1) by (simp_all add: get_row_eq)
    then show ?thesis using x y r(2) d(1) b1(1) b2(1) dp by (simp add: editor_delete_char_def strlen_eq)
  qed
  let ?xs = "take p (ed_lines ed) @ [ed_lines ed ! p @ ed_lines ed ! Suc p] @ drop (Suc (Suc p)) (ed_lines ed)"
  have len: "length ?xs = nat (line_count ed - 1)" using lt by (simp add: length_ed_lines [OF ok])
  have t: "texts b2 ! k = ?xs ! k" if k: "k < nat (line_count ed - 1)" for k
  proof -
    have k': "Suc k < ?n" "k < 50" "Suc k < 50" using k o by simp_all
    have lenT: "length ?T = 50" using o(1) by (simp add: rows_ok_length)
    consider "k < p" | "k = p" | "Suc p \<le> k" by linarith
    then show ?thesis
      by cases (use lt k k' t2 [OF k'(2)] b1(3) lenT ls ed_lines_nth [OF ok, of k] ed_lines_nth [OF ok, of "Suc k"] in
          \<open>simp_all add: nth_append length_ed_lines [OF ok]\<close>)
  qed
  have n: "1 \<le> line_count ed - 1" "line_count ed - 1 \<le> 50" "0 \<le> cursor_y ed - 1" "cursor_y ed - 1 < line_count ed - 1"
    "0 \<le> int (length ?prev)" "int (length ?prev) \<le> int (length (?xs ! nat (cursor_y ed - 1)))"
    using o y lt p unfolding np by (simp_all add: nth_append length_ed_lines [OF ok] ls)
  have "text_backspace (ed_view ed) = (?xs, nat (cursor_y ed - 1), nat (int (length ?prev)), True)"
    using x lt p unfolding np by (simp add: ed_view_def ls)
  with ed_lines_update [OF ok b2(2) n(1,2) len t n(3-6), of True] show ?thesis
    unfolding eq yields_Some by metis
qed

lemma backspace_refines:
  assumes ok: "ed_ok ed" and fits: "join_fits ed"
  shows "yields (editor_delete_char ed) (\<lambda>ed'. ed_ok ed' \<and> same_chrome ed ed' \<and>
    ed_view ed' = text_backspace (ed_view ed))"
proof -
  note o = ed_okD [OF ok]
  consider "cursor_x ed = 0" "cursor_y ed = 0" | "cursor_x ed = 0" "cursor_y ed > 0" | "cursor_x ed \<noteq> 0"
    using o by linarith
  then show ?thesis
  proof cases
    case 1
    then show ?thesis using ok by (simp add: editor_delete_char_def ed_view_def)
  next
    case 2
    then show ?thesis by (rule join_refines [OF ok _ _ fits])
  next
    case 3
    then show ?thesis by (rule backspace_in_line_refines [OF ok])
  qed
qed

lemma set_status_ok:
  assumes "ed_ok ed" and "length msg < 80" and "NUL \<notin> set msg"
  shows "yields (editor_set_status (lit msg) ed) (\<lambda>ed'. ed_ok ed' \<and> ed_view ed' = ed_view ed \<and>
    cstr (status_message ed') = msg \<and> ed_mode ed' = ed_mode ed \<and> ed_filename ed' = ed_filename ed \<and>
    command_buffer ed' = command_buffer ed \<and> command_length ed' = command_length ed)"
proof -
  have c: "cstr (lit msg) = msg" using assms(3) by (simp add: cstr_lit)
  have "length (status_message ed) = 80" using assms(1) by (simp add: ed_ok_def)
  then have "yields (strcpy (status_message ed) (lit msg)) (\<lambda>d. length d = 80 \<and> terminated d \<and> cstr d = msg)"
    using strcpy_fits [OF terminated_lit, of msg "status_message ed"] assms(2) by (simp add: c)
  then show ?thesis
    using assms(1) by (auto simp: editor_set_status_def ed_ok_def ed_view_def ed_lines_def elim!: yields_mono)
qed

lemma open_line_refines:
  assumes ok: "ed_ok ed"
  shows "yields (open_line ed) (\<lambda>ed'. ed_ok ed' \<and> ed_filename ed' = ed_filename ed \<and>
    ed_mode ed' = (if length (ed_lines ed) < 49 then MODE_INSERT else ed_mode ed) \<and>
    ed_view ed' = text_open_line (ed_view ed))"
proof (cases "line_count ed < 49")
  case False
  then have "\<not> length (ed_lines ed) < 49" by (simp add: length_ed_lines [OF ok])
  then show ?thesis using False ok by (simp add: open_line_def ed_consts ed_view_def)
next
  case True
  note o = ed_okD [OF ok]
  let ?y = "nat (cursor_y ed)" and ?n = "nat (line_count ed)" and ?T = "texts (ed_buffer ed)"
  have y1: "?y < 50" "Suc ?y < 50" "nat (cursor_y ed + 1) = Suc ?y" "?y < ?n" using o True by simp_all
  obtain b1 where b1: "rows_down (cursor_y ed + 1) (line_count ed) (ed_buffer ed) = Some b1" "rows_ok b1"
    and t1: "\<And>k. k < 50 \<Longrightarrow> texts b1 ! k = (if Suc ?y \<le> k \<and> k \<le> ?n then ?T ! (k - 1) else ?T ! k)"
    using rows_down_eq [OF o(1), of "cursor_y ed + 1" "line_count ed"] o True y1 by (auto elim!: yieldsE)
  obtain b2 where b2: "set_cell b1 (cursor_y ed + 1) 0 NUL = Some b2" "rows_ok b2"
    "texts b2 = (texts b1)[Suc ?y := []]"
    using set_cell_eq [OF b1(2), of "cursor_y ed + 1" 0] o True y1 by (auto elim!: yieldsE)
  let ?xs = "take (Suc ?y) (ed_lines ed) @ [[]] @ drop (Suc ?y) (ed_lines ed)"
  let ?ed = "ed\<lparr>ed_buffer := b2, line_count := line_count ed + 1, cursor_x := 0, cursor_y := cursor_y ed + 1, ed_modified := True\<rparr>"
  have len: "length ?xs = nat (line_count ed + 1)"
    using o y1(4) by (auto simp: length_ed_lines [OF ok] nat_add_distrib min_def)
  have t2: "texts b2 ! k = ?xs ! k" if k: "k < nat (line_count ed + 1)" for k
  proof -
    have k': "k < Suc ?n" "k < 50" using k o True by simp_all
    have lenb: "length b1 = 50" using b1(2) by (simp add: rows_ok_length)
    have sy: "Suc ?y \<le> length (ed_lines ed)" using y1(4) by (simp only: length_ed_lines [OF ok] Suc_le_eq)
    then have ls: "length (take (Suc ?y) (ed_lines ed)) = Suc ?y" by simp
    consider "k < Suc ?y" | "k = Suc ?y" | "Suc ?y < k" by linarith
    then show ?thesis
    proof cases
      case 1
      then have "k < ?n" using y1(4) by linarith
      from 1 ed_lines_nth [OF ok this] show ?thesis
        using k' t1 [OF k'(2)] b2(3) ls by (simp add: nth_append del: length_take)
    next
      case 2
      then show ?thesis using b2(3) y1 lenb ls by (simp add: nth_append del: length_take)
    next
      case 3
      then have "?xs ! k = drop (Suc ?y) (ed_lines ed) ! (k - Suc (Suc ?y))"
        using ls by (simp add: nth_append del: length_take nth_drop)
      also have "\<dots> = ed_lines ed ! (k - 1)"
      proof -
        have "Suc ?y + (k - Suc (Suc ?y)) = k - 1" using 3 by linarith
        then show ?thesis using sy by (simp only: nth_drop)
      qed
      also have "\<dots> = ?T ! (k - 1)" using 3 k' by (intro ed_lines_nth [OF ok]) linarith
      finally show ?thesis using 3 k' t1 [OF k'(2)] b2(3) by simp
    qed
  qed
  have n: "1 \<le> line_count ed + 1" "line_count ed + 1 \<le> 50" "0 \<le> cursor_y ed + 1" "cursor_y ed + 1 < line_count ed + 1"
    "(0 :: int) \<le> 0" "0 \<le> int (length (?xs ! nat (cursor_y ed + 1)))" using o True by simp_all
  have v: "text_open_line (ed_view ed) = (?xs, nat (cursor_y ed + 1), nat 0, True)"
    using True y1 by (simp add: ed_view_def length_ed_lines [OF ok])
  note up = ed_lines_update [OF ok b2(2) n(1,2) len t2 n(3-6), of True]
  have ok': "ed_ok (?ed\<lparr>ed_mode := MODE_INSERT\<rparr>)" and v': "ed_view (?ed\<lparr>ed_mode := MODE_INSERT\<rparr>) = ed_view ?ed"
    using up(1) by (simp_all add: ed_ok_def ed_view_def ed_lines_def)
  have eq: "open_line ed = editor_set_status (lit ''-- INSERT --'') (?ed\<lparr>ed_mode := MODE_INSERT\<rparr>)"
  proof -
    have upd: "ed\<lparr>cursor_x := 0, cursor_y := cursor_y ed + 1, ed_buffer := b2, line_count := line_count ed + 1,
        ed_mode := MODE_INSERT, ed_modified := True\<rparr> = ?ed\<lparr>ed_mode := MODE_INSERT\<rparr>" by (cases ed) simp
    show ?thesis unfolding upd [symmetric] using True b1(1) b2(1) by (simp add: open_line_def ed_consts Let_def)
  qed
  have "length (ed_lines ed) < 49" using True by (simp add: length_ed_lines [OF ok])
  then show ?thesis
    using set_status_ok [OF ok', of "''-- INSERT --''"] up(3) unfolding eq v v'
    by (auto elim!: yields_mono)
qed

lemma move_cursor_refines:
  assumes ok: "ed_ok ed" and d: "-1 \<le> dy" "dy \<le> 1"
  shows "yields (editor_move_cursor dx dy ed) (\<lambda>ed'. ed_ok ed' \<and> same_chrome ed ed' \<and>
    ed_view ed' = text_move dx dy (ed_view ed))"
proof -
  note o = ed_okD [OF ok]
  define y where "y = min (max (cursor_y ed + dy) 0) (line_count ed - 1)"
  define x where "x = min (max (cursor_x ed + dx) 0) (int (length (ed_lines ed ! nat y)))"
  have y: "0 \<le> y" "y < line_count ed" "y < 50" using o by (auto simp: y_def)
  have "nat y < 50" using y by simp
  note r = rows_okD [OF o(1) this]
  have l: "ed_lines ed ! nat y = texts (ed_buffer ed) ! nat y"
    using y by (intro ed_lines_nth [OF ok]) simp
  have row: "int_get (ed_buffer ed) y = Some (ed_buffer ed ! nat y)"
    "strlen (ed_buffer ed ! nat y) = Some (length (ed_lines ed ! nat y))"
    using y o r l by (simp_all add: get_row_eq strlen_eq)
  have ye: "(let y = cursor_y ed + dy; y = (if y < 0 then 0 else y) in
      if y \<ge> line_count ed then line_count ed - 1 else y) = y"
    using o by (auto simp: y_def Let_def)
  have xe: "(let x = (if cursor_x ed + dx < 0 then 0 else cursor_x ed + dx) in
      if x > int (length (ed_lines ed ! nat y)) then int (length (ed_lines ed ! nat y)) else x) = x"
    by (auto simp: x_def Let_def)
  define v where "v = (let v = (if y < view_start_line ed then y else view_start_line ed) in
      if y \<ge> v + 23 then y - 22 else v)"
  have v: "0 \<le> v" "v < 50" using y ok by (auto simp: v_def Let_def ed_ok_def)
  have eq: "editor_move_cursor dx dy ed = Some (ed\<lparr>cursor_x := x, cursor_y := y, view_start_line := v\<rparr>)"
    using row ye xe by (simp add: editor_move_cursor_def Let_def v_def)
  have x: "0 \<le> x" "x \<le> int (length (ed_lines ed ! nat y))" by (auto simp: x_def)
  have "ed_ok (ed\<lparr>cursor_x := x, cursor_y := y, view_start_line := v\<rparr>)"
    using ok y x v l by (simp add: ed_ok_def)
  moreover have "text_move dx dy (ed_view ed) = (ed_lines ed, nat y, nat x, ed_modified ed)"
  proof -
    have c: "int (nat (cursor_y ed)) = cursor_y ed" "int (nat (cursor_x ed)) = cursor_x ed"
      "int (length (ed_lines ed)) = line_count ed"
      using o(2,4,6) length_ed_lines [OF ok] by simp_all
    show ?thesis
      unfolding ed_view_def text_move.simps Let_def c y_def [symmetric] x_def [symmetric] by (rule refl)
  qed
  moreover have "ed_view (ed\<lparr>cursor_x := x, cursor_y := y, view_start_line := v\<rparr>) = (ed_lines ed, nat y, nat x, ed_modified ed)"
    by (simp add: ed_view_def ed_lines_def)
  moreover have "same_chrome ed (ed\<lparr>cursor_x := x, cursor_y := y, view_start_line := v\<rparr>)"
    by (simp add: same_chrome_def)
  ultimately show ?thesis unfolding eq yields_Some by (simp only: simp_thms)
qed

end
