(* ===== verification/Fs_Text.thy ===== *)
theory Fs_Text
  imports File_System
begin

text \<open>
  The texts of the files. Every buffer holds a text shorter than the buffer followed by zeros
  (\<open>texts_ok\<close>), so reading a file as a C string never leaves its buffer. The operations of the
  file system keep this together with well-formedness (\<open>fs_ok\<close>); the shell and the editor
  rely on the rules of this theory only.
\<close>

definition fs_ok :: "fs_state \<Rightarrow> bool" where
  "fs_ok s \<longleftrightarrow> wf_fs s \<and> texts_ok s"

lemma fs_okD: "fs_ok s \<Longrightarrow> wf_fs s" "fs_ok s \<Longrightarrow> texts_ok s" "fs_ok s \<Longrightarrow> store_ok s"
  by (simp_all add: fs_ok_def wf_fs_def)

lemma texts_okE:
  assumes "texts_ok s" and "file_block s p = Some blk"
  obtains y r where "text_block y blk" and "blk = y @ NUL # r" and "file_text s p = Some y" and "NUL \<notin> set y"
proof -
  obtain y where y: "text_block y blk" using assms by (auto simp: texts_ok_def)
  have "cstr blk = y" "NUL \<notin> set y" using y text_blockD(1) [OF y] by (simp_all add: text_block_def)
  then show ?thesis
    by (intro that [OF y text_block_unfold [OF y]]) (simp_all add: file_text_def assms(2))
qed

lemma created_texts:
  assumes wf: "wf_fs s" and c: "created s nm ty q e s'" and tx: "texts_ok s"
  shows "texts_ok s'"
  unfolding texts_ok_def
proof (intro allI impI)
  fix k blk assume k: "file_block s' k = Some blk"
  note c' = c [unfolded created_def]
  show "\<exists>y. text_block y blk \<and> node_size (the (node_at s' k)) \<le> length y"
  proof (cases "k = q")
    case True
    then have "blk = replicate MAX_FILE_SIZE NUL" "node_at s' k = Some e" "node_size e = 0"
      using k c' by (auto simp: file_block_def bind_eq_Some_conv)
    then show ?thesis using text_block_zero by auto
  next
    case False
    then have n: "node_at s' k = node_at s k" using c' by simp
    then have "node_at s k \<noteq> None" using k by (auto simp: file_block_def bind_eq_Some_conv)
    then have "file_block s k = Some blk"
      using created_dir_map(4) [OF _ c] wf k by (simp add: wf_fs_def)
    then show ?thesis using tx n by (auto simp: texts_ok_def)
  qed
qed

lemma fs_extends_attached: "fs_extends s s' \<Longrightarrow> attached s p \<Longrightarrow> attached s' p"
  by (auto simp: attached_def elim!: fs_extendsD)

text \<open>A new node: it can be entered into any attached directory.\<close>

definition fresh_node :: "fs_state \<Rightarrow> file_type \<Rightarrow> ptr \<Rightarrow> fs_state \<Rightarrow> bool" where
  "fresh_node s ty q s' \<longleftrightarrow> fs_extends s s' \<and> dir_map s' = dir_map s \<and>
     map_option node_type (node_at s' q) = Some ty \<and> fs_root s' = fs_root s \<and> fs_current_dir s' = fs_current_dir s \<and>
     (\<forall>p. attached_dir s (Some p) \<longrightarrow> attached_dir s' (Some p) \<and> enterable s' p q)"

lemma fs_create_file_ok:
  assumes ok: "fs_ok s" and nm: "terminated nm"
  shows "yields (fs_create_file nm ty s) (\<lambda>(f, s'). fs_ok s' \<and>
    (case f of None \<Rightarrow> s' = s | Some q \<Rightarrow> fresh_node s ty q s'))"
proof (cases "can_create s")
  case False
  then show ?thesis using ok fs_create_file_full [OF False] by (simp add: fs_okD)
next
  case True
  note o = fs_okD [OF ok]
  obtain q e s' where c: "fs_create_file nm ty s = Some (Some q, s')" "created s nm ty q e s'"
    by (rule fs_create_file_created [OF o(3) nm True])
  have "enterable s' p q" if p: "attached_dir s (Some p)" for p
  proof -
    obtain d where d: "node_at s p = Some d" using p by (auto simp: attached_dir_def)
    have "q = unat (memory_offset s)" using c(2) by (simp add: created_def)
    then have "p < q" using fresh_offset [OF o(3) d] by (simp add: SIZEOF_FS_NODE_def)
    then show ?thesis using c(2) by (simp add: created_def enterable_def)
  qed
  then show ?thesis
    using c created_wf [OF c(2) o(1)] created_texts [OF o(1) c(2) o(2)] created_dir_map(1) [OF o(3) c(2)]
      created_extends [OF c(2)]
    by (auto simp: fs_ok_def fresh_node_def created_def intro: attached_extends)
qed

lemma dir_updated_ok:
  assumes "dir_updated s p m s'" and "fs_ok s"
  shows "fs_ok s'"
  using dir_updated_wf [OF assms(1)] texts_ok_cong [OF dir_updated_file_block [OF assms(1)]] assms
  by (simp add: fs_ok_def dir_updated_def)

lemma fs_add_child_ok:
  assumes ok: "fs_ok s" and p: "attached_dir s (Some p)" and c: "enterable s p c"
  shows "yields (fs_add_child (Some p) (Some c) s) (\<lambda>(r, s'). fs_ok s' \<and> fs_extends s s' \<and> (r \<noteq> 0 \<longrightarrow> s' = s) \<and>
    fs_root s' = fs_root s)"
proof -
  note o = fs_okD [OF ok]
  obtain d where d: "node_at s p = Some d" "node_type d = FILE_TYPE_DIRECTORY" "node_parent d \<noteq> None"
    using p by (auto simp: attached_dir_def)
  obtain e where e: "node_at s c = Some e" "node_parent e = None" "p < c"
    using c by (auto simp: enterable_def split: option.splits)
  have "child_count d \<le> MAX_FILES_PER_DIR" by (rule node_shapeD(3) [OF store_ok_shape [OF o(3) d(1)]])
  then consider "child_count d = MAX_FILES_PER_DIR \<or> dir_map s p (label s c) \<noteq> None"
    | "child_count d < MAX_FILES_PER_DIR" "dir_map s p (label s c) = None" by linarith
  then show ?thesis
  proof cases
    case 1
    then show ?thesis using fs_add_child_refused [OF o(3) d(1,2) e(1)] ok by simp
  next
    case 2
    then obtain s' where s': "fs_add_child (Some p) (Some c) s = Some (0, s')"
      "dir_updated s p ((dir_map s p)(label s c \<mapsto> c)) s'"
      by (rule fs_add_child_added [OF o(3) d e])
    then show ?thesis using dir_updated_ok [OF s'(2) ok] by (simp add: dir_updated_def only_nodes_def)
  qed
qed

lemma fs_remove_child_ok:
  assumes ok: "fs_ok s" and p: "attached_dir s (Some p)" and nm: "terminated nm"
  shows "yields (fs_remove_child (Some p) nm s) (\<lambda>(r, s'). fs_ok s' \<and> fs_extends s s')"
proof -
  note o = fs_okD [OF ok]
  obtain d where d: "node_at s p = Some d" "node_type d = FILE_TYPE_DIRECTORY"
    using p by (auto simp: attached_dir_def)
  show ?thesis
  proof (cases "dir_map s p (cstr nm)")
    case None
    then show ?thesis using fs_remove_child_absent [OF o(3) d nm None] ok by simp
  next
    case (Some k)
    obtain s' where s': "fs_remove_child (Some p) nm s = Some (0, s')"
      "dir_updated s p ((dir_map s p)(cstr nm := None)) s'"
      by (rule fs_remove_child_removed [OF o(3) d nm Some])
    then show ?thesis using dir_updated_ok [OF s'(2) ok] by (simp add: dir_updated_def)
  qed
qed

lemma fs_delete_node_ok':
  assumes ok: "fs_ok s" and p: "node_at s p = Some d"
  shows "yields (fs_delete_node (Some p) s) (\<lambda>(r, s'). fs_ok s' \<and> fs_extends s s')"
proof (cases "deletable s p")
  case False
  then show ?thesis using fs_delete_node_refused [OF p False] ok by simp
next
  case True
  note o = fs_okD [OF ok]
  obtain s' where s': "fs_delete_node (Some p) s = Some (0, s')" "unlinked s p s'"
    by (rule fs_delete_node_ok [OF o(3) True])
  have "texts_ok s'" using texts_ok_cong [of s' s] s'(2) o(2) by (simp add: unlinked_def)
  then show ?thesis using s' unlinked_wf [OF s'(2) o(1)] by (simp add: fs_ok_def unlinked_def)
qed

text \<open>Writing a text; writing the first bytes of a zero-padded text is the same.\<close>

lemma write_texts:
  assumes tx: "texts_ok s" and blk: "file_block s p = Some blk" and y: "text_block y blk"
    and x: "NUL \<notin> set x" "length x < MAX_FILE_SIZE"
    and s': "file_block s' = (file_block s)(p \<mapsto> x @ drop (length x) blk)"
      "\<exists>t. node_at s' = (node_at s)(p \<mapsto> d\<lparr>node_size := length x, modification_time := t\<rparr>)"
  shows "texts_ok s'"
  unfolding texts_ok_def
proof (intro allI impI)
  fix k b assume k: "file_block s' k = Some b"
  show "\<exists>z. text_block z b \<and> node_size (the (node_at s' k)) \<le> length z"
  proof (cases "k = p")
    case True
    have "text_block (x @ drop (length x) y) (x @ drop (length x) blk)" by (rule text_block_overwrite [OF y x])
    moreover have "b = x @ drop (length x) blk" using k s'(1) True by simp
    moreover have "node_size (the (node_at s' k)) = length x" using s'(2) True by auto
    ultimately show ?thesis by (intro exI [of _ "x @ drop (length x) y"]) simp
  next
    case False
    then show ?thesis using k s' tx by (auto simp: texts_ok_def)
  qed
qed

lemma fs_write_file_ok':
  assumes ok: "fs_ok s" and p: "node_at s p = Some d"
    and x: "take n data = x" "NUL \<notin> set x" "length x = n" "n < MAX_FILE_SIZE"
  shows "yields (fs_write_file (Some p) data n s) (\<lambda>(r, s'). fs_ok s' \<and> fs_extends s s' \<and>
    r = (if file_block s p = None then -1 else int n) \<and> fs_current_dir s' = fs_current_dir s)"
proof -
  note o = fs_okD [OF ok]
  show ?thesis
  proof (cases "node_data d")
    case None
    then show ?thesis using fs_write_file_refused [OF p] ok p by (simp add: file_block_def)
  next
    case (Some b)
    obtain blk where b: "block_at s b = Some blk" by (rule data_block [OF o(3) p Some])
    have fb: "file_block s p = Some blk" using p Some b by (simp add: file_block_def)
    obtain y where y: "text_block y blk" by (rule texts_okE [OF o(2) fb])
    have m: "n = min n MAX_FILE_SIZE" "n \<le> length data" using x by auto
    obtain s' where s': "fs_write_file (Some p) data n s = Some (int n, s')" "store_ok s'" "same_tree s s'"
      "file_block s' = (file_block s)(p \<mapsto> take n data @ drop n blk)"
      "\<exists>t. node_at s' = (node_at s)(p \<mapsto> d\<lparr>node_size := n, modification_time := t\<rparr>)"
      by (rule fs_write_file_ok [OF o(3) p Some b m])
    have "texts_ok s'" by (rule write_texts [OF o(2) fb y x(2)]) (use s' x in auto)
    then show ?thesis using s' fb same_tree_wf [OF s'(3,2) o(1)] by (simp add: fs_ok_def same_tree_def)
  qed
qed

lemma fs_copy_file_ok:
  assumes "fs_ok s" "terminated src" "terminated dst" "length (cstr dst) < MAX_FILENAME_LENGTH"
  shows "yields (fs_copy_file src dst s) (\<lambda>(r, s'). fs_ok s')"
  by (cases rule: fs_copy_file_cases [OF assms(2,3) copy_fits_short [OF assms(4)] fs_okD(1) [OF assms(1)]])
     (use assms(1) in \<open>simp_all add: tree_kept_def copied_def fs_ok_def\<close>)

lemma fs_move_file_ok:
  assumes "fs_ok s" "terminated src" "terminated dst" "length (cstr dst) < MAX_FILENAME_LENGTH"
  shows "yields (fs_move_file src dst s) (\<lambda>(r, s'). fs_ok s')"
  by (cases rule: fs_move_file_cases [OF assms(2,3) copy_fits_short [OF assms(4)] fs_okD(1) [OF assms(1)]])
     (use assms(1) in \<open>simp_all add: tree_kept_def moved_def fs_ok_def\<close>)

text \<open>Changing directory is undefined exactly when the new path does not fit its array.\<close>

definition path_fits :: "fs_state \<Rightarrow> string \<Rightarrow> bool" where
  "path_fits s x \<longleftrightarrow> (\<forall>t. resolve_spec s x = Some t \<and> attached_dir s (Some t) \<longrightarrow>
     length (path_string s t) < MAX_PATH_LENGTH)"

lemma fs_change_directory_ok:
  assumes ok: "fs_ok s" and path: "terminated path" and fits: "path_fits s (cstr path)"
  shows "yields (fs_change_directory (Some path) s) (\<lambda>(r, s'). fs_ok s')"
proof -
  note o = fs_okD [OF ok]
  have "texts_ok (s\<lparr>fs_current_dir := t, current_path := cp\<rparr>)" for t cp
    by (rule texts_ok_cong [THEN iffD2, OF _ _ o(2)]) (simp_all add: fun_eq_iff file_block_def)
  moreover note wf = fs_change_directory_wf [OF o(1) path]
  ultimately show ?thesis
  proof (cases rule: fs_change_directory_cases [OF o(1) path])
    case (3 t)
    then show ?thesis using fits by (auto simp: path_fits_def)
  next
    case (4 t cp)
    then show ?thesis using wf [OF 4(3)] \<open>\<And>t cp. texts_ok (s\<lparr>fs_current_dir := t, current_path := cp\<rparr>)\<close>
      by (simp add: fs_ok_def)
  qed (use ok in \<open>simp_all add: fs_ok_def\<close>)
qed

text \<open>The boot state.\<close>

lemma fs_init_ok:
  "yields (fs_init fs_boot) (\<lambda>(msg, s). fs_ok s \<and> cstr msg = ''File system initialized'' @ [NL] \<and> terminated msg \<and>
    cstr (current_path s) = ''/'')"
proof -
  obtain s d where s: "fs_init fs_boot = Some (lit (''File system initialized'' @ [NL]), s)" "wf_fs s"
    "cstr (current_path s) = ''/''" "block_at s = Map.empty"
    by (rule fs_init_boot)
  have "file_block s p = None" for p using s(4) by (simp add: file_block_def bind_eq_None_conv)
  then have "texts_ok s" by (simp add: texts_ok_def)
  moreover have "cstr (lit (''File system initialized'' @ [NL])) = ''File system initialized'' @ [NL]"
    by (rule cstr_lit) simp
  ultimately show ?thesis using s by (simp add: fs_ok_def)
qed

lemma demo_fs_ok: "fs_ok demo_fs"
proof -
  obtain s0 d0 where i: "fs_init fs_boot = Some (lit (''File system initialized'' @ [NL]), s0)" "wf_fs s0"
    "fs_root s0 = Some 0" "fs_current_dir s0 = Some 0"
    by (rule fs_init_boot)
  have s0: "fs_ok s0" using fs_init_ok i(1) by simp
  have dir: "attached_dir s0 (Some 0)" using i(2,4) by (simp add: wf_fs_def)
  obtain f s1 where c: "fs_create_file (lit ''notes'') FILE_TYPE_REGULAR s0 = Some (f, s1)" "fs_ok s1"
    "case f of None \<Rightarrow> s1 = s0 | Some q \<Rightarrow> fresh_node s0 FILE_TYPE_REGULAR q s1"
    by (rule yields_pairE [OF fs_create_file_ok [OF s0 terminated_lit]]) blast
  have "yields (do { (r, s) \<leftarrow> fs_add_child (Some 0) f s1; fs_write_file f (lit ''hello'') 5 s }) (\<lambda>(r, s). fs_ok s)"
  proof (cases f)
    case None
    then show ?thesis using c(2) by (simp add: fs_add_child_def fs_write_file_def)
  next
    case (Some q)
    then have q: "fresh_node s0 FILE_TYPE_REGULAR q s1" using c(3) by simp
    then have dir1: "attached_dir s1 (Some 0)" "enterable s1 0 q" using dir by (auto simp: fresh_node_def)
    obtain r s2 where s2: "fs_add_child (Some 0) (Some q) s1 = Some (r, s2)" "fs_ok s2" "fs_extends s1 s2"
      by (rule yields_pairE [OF fs_add_child_ok [OF c(2) dir1]]) blast
    obtain d1 where "node_at s1 q = Some d1" using q by (auto simp: fresh_node_def)
    then obtain d where d: "node_at s2 q = Some d" using s2(3) by (auto elim: fs_extendsD)
    have x: "take 5 (lit ''hello'') = ''hello''" "NUL \<notin> set ''hello''" "length ''hello'' = 5" "5 < MAX_FILE_SIZE"
      by (simp_all add: lit_def MAX_FILE_SIZE_def)
    show ?thesis using fs_write_file_ok' [OF s2(2) d x] s2(1) Some by (auto elim!: yields_mono)
  qed
  moreover have "fs_root s1 = Some 0"
    using c(3) i(3) by (cases f) (simp_all add: fresh_node_def)
  ultimately show ?thesis using i(1) c(1) by (auto simp: demo_fs_def yields_iff split_def)
qed

end
