(* ===== verification/Editor_File.thy ===== *)
theory Editor_File
  imports Editor_Text Fs_Text
begin

text \<open>
  Saving and opening (\<open>editor_save_file\<close>, \<open>editor_open\<close>, \<open>editor_init\<close>): what is written is
  the lines joined by newlines, what is read is the text split again, and the 3800-byte buffer
  on the stack is always large enough.
\<close>

section \<open>Building the file content\<close>

definition join_lines :: "string list \<Rightarrow> string" where
  "join_lines ls = (if ls = [] then [] else concat (map (\<lambda>l. l @ [NL]) (butlast ls)) @ last ls)"

lemma length_concat_le: "\<forall>l \<in> set ls. length l \<le> n \<Longrightarrow> length (concat (map (\<lambda>l. l @ [c]) ls)) \<le> length ls * Suc n"
  by (induction ls) auto

lemma length_join_lines:
  assumes "\<forall>l \<in> set ls. length l \<le> 75" and "length ls \<le> 50"
  shows "length (join_lines ls) < 3800"
proof (cases "ls = []")
  case False
  have "\<forall>l \<in> set (butlast ls). length l \<le> 75" using assms(1) by (auto dest: in_set_butlastD)
  then have "length (concat (map (\<lambda>l. l @ [NL]) (butlast ls))) \<le> (length ls - 1) * 76"
    using length_concat_le [of "butlast ls" 75 NL] by simp
  moreover have "length (last ls) \<le> 75" using assms(1) False by simp
  moreover have "(length ls - 1) * 76 \<le> 49 * 76" using assms(2) by (intro mult_right_mono) simp_all
  ultimately show ?thesis using False by (simp add: join_lines_def)
qed (simp add: join_lines_def)

text \<open>The local array after the characters \<open>w\<close> have been pushed.\<close>

definition pushed :: "string \<Rightarrow> int \<times> char list" where
  "pushed w = (int (length w), w @ replicate (3800 - length w) NUL)"

lemma push_char_pushed:
  assumes "length w < 3800"
  shows "push_char c (pushed w) = Some (pushed (w @ [c]))"
proof -
  have "(w @ replicate (3800 - length w) NUL)[length w := c] = (w @ [c]) @ replicate (3800 - length (w @ [c])) NUL"
    using overwrite_next [of "length w" "replicate 3800 NUL" w c] assms by simp
  then show ?thesis using assms by (simp add: push_char_def pushed_def)
qed

lemma push_row_pushed:
  assumes "terminated row" and "length w + length (cstr row) \<le> 3800"
  shows "ofold (\<lambda>j pc. do { c \<leftarrow> arr_get row j; push_char c pc }) [0..<length (cstr row)] (pushed w) =
    Some (pushed (w @ cstr row))"
proof -
  let ?x = "cstr row"
  have "ofold (\<lambda>j pc. do { c \<leftarrow> arr_get row j; push_char c pc }) [0..<length ?x] (pushed w) =
    Some (pushed (w @ take (length ?x) ?x))"
  proof (rule ofold_upt_eq [where g = "\<lambda>i. pushed (w @ take i ?x)"])
    fix i assume i: "0 \<le> i" "i < length ?x"
    obtain r where "row = ?x @ NUL # r" using assms(1) by (rule terminatedE)
    then have "row ! i = ?x ! i" "i < length row" using i by (metis nth_append, metis length_append trans_less_add1)
    moreover have "take (Suc i) ?x = take i ?x @ [?x ! i]" using i by (simp add: take_Suc_conv_app_nth)
    ultimately show "do { c \<leftarrow> arr_get row i; push_char c (pushed (w @ take i ?x)) } = Some (pushed (w @ take (Suc i) ?x))"
      using push_char_pushed [of "w @ take i ?x" "?x ! i"] i assms(2) by simp
  qed simp_all
  then show ?thesis by simp
qed

text \<open>What has been pushed before line \<open>i\<close> is handled.\<close>

definition lines_before :: "string list \<Rightarrow> nat \<Rightarrow> string" where
  "lines_before ls i = (if i < length ls then concat (map (\<lambda>l. l @ [NL]) (take i ls)) else join_lines ls)"

lemma ed_lines_short:
  assumes "ed_ok ed" and "l \<in> set (ed_lines ed)"
  shows "length l \<le> 75" and "NUL \<notin> set l"
proof -
  obtain k where "k < length (ed_lines ed)" "l = ed_lines ed ! k" using assms(2) by (metis in_set_conv_nth)
  then have k: "k < nat (line_count ed)" "l = texts (ed_buffer ed) ! k"
    using length_ed_lines [OF assms(1)] ed_lines_nth [OF assms(1)] by simp_all
  then have "k < 50" using ed_okD(3) [OF assms(1)] by simp
  from rows_okD(4,5) [OF ed_okD(1) [OF assms(1)] this] k(2) show "length l \<le> 75" "NUL \<notin> set l" by simp_all
qed

lemma save_line_eq:
  assumes ok: "ed_ok ed" and i: "i < nat (line_count ed)"
  shows "save_line ed (int i) (pushed (lines_before (ed_lines ed) i)) = Some (pushed (lines_before (ed_lines ed) (Suc i)))"
proof -
  note o = ed_okD [OF ok]
  let ?ls = "ed_lines ed" and ?n = "nat (line_count ed)"
  have n: "length ?ls = ?n" by (rule length_ed_lines [OF ok])
  have i50: "i < 50" using i o by simp
  note r = rows_okD [OF o(1) i50]
  have li: "cstr (ed_buffer ed ! i) = ?ls ! i" using r(3) ed_lines_nth [OF ok i] by simp
  have row: "int_get (ed_buffer ed) (int i) = Some (ed_buffer ed ! i)" using get_row_eq [OF o(1), of "int i"] i50 by simp
  let ?w = "concat (map (\<lambda>l. l @ [NL]) (take i ?ls))"
  have before: "lines_before ?ls i = ?w" using i n by (simp add: lines_before_def)
  have "length ?w \<le> i * 76"
  proof -
    have "\<forall>l \<in> set (take i ?ls). length l \<le> 75" using ed_lines_short(1) [OF ok] by (auto dest: in_set_takeD)
    from length_concat_le [OF this] i n show ?thesis by simp
  qed
  moreover have "i * 76 \<le> 49 * 76" using i50 by simp
  ultimately have w: "length ?w \<le> 3724" by linarith
  have short: "length (?ls ! i) \<le> 75" using ed_lines_short(1) [OF ok] i n by simp
  have push: "ofold (\<lambda>j pc. do { c \<leftarrow> arr_get (ed_buffer ed ! i) j; push_char c pc }) [0..<length (?ls ! i)] (pushed ?w) =
      Some (pushed (?w @ ?ls ! i))"
    using push_row_pushed [OF r(2), of ?w] w short by (simp add: li)
  have last: "int i < line_count ed - 1 \<longleftrightarrow> Suc i < ?n" using o by linarith
  show ?thesis
  proof (cases "Suc i < ?n")
    case True
    then have "lines_before ?ls (Suc i) = (?w @ ?ls ! i) @ [NL]"
      using i n by (simp add: lines_before_def take_Suc_conv_app_nth)
    moreover have "push_char NL (pushed (?w @ ?ls ! i)) = Some (pushed ((?w @ ?ls ! i) @ [NL]))"
      using w short by (intro push_char_pushed) simp
    ultimately show ?thesis using row r(2) push last True
      by (simp add: save_line_def before strlen_eq li)
  next
    case False
    then have i': "Suc i = length ?ls" using i n by simp
    then have "?ls \<noteq> []" "length ?ls - 1 = i" by auto
    then have "lines_before ?ls (Suc i) = ?w @ ?ls ! i"
      using i' by (simp add: lines_before_def join_lines_def butlast_conv_take last_conv_nth)
    then show ?thesis using row r(2) push last False
      by (simp add: save_line_def before strlen_eq li)
  qed
qed

lemma save_content_eq:
  assumes ok: "ed_ok ed"
  shows "save_content ed = Some (pushed (join_lines (ed_lines ed)))"
proof -
  note o = ed_okD [OF ok]
  let ?ls = "ed_lines ed" and ?n = "nat (line_count ed)"
  have n: "length ?ls = ?n" by (rule length_ed_lines [OF ok])
  have "pushed (lines_before ?ls 0) = (0, replicate (nat (EDITOR_MAX_LINES * EDITOR_MAX_LINE_LENGTH)) NUL)"
    using n o by (simp add: lines_before_def pushed_def ed_consts)
  moreover have "[0..line_count ed - 1] = map int [0..<?n]"
    using upto_map_int [of 0 ?n] o by simp
  moreover have "ofold (\<lambda>i. save_line ed (int i)) [0..<?n] (pushed (lines_before ?ls 0)) = Some (pushed (lines_before ?ls ?n))"
    by (rule ofold_upt_eq [where g = "\<lambda>i. pushed (lines_before ?ls i)"]) (use save_line_eq [OF ok] in auto)
  ultimately have "ofold (save_line ed) [0..line_count ed - 1]
      (0, replicate (nat (EDITOR_MAX_LINES * EDITOR_MAX_LINE_LENGTH)) NUL) = Some (pushed (join_lines ?ls))"
    using n by (simp add: ofold_map lines_before_def)
  moreover have "int_set (snd (pushed (join_lines ?ls))) (fst (pushed (join_lines ?ls))) NUL = Some (snd (pushed (join_lines ?ls)))"
  proof -
    have "length (join_lines ?ls) < 3800"
      using length_join_lines [of ?ls] ed_lines_short(1) [OF ok] n o by simp
    then show ?thesis by (auto simp: pushed_def intro!: list_update_same_conv [THEN iffD2] simp: nth_append)
  qed
  ultimately show ?thesis by (simp add: save_content_def split_def)
qed

section \<open>Saving\<close>

text \<open>The node the text is written to.\<close>

definition save_node :: "fs_state \<Rightarrow> editor_state \<Rightarrow> (ptr option \<times> fs_state) option" where
  "save_node s ed = do {
     node \<leftarrow> fs_resolve_path (Some (ed_filename ed)) s;
     if node = None then do {
         let parent = fs_get_current_dir s;
         (node, s) \<leftarrow> fs_create_file (ed_filename ed) FILE_TYPE_REGULAR s;
         if node \<noteq> None then do { (r, s) \<leftarrow> fs_add_child parent node s; Some (node, s) }
         else Some (node, s) }
       else Some (node, s) }"

lemma editor_save_file_eq:
  "editor_save_file s ed = do {
     (pos, content) \<leftarrow> save_content ed;
     (node, s) \<leftarrow> save_node s ed;
     (written, s) \<leftarrow> (if node \<noteq> None then do { (r, s) \<leftarrow> fs_write_file node content (nat pos) s; Some (r = 0, s) }
       else Some (False, s));
     ed \<leftarrow> (if written then editor_set_status (lit ''File saved'') (ed\<lparr>ed_modified := False\<rparr>)
       else editor_set_status (lit ''Error saving file'') ed);
     Some (s, ed) }"
  unfolding editor_save_file_def save_node_def by (simp add: bind_assoc)

text \<open>The status line after a save: the flag is cleared only if \<open>fs_write_file\<close> returned 0.\<close>

lemma save_status_ok:
  assumes ok: "ed_ok ed"
  shows "yields (if written then editor_set_status (lit ''File saved'') (ed\<lparr>ed_modified := False\<rparr>)
       else editor_set_status (lit ''Error saving file'') ed)
    (\<lambda>ed'. ed_ok ed' \<and> ed_lines ed' = ed_lines ed \<and> ed_mode ed' = ed_mode ed \<and> ed_filename ed' = ed_filename ed \<and>
      ed_modified ed' = (ed_modified ed \<and> \<not> written) \<and> command_buffer ed' = command_buffer ed \<and>
      ed_view ed' = (ed_lines ed, nat (cursor_y ed), nat (cursor_x ed), ed_modified ed \<and> \<not> written) \<and>
      command_length ed' = command_length ed \<and>
      cstr (status_message ed') = (if written then ''File saved'' else ''Error saving file''))"
proof (cases written)
  case True
  have ok': "ed_ok (ed\<lparr>ed_modified := False\<rparr>)" using ok by (simp add: ed_ok_def)
  show ?thesis using set_status_ok [OF ok', of "''File saved''"] True
    by (auto simp: ed_view_def ed_lines_def elim!: yields_mono)
next
  case False
  show ?thesis using set_status_ok [OF ok, of "''Error saving file''"] False
    by (auto simp: ed_view_def elim!: yields_mono)
qed

lemma save_node_ok:
  assumes ok: "fs_ok s" and ed: "ed_ok ed"
  shows "yields (save_node s ed) (\<lambda>(node, s'). fs_ok s' \<and> fs_extends s s' \<and> (\<forall>p. node = Some p \<longrightarrow> node_at s' p \<noteq> None))"
proof -
  note o = fs_okD [OF ok]
  have t: "terminated (ed_filename ed)" using ed by (simp add: ed_ok_def)
  note r = fs_resolve_path_eq [OF o(1) t]
  show ?thesis
  proof (cases "resolve_spec s (cstr (ed_filename ed))")
    case (Some p)
    then have "node_at s p \<noteq> None" using resolve_spec_attached [OF o(1) Some] by (auto simp: attached_def)
    then show ?thesis using r Some ok by (simp add: save_node_def)
  next
    case None
    obtain cwd where cwd: "fs_current_dir s = Some cwd" "attached_dir s (Some cwd)"
      using wf_fsE [OF o(1)] by metis
    obtain f s1 where c: "fs_create_file (ed_filename ed) FILE_TYPE_REGULAR s = Some (f, s1)" "fs_ok s1"
      "case f of None \<Rightarrow> s1 = s | Some q \<Rightarrow> fresh_node s FILE_TYPE_REGULAR q s1"
      using fs_create_file_ok [OF ok t, of FILE_TYPE_REGULAR] by (auto elim: yieldsE)
    show ?thesis
    proof (cases f)
      case None
      then show ?thesis using r \<open>resolve_spec _ _ = None\<close> c ok by (simp add: save_node_def Let_def)
    next
      case (Some q)
      then have q: "fs_extends s s1" "node_at s1 q \<noteq> None" "attached_dir s1 (Some cwd)" "enterable s1 cwd q"
        using c(3) cwd(2) by (auto simp: fresh_node_def)
      have "yields (fs_add_child (Some cwd) (Some q) s1)
        (\<lambda>(r, s'). fs_ok s' \<and> fs_extends s s' \<and> node_at s' q \<noteq> None)"
        using fs_add_child_ok [OF c(2) q(3,4)] q(2)
        by (auto elim!: yields_mono intro: fs_extends_trans [OF q(1)] elim: fs_extendsD)
      then show ?thesis using r \<open>resolve_spec _ _ = None\<close> Some c(1) cwd(1)
        by (auto simp: save_node_def Let_def fs_get_current_dir_def elim!: yields_mono)
    qed
  qed
qed

lemma length_join_ed:
  assumes "ed_ok ed"
  shows "length (join_lines (ed_lines ed)) < 3800" and "NUL \<notin> set (join_lines (ed_lines ed))"
proof -
  show "length (join_lines (ed_lines ed)) < 3800"
    using length_join_lines [of "ed_lines ed"] ed_lines_short(1) [OF assms] length_ed_lines [OF assms] ed_okD(3) [OF assms]
    by simp
  show "NUL \<notin> set (join_lines (ed_lines ed))"
    using ed_lines_short(2) [OF assms] by (auto simp: join_lines_def dest: in_set_butlastD last_in_set)
qed

lemma take_pushed [simp]: "take (length x) (snd (pushed x)) = x" "nat (fst (pushed x)) = length x"
  by (simp_all add: pushed_def)

lemma editor_save_file_ok:
  assumes ok: "fs_ok s" and ed: "ed_ok ed"
  shows "yields (editor_save_file s ed) (\<lambda>(s', ed'). fs_ok s' \<and> fs_extends s s' \<and> ed_ok ed' \<and> ed_lines ed' = ed_lines ed \<and>
    ed_mode ed' = ed_mode ed \<and> ed_filename ed' = ed_filename ed \<and> (\<exists>w. ed_modified ed' = (ed_modified ed \<and> \<not> w) \<and>
      ed_view ed' = (ed_lines ed, nat (cursor_y ed), nat (cursor_x ed), ed_modified ed \<and> \<not> w) \<and> (w \<longrightarrow> join_lines (ed_lines ed) = [])) \<and>
    command_buffer ed' = command_buffer ed \<and>
    cstr (status_message ed') \<in> {''File saved'', ''Error saving file''})"
proof -
  let ?w = "join_lines (ed_lines ed)"
  obtain node s1 where n: "save_node s ed = Some (node, s1)" "fs_ok s1" "fs_extends s s1"
    "\<forall>p. node = Some p \<longrightarrow> node_at s1 p \<noteq> None"
    using save_node_ok [OF ok ed] by (auto elim: yieldsE)
  have w: "NUL \<notin> set ?w" "length ?w < MAX_FILE_SIZE"
    using length_join_ed [OF ed] by (simp_all add: MAX_FILE_SIZE_def)
  have "yields (if node \<noteq> None then do { (r, s) \<leftarrow> fs_write_file node (snd (pushed ?w)) (length ?w) s1; Some (r = 0, s) }
       else Some (False, s1)) (\<lambda>(written, s2). fs_ok s2 \<and> fs_extends s s2 \<and> (written \<longrightarrow> ?w = []))"
  proof (cases node)
    case None
    then show ?thesis using n by simp
  next
    case (Some p)
    then obtain d where "node_at s1 p = Some d" using n(4) by auto
    from fs_write_file_ok' [OF n(2) this take_pushed(1) w(1) refl w(2)] Some show ?thesis
      using fs_extends_trans [OF n(3)] by (auto elim!: yields_mono split: if_splits)
  qed
  then obtain written s2 where w: "(if node \<noteq> None then do { (r, s) \<leftarrow> fs_write_file node (snd (pushed ?w)) (length ?w) s1; Some (r = 0, s) }
       else Some (False, s1)) = Some (written, s2)" "fs_ok s2" "fs_extends s s2" "written \<longrightarrow> ?w = []"
    by (rule yields_pairE) blast
  obtain ed1 where e: "(if written then editor_set_status (lit ''File saved'') (ed\<lparr>ed_modified := False\<rparr>)
       else editor_set_status (lit ''Error saving file'') ed) = Some ed1" "ed_ok ed1"
    "ed_lines ed1 = ed_lines ed" "ed_mode ed1 = ed_mode ed" "ed_filename ed1 = ed_filename ed"
    "ed_modified ed1 = (ed_modified ed \<and> \<not> written)" "command_buffer ed1 = command_buffer ed"
    "ed_view ed1 = (ed_lines ed, nat (cursor_y ed), nat (cursor_x ed), ed_modified ed \<and> \<not> written)"
    "cstr (status_message ed1) = (if written then ''File saved'' else ''Error saving file'')"
    using save_status_ok [OF ed, of written] unfolding yields_iff by blast
  have pw: "save_content ed = Some (int (length ?w), snd (pushed ?w))"
    unfolding save_content_eq [OF ed] by (simp add: pushed_def)
  have "editor_save_file s ed = Some (s2, ed1)"
    unfolding editor_save_file_eq pw by (simp only: bind.bind_lunit prod.case nat_int n(1) w(1) e(1))
  then show ?thesis using w(2-4) e(2-) by auto
qed

text \<open>The text a file holds after the lines have been written over it.\<close>

lemma save_over:
  assumes wf: "wf_fs s" and ok: "ed_ok ed" and node: "save_node s ed = Some (Some p, s1)" and wf1: "wf_fs s1"
    and blk: "file_block s1 p = Some blk" and y: "text_block y blk"
  defines "x \<equiv> join_lines (ed_lines ed)"
  shows "yields (editor_save_file s ed) (\<lambda>(s', ed'). wf_fs s' \<and> ed_ok ed' \<and> ed_lines ed' = ed_lines ed \<and>
    file_text s' p = Some (x @ drop (length x) y) \<and> (\<forall>q. q \<noteq> p \<longrightarrow> file_block s' q = file_block s1 q) \<and>
    same_tree s1 s' \<and> (texts_ok s1 \<longrightarrow> texts_ok s') \<and> ed_filename ed' = ed_filename ed \<and> ed_modified ed' = (ed_modified ed \<and> x \<noteq> []) \<and>
    cstr (status_message ed') = (if x = [] then ''File saved'' else ''Error saving file''))"
proof -
  have sok: "store_ok s1" using wf1 by (simp add: wf_fs_def)
  obtain d b where d: "node_at s1 p = Some d" "node_data d = Some b" "block_at s1 b = Some blk"
    using blk by (auto simp: file_block_def bind_eq_Some_conv)
  have m: "length x = min (length x) MAX_FILE_SIZE" "length x \<le> length (snd (pushed x))"
    using length_join_ed(1) [OF ok] by (simp_all add: x_def pushed_def MAX_FILE_SIZE_def)
  obtain s' where s': "fs_write_file (Some p) (snd (pushed x)) (length x) s1 = Some (int (length x), s')"
    "store_ok s'" "same_tree s1 s'" "file_block s' = (file_block s1)(p \<mapsto> take (length x) (snd (pushed x)) @ drop (length x) blk)"
    "\<exists>t. node_at s' = (node_at s1)(p \<mapsto> d\<lparr>node_size := length x, modification_time := t\<rparr>)"
    by (rule fs_write_file_ok [OF sok d m])
  have tk: "take (length x) (snd (pushed x)) = x" by (simp add: pushed_def)
  have nul: "NUL \<notin> set x" "length x < MAX_FILE_SIZE"
    using length_join_ed [OF ok] by (simp_all add: x_def MAX_FILE_SIZE_def)
  have "text_block (x @ drop (length x) y) (x @ drop (length x) blk)"
    by (rule text_block_overwrite [OF y nul])
  then have cont: "file_text s' p = Some (x @ drop (length x) y)"
    using text_blockD(1) s'(4) by (simp add: file_text_def tk)
  have "texts_ok s1 \<Longrightarrow> texts_ok s'"
    by (rule write_texts [OF _ blk y nul _ s'(5)]) (use s'(4) tk in simp_all)
  moreover have "wf_fs s'" by (rule same_tree_wf [OF s'(3,2) wf1])
  ultimately show ?thesis
    unfolding editor_save_file_eq save_content_eq [OF ok] x_def [symmetric]
    using node s' cont save_status_ok [OF ok, of "x = []"]
    by (auto simp: split_def pushed_def elim!: yields_mono)
qed

lemma save_node_existing:
  assumes "wf_fs s" and "ed_ok ed" and "resolve_spec s (cstr (ed_filename ed)) = Some p"
  shows "save_node s ed = Some (Some p, s)"
  using fs_resolve_path_eq [OF assms(1)] assms(2,3) by (simp add: save_node_def ed_ok_def)

lemma text_block_Nil: "text_block [] (replicate MAX_FILE_SIZE NUL)"
  by (simp add: text_block_def MAX_FILE_SIZE_def)

lemma save_node_new:
  assumes wf: "wf_fs s" and ok: "ed_ok ed" and new: "resolve_spec s (cstr (ed_filename ed)) = None"
    and can: "can_create s" and room: "unat (memory_offset s) + SIZEOF_FS_NODE + MAX_FILE_SIZE < 65536"
    and cwd: "fs_current_dir s = Some c" "\<not> dir_full s c"
    and free: "dir_map s c (take (MAX_FILENAME_LENGTH - 2) (cstr (ed_filename ed))) = None"
  obtains q s1 where "save_node s ed = Some (Some q, s1)" and "wf_fs s1" and "node_at s q = None"
    and "file_block s1 q = Some (replicate MAX_FILE_SIZE NUL)"
    and "dir_map s1 = (dir_map s)(c := (dir_map s c)(take (MAX_FILENAME_LENGTH - 2) (cstr (ed_filename ed)) \<mapsto> q))"
    and "\<And>k. node_at s k \<noteq> None \<Longrightarrow> file_block s1 k = file_block s k"
proof -
  have t: "terminated (ed_filename ed)" using ok by (simp add: ed_ok_def)
  have sok: "store_ok s" using wf by (simp add: wf_fs_def)
  have dir: "attached_dir s (Some c)" using wf cwd(1) by (simp add: wf_fs_def)
  obtain q e s0 where c: "fs_create_file (ed_filename ed) FILE_TYPE_REGULAR s = Some (Some q, s0)"
    "created s (ed_filename ed) FILE_TYPE_REGULAR q e s0"
    by (rule fs_create_file_created [OF sok t can])
  note c' = c(2) [unfolded created_def]
  note old = created_dir_map [OF sok c(2)]
  have dir0: "attached_dir s0 (Some c)" by (rule attached_extends [OF dir created_extends [OF c(2)]])
  obtain dd where dd: "node_at s0 c = Some dd" "node_type dd = FILE_TYPE_DIRECTORY" "node_parent dd \<noteq> None"
    using dir0 by (auto simp: attached_dir_def)
  have "c \<noteq> q" using dir c' by (auto simp: attached_dir_def)
  then have "node_at s c = Some dd" using dd(1) c' by simp
  then have lt: "c < q" and cnt: "child_count dd < MAX_FILES_PER_DIR"
    using fresh_offset [OF sok, of c dd] c' cwd(2) by (auto simp: dir_full_def SIZEOF_FS_NODE_def)
  have none: "dir_map s0 c (label s0 q) = None" using old(1,3) free by simp
  have e: "node_at s0 q = Some e" "node_parent e = None" "store_ok s0" using c' by auto
  obtain s1 where s1: "fs_add_child (Some c) (Some q) s0 = Some (0, s1)"
    "dir_updated s0 c ((dir_map s0 c)(label s0 q \<mapsto> q)) s1"
    by (rule fs_add_child_added [OF e(3) dd e(1,2) lt cnt none])
  have "dir_map s1 = (dir_map s)(c := (dir_map s c)(take (MAX_FILENAME_LENGTH - 2) (cstr (ed_filename ed)) \<mapsto> q))"
    using s1(2) old(1,3) by (auto simp: dir_updated_def fun_eq_iff)
  moreover have "file_block s1 q = Some (replicate MAX_FILE_SIZE NUL)"
    using dir_updated_file_block [OF s1(2)] c' room by (simp add: file_block_def)
  moreover have "file_block s1 k = file_block s k" if "node_at s k \<noteq> None" for k
    using dir_updated_file_block [OF s1(2)] old(4) [OF that] by simp
  moreover have "save_node s ed = Some (Some q, s1)"
    using fs_resolve_path_eq [OF wf t] new c(1) s1(1) cwd(1) by (simp add: save_node_def Let_def fs_get_current_dir_def)
  ultimately show ?thesis
    using that dir_updated_wf [OF s1(2) created_wf [OF c(2) wf]] c' by blast
qed

section \<open>Opening\<close>

text \<open>The lines of a text: split at newlines, each cut to 75 characters, nothing after a final
  newline. \<open>cur\<close> is the line read so far.\<close>

fun split_text :: "string \<Rightarrow> string \<Rightarrow> string list" where
  "split_text cur [] = (if cur = [] then [] else [cur])"
| "split_text cur (c # cs) =
     (if c = NL then cur # split_text [] cs
      else split_text (if length cur < 75 then cur @ [c] else cur) cs)"

text \<open>The buffer while line \<open>line\<close> holds the unterminated \<open>cur\<close>.\<close>

definition reading :: "char list list \<Rightarrow> nat \<Rightarrow> string \<Rightarrow> bool" where
  "reading b line cur \<longleftrightarrow> length b = 50 \<and> (\<forall>k<50. length (b ! k) = 76 \<and> (k \<noteq> line \<or> cur = [] \<longrightarrow> terminated (b ! k))) \<and>
     length cur \<le> 75 \<and> NUL \<notin> set cur \<and> line \<le> 50 \<and> (if line < 50 then take (length cur) (b ! line) = cur else cur = [])"

lemma reading_cell:
  assumes "reading b line cur" and "line < 50"
  shows "set_cell b (int line) (int (length cur)) c = Some (b[line := (b ! line)[length cur := c]])"
  using assms by (simp add: set_cell_def reading_def)

lemma reading_next:
  assumes r: "reading b line cur" and line: "line < 50" and c: "c \<noteq> NUL" and len: "length cur < 75"
  shows "reading (b[line := (b ! line)[length cur := c]]) line (cur @ [c])"
proof -
  have "length (b ! line) = 76" using r line by (simp add: reading_def)
  then have "take (Suc (length cur)) ((b ! line)[length cur := c]) = take (length cur) (b ! line) @ [c]"
    using len by (simp add: take_Suc_conv_app_nth)
  then show ?thesis using r line c len by (auto simp: reading_def nth_list_update)
qed

lemma reading_close:
  assumes r: "reading b line cur" and line: "line < 50"
  shows "reading (b[line := (b ! line)[length cur := NUL]]) (Suc line) []"
    and "texts (b[line := (b ! line)[length cur := NUL]]) = (texts b)[line := cur]"
proof -
  let ?row = "(b ! line)[length cur := NUL]"
  have l: "length (b ! line) = 76" "length cur \<le> 75" "take (length cur) (b ! line) = cur" "NUL \<notin> set cur" "length b = 50"
    using r line by (simp_all add: reading_def)
  then have "?row = cur @ NUL # drop (Suc (length cur)) (b ! line)"
    by (simp add: upd_conv_take_nth_drop)
  then have row: "terminated ?row" "cstr ?row = cur" using l(4) by (simp_all add: cstr_append)
  show "texts (b[line := ?row]) = (texts b)[line := cur]"
    using row(2) by (simp add: texts_def map_update)
  show "reading (b[line := ?row]) (Suc line) []"
    using r line row(1) l by (auto simp: reading_def nth_list_update)
qed

lemma open_loop_eq:
  assumes "reading b line cur" and "NUL \<notin> set x"
  shows "yields (open_loop (x @ NUL # r) (int line) (int (length cur)) b) (\<lambda>(l, c, b').
    \<exists>line' cur'. l = int line' \<and> c = int (length cur') \<and> reading b' line' cur' \<and> line \<le> line' \<and>
      (\<forall>k<line. texts b' ! k = texts b ! k) \<and>
      map (\<lambda>k. texts b' ! k) [line..<line'] @ (if cur' = [] then [] else [cur']) = take (50 - line) (split_text cur x))"
  using assms
proof (induction x arbitrary: b line cur)
  case Nil
  have "cur = [] \<or> line < 50" using Nil.prems(1) by (auto simp: reading_def split: if_splits)
  then show ?case
    using Nil.prems(1) by (auto intro!: exI [of _ line] exI [of _ cur])
next
  case (Cons c x)
  have c: "c \<noteq> NUL" "NUL \<notin> set x" using Cons.prems(2) by auto
  have le: "line \<le> 50" using Cons.prems(1) by (simp add: reading_def)
  show ?case
  proof (cases "line < 50")
    case False
    then have "line = 50" "cur = []" using Cons.prems(1) le by (auto simp: reading_def)
    then show ?thesis using Cons.prems(1) by (auto simp: ed_consts intro!: exI [of _ 50] exI [of _ "[]"])
  next
    case True
    note cell = reading_cell [OF Cons.prems(1) True]
    show ?thesis
    proof (cases "c = NL")
      case nl: True
      let ?b = "b[line := (b ! line)[length cur := NUL]]"
      note cl = reading_close [OF Cons.prems(1) True]
      have lt: "line < length (texts b)" using Cons.prems(1) True by (simp add: reading_def)
      have step: "open_loop ((c # x) @ NUL # r) (int line) (int (length cur)) b =
          open_loop (x @ NUL # r) (int (Suc line)) (int (length ([] :: string))) ?b"
        using True nl cell by (simp add: ed_consts add.commute)
      show ?thesis
        unfolding step
      proof (rule yields_mono [OF Cons.IH [OF cl(1) c(2)]], clarify)
        fix l cc b' line' cur'
        assume A: "reading b' line' cur'" "Suc line \<le> line'" "\<forall>k<Suc line. texts b' ! k = texts ?b ! k"
          "map (\<lambda>k. texts b' ! k) [Suc line..<line'] @ (if cur' = [] then [] else [cur']) = take (50 - Suc line) (split_text [] x)"
        have "texts b' ! line = cur" "\<forall>k<line. texts b' ! k = texts b ! k"
          using A(3) lt unfolding cl(2) by (simp_all add: less_Suc_eq)
        moreover have "[line..<line'] = line # [Suc line..<line']" using A(2) by (simp add: upt_conv_Cons)
        moreover have "take (50 - line) (split_text cur (c # x)) = cur # take (50 - Suc line) (split_text [] x)"
          using True nl by (simp add: Suc_diff_Suc take_Cons')
        ultimately show "\<exists>line'' cur''. int line' = int line'' \<and> int (length cur') = int (length cur'') \<and> reading b' line'' cur'' \<and>
          line \<le> line'' \<and> (\<forall>k<line. texts b' ! k = texts b ! k) \<and>
          map ((!) (texts b')) [line..<line''] @ (if cur'' = [] then [] else [cur'']) = take (50 - line) (split_text cur (c # x))"
          using A by (intro exI [of _ line'] exI [of _ cur']) simp
      qed
    next
      case other: False
      show ?thesis
      proof (cases "length cur < 75")
        case short: True
        let ?b = "b[line := (b ! line)[length cur := c]]"
        have step: "open_loop ((c # x) @ NUL # r) (int line) (int (length cur)) b =
            open_loop (x @ NUL # r) (int line) (int (length (cur @ [c]))) ?b"
          using True other short cell c by (simp add: ed_consts add.commute)
        have "\<forall>k<line. texts ?b ! k = texts b ! k"
          using True Cons.prems(1) by (simp add: texts_def reading_def)
        then show ?thesis
          using Cons.IH [OF reading_next [OF Cons.prems(1) True c(1) short] c(2)] other short
          unfolding step by (auto elim!: yields_mono)
      next
        case long: False
        have step: "open_loop ((c # x) @ NUL # r) (int line) (int (length cur)) b =
            open_loop (x @ NUL # r) (int line) (int (length cur)) b"
          using True other long c by (simp add: ed_consts)
        show ?thesis unfolding step using Cons.IH [OF Cons.prems(1) c(2)] other long by simp
      qed
    qed
  qed
qed

definition file_lines :: "string \<Rightarrow> string list" where
  "file_lines x = take 50 (split_text [] x)"

lemma split_text_line:
  "NL \<notin> set l \<Longrightarrow> length (cur @ l) \<le> 75 \<Longrightarrow> split_text cur (l @ NL # y) = (cur @ l) # split_text [] y"
  "NL \<notin> set l \<Longrightarrow> length (cur @ l) \<le> 75 \<Longrightarrow> split_text cur l = (if cur @ l = [] then [] else [cur @ l])"
  by (induction l arbitrary: cur) auto

lemma split_text_ne: "x \<noteq> [] \<or> cur \<noteq> [] \<Longrightarrow> split_text cur x \<noteq> []"
proof (induction cur x rule: split_text.induct)
  case (2 cur c cs)
  then show ?case by (cases "cur = []") auto
qed simp

lemma split_join_lines:
  assumes "\<forall>l \<in> set ls. NL \<notin> set l \<and> length l \<le> 75" and "ls \<noteq> []"
  shows "split_text [] (join_lines ls) = (if last ls = [] then butlast ls else ls)"
  using assms(2,1)
proof (induction ls rule: list_nonempty_induct)
  case (single l)
  then show ?case using split_text_line(2) [of l "[]"] by (simp add: join_lines_def)
next
  case (cons l ls)
  have "join_lines (l # ls) = l @ NL # join_lines ls" using cons.hyps by (simp add: join_lines_def)
  then show ?case using cons split_text_line(1) [of l "[]" "join_lines ls"] by simp
qed

lemma reading_rows_ok: "reading b line [] \<Longrightarrow> rows_ok b"
  unfolding reading_def rows_ok_def by (metis in_set_conv_nth)

lemma rows_ok_reading: "rows_ok b \<Longrightarrow> reading b 0 []"
  by (auto simp: reading_def rows_ok_def)

lemma open_rows_eq:
  assumes ok: "rows_ok b" and x: "NUL \<notin> set x"
  shows "yields (open_rows (x @ NUL # r) b) (\<lambda>(n, b'). rows_ok b' \<and> n = int (length (file_lines x)) \<and> n \<le> 50 \<and> take (nat n) (texts b') = file_lines x \<and>
      (x = [] \<longrightarrow> texts b' = texts b))"
proof (cases "x = []")
  case True
  then show ?thesis using ok by (simp add: file_lines_def open_rows_def)
next
  case False
  obtain line cur b1 where loop: "open_loop (x @ NUL # r) 0 0 b = Some (int line, int (length cur), b1)"
    and b1: "reading b1 line cur"
    and ls: "map (\<lambda>k. texts b1 ! k) [0..<line] @ (if cur = [] then [] else [cur]) = file_lines x"
    using open_loop_eq [OF rows_ok_reading [OF ok] x, of r] by (auto simp: yields_iff file_lines_def)
  have len: "length b1 = 50" "line \<le> 50" using b1 by (simp_all add: reading_def)
  have pre: "map (\<lambda>k. texts b1 ! k) [0..<line] = take line (texts b1)"
    by (rule nth_equalityI) (use len in auto)
  show ?thesis
  proof (cases "cur = []")
    case True
    then show ?thesis using loop reading_rows_ok [of b1 line] b1 ls len False
      by (simp add: open_rows_def pre min_def flip: ls)
  next
    case ne: False
    have lt: "line < 50" using b1 ne len by (auto simp: reading_def split: if_splits)
    note cl = reading_close [OF b1 lt]
    let ?b = "b1[line := (b1 ! line)[length cur := NUL]]"
    have "take (Suc line) (texts ?b) = take line (texts b1) @ [cur]"
      unfolding cl(2) using lt len by (simp add: take_Suc_conv_app_nth)
    then have fl: "take (Suc line) (texts ?b) = file_lines x" using ls ne by (simp add: pre)
    then have "length (file_lines x) = Suc line" using lt len by (simp flip: fl)
    moreover have "nat (int line + 1) = Suc line" by simp
    ultimately show ?thesis
      using loop ne reading_cell [OF b1 lt, of NUL] reading_rows_ok [OF cl(1)] fl lt False
      by (simp add: open_rows_def)
  qed
qed

lemma open_content_eq:
  assumes ok: "ed_ok ed" and home: "cursor_x ed = 0" "cursor_y ed = 0" and x: "NUL \<notin> set x"
  shows "yields (open_content (x @ NUL # r) ed) (\<lambda>ed'. ed_ok ed' \<and> same_chrome ed ed' \<and>
    ed_view ed' = (if x = [] then [texts (ed_buffer ed) ! 0] else file_lines x, 0, 0, ed_modified ed))"
proof -
  note o = ed_okD [OF ok]
  obtain b where b: "open_rows (x @ NUL # r) (ed_buffer ed) = Some (int (length (file_lines x)), b)"
    and rows: "rows_ok b" "length (file_lines x) \<le> 50" "take (length (file_lines x)) (texts b) = file_lines x"
      "x = [] \<longrightarrow> texts b = texts (ed_buffer ed)"
    using open_rows_eq [OF o(1) x, of r] unfolding yields_iff by auto
  let ?n = "if 0 < int (length (file_lines x)) then int (length (file_lines x)) else 1"
  have eq: "open_content (x @ NUL # r) ed = Some (ed\<lparr>ed_buffer := b, line_count := ?n\<rparr>)"
    using b by (simp add: open_content_def)
  have n: "1 \<le> ?n" "?n \<le> 50" using rows(2) by (auto simp: Suc_le_eq)
  have "ed_lines (ed\<lparr>ed_buffer := b, line_count := ?n\<rparr>) = (if x = [] then [texts (ed_buffer ed) ! 0] else file_lines x)"
  proof (cases "x = []")
    case True
    have "length (texts (ed_buffer ed)) = 50" using o(1) by (simp add: rows_ok_length)
    then show ?thesis using True rows(4) by (simp add: ed_lines_def file_lines_def take_Suc_conv_app_nth One_nat_def)
  next
    case False
    then have "file_lines x \<noteq> []" using split_text_ne [of x "[]"] by (simp add: file_lines_def)
    then show ?thesis using False rows(3) by (simp add: ed_lines_def)
  qed
  moreover have "ed_ok (ed\<lparr>ed_buffer := b, line_count := ?n\<rparr>)"
    using ok rows(1) n home by (simp add: ed_ok_def)
  ultimately show ?thesis unfolding eq using home by (simp add: ed_view_def same_chrome_def)
qed

text \<open>\<open>editor_init\<close> needs only arrays of the right length; it leaves one empty line.\<close>

definition ed_arrays :: "editor_state \<Rightarrow> bool" where
  "ed_arrays ed \<longleftrightarrow> length (ed_buffer ed) = 50 \<and> (\<forall>r \<in> set (ed_buffer ed). length r = 76) \<and>
     length (ed_filename ed) = MAX_FILENAME_LENGTH \<and> length (command_buffer ed) = 80 \<and>
     length (status_message ed) = 80"

lemma ed_ok_arrays: "ed_ok ed \<Longrightarrow> ed_arrays ed"
  by (simp add: ed_ok_def ed_arrays_def rows_ok_def)

lemma ed_arrays_zero: "ed_arrays editor_zero"
  by (simp add: ed_arrays_def editor_zero_def)

lemma first_nul: "0 < length r \<Longrightarrow> terminated (r[0 := NUL]) \<and> cstr (r[0 := NUL]) = []"
  by (cases r) (simp_all add: cstr_Cons terminated_Cons)

lemma set_cell_row:
  assumes "i < length b" and "0 < length (b ! i)"
  shows "set_cell b (int i) 0 c = Some (b[i := (b ! i)[0 := c]])"
  using assms by (simp add: set_cell_def int_get_def int_set_def arr_get_def arr_set_def)

lemma blank_rows:
  assumes len: "\<forall>r \<in> set b. length r = 76"
  shows "ofold (\<lambda>i b. set_cell b i 0 NUL) [0..int (length b) - 1] b = Some (map (\<lambda>r. r[0 := NUL]) b)"
proof -
  let ?f = "\<lambda>r :: char list. r[0 := NUL]"
  have "ofold (\<lambda>i b. set_cell b (int i) 0 NUL) [0..<length b] b = Some (map ?f (take (length b) b) @ drop (length b) b)"
  proof (rule ofold_upt_eq [where g = "\<lambda>i. map ?f (take i b) @ drop i b"])
    fix i assume i: "0 \<le> i" "i < length b"
    let ?b = "map ?f (take i b) @ drop i b"
    have bi: "?b ! i = b ! i" "length ?b = length b" using i by (simp_all add: nth_append)
    have "length (b ! i) = 76" using len i by simp
    then have "set_cell ?b (int i) 0 NUL = Some (?b[i := ?f (?b ! i)])"
      using i bi by (intro set_cell_row) simp_all
    moreover have "?b[i := ?f (?b ! i)] = map ?f (take (Suc i) b) @ drop (Suc i) b"
      unfolding bi using i by (simp add: list_update_append take_Suc_conv_app_nth Cons_nth_drop_Suc [symmetric])
    ultimately show "set_cell ?b (int i) 0 NUL = Some (map ?f (take (Suc i) b) @ drop (Suc i) b)" by simp
  qed simp_all
  then show ?thesis using upto_map_int [of 0 "length b"] by (simp add: ofold_map)
qed

lemma editor_init_eq:
  assumes "ed_arrays ed"
  shows "yields (editor_init ed) (\<lambda>ed'. ed_ok ed' \<and> ed_view ed' = ([[]], 0, 0, False) \<and> ed_mode ed' = MODE_NORMAL \<and>
    cstr (ed_filename ed') = [] \<and> cstr (status_message ed') = ''-- NORMAL --'' \<and> texts (ed_buffer ed') ! 0 = [])"
proof -
  note a = assms [unfolded ed_arrays_def]
  define b where "b = map (\<lambda>r. r[0 := NUL]) (ed_buffer ed)"
  have fresh: "length (r[0 := NUL]) = 76 \<and> terminated (r[0 := NUL]) \<and> cstr (r[0 := NUL]) = []"
    if "r \<in> set (ed_buffer ed)" for r using first_nul [of r] a that by simp
  have "texts b = map (\<lambda>r. []) (ed_buffer ed)"
    using fresh by (simp add: texts_def b_def)
  then have rows: "rows_ok b" "texts b = replicate 50 []"
    using a fresh by (simp_all add: rows_ok_def b_def map_replicate_const)
  have loop: "ofold (\<lambda>i b. set_cell b i 0 NUL) [0..EDITOR_MAX_LINES - 1] (ed_buffer ed) = Some b"
    using blank_rows [of "ed_buffer ed"] a by (simp add: ed_consts b_def)
  obtain m where m: "strcpy (status_message ed) (lit ''-- NORMAL --'') = Some m" "length m = 80" "terminated m"
    "cstr m = ''-- NORMAL --''"
    using strcpy_fits [OF terminated_lit, of "''-- NORMAL --''" "status_message ed"] a
    by (auto simp: yields_iff cstr_lit)
  obtain f where f: "arr_set (ed_filename ed) 0 NUL = Some f" "length f = 64" "terminated f" "cstr f = []"
    using first_nul [of "ed_filename ed"] a by (auto simp: arr_set_def MAX_FILENAME_LENGTH_def)
  obtain c where c: "arr_set (command_buffer ed) 0 NUL = Some c" "length c = 80" "terminated c"
    using first_nul [of "command_buffer ed"] a by (auto simp: arr_set_def)
  define ed' where "ed' = ed\<lparr>line_count := 1, cursor_x := 0, cursor_y := 0, view_start_line := 0,
    ed_mode := MODE_NORMAL, ed_filename := f, ed_modified := False, command_length := 0, command_buffer := c,
    status_message := m, ed_buffer := b\<rparr>"
  have "editor_init ed = Some ed'"
    unfolding editor_init_def editor_set_status_def ed'_def by (simp add: f(1) c(1) m(1) loop)
  moreover have "ed_ok ed'"
    using rows m f c by (simp add: ed_ok_def ed'_def MAX_FILENAME_LENGTH_def)
  moreover have "ed_view ed' = ([[]], 0, 0, False)"
    using rows by (simp add: ed_view_def ed_lines_def ed'_def)
  ultimately show ?thesis using rows m f by (simp add: ed'_def)
qed

text \<open>The text \<open>editor_open\<close> finds under a name; none for a directory, a missing node or a node
  without a buffer.\<close>

definition open_source :: "fs_state \<Rightarrow> string \<Rightarrow> string option" where
  "open_source s name = Option.bind (resolve_spec s name) (file_text s)"

lemma editor_open_eq:
  assumes wf: "wf_fs s" and tx: "texts_ok s" and ok: "ed_ok ed" and home: "cursor_x ed = 0" "cursor_y ed = 0"
    and name: "terminated name" "length (cstr name) < MAX_FILENAME_LENGTH"
  shows "yields (editor_open name s ed) (\<lambda>ed'. ed_ok ed' \<and> cstr (ed_filename ed') = cstr name \<and>
    ed_mode ed' = ed_mode ed \<and> status_message ed' = status_message ed \<and>
    ed_view ed' = (case open_source s (cstr name) of
        None \<Rightarrow> ed_lines ed
      | Some x \<Rightarrow> if x = [] then [texts (ed_buffer ed) ! 0] else file_lines x, 0, 0, ed_modified ed))"
proof -
  have sok: "store_ok s" using wf by (simp add: wf_fs_def)
  obtain f where f: "strcpy (ed_filename ed) name = Some f" "length f = MAX_FILENAME_LENGTH" "terminated f" "cstr f = cstr name"
    using strcpy_fits [OF name(1), of "ed_filename ed"] name(2) ok by (auto simp: yields_iff ed_ok_def)
  define ed1 where "ed1 = ed\<lparr>ed_filename := f\<rparr>"
  have ok1: "ed_ok ed1" using ok f by (simp add: ed1_def ed_ok_def)
  have ed1: "ed_lines ed1 = ed_lines ed" "cursor_x ed1 = 0" "cursor_y ed1 = 0" "ed_modified ed1 = ed_modified ed"
    "ed_mode ed1 = ed_mode ed" "ed_filename ed1 = f" "ed_buffer ed1 = ed_buffer ed" "status_message ed1 = status_message ed"
    by (simp_all add: ed1_def ed_lines_def home)
  note r = fs_resolve_path_eq [OF wf name(1)]
  have keep: "open_source s (cstr name) = None \<Longrightarrow> editor_open name s ed = Some ed1 \<Longrightarrow> ?thesis"
    using ok1 ed1 f(4) by (simp add: ed_view_def)
  show ?thesis
  proof (cases "resolve_spec s (cstr name)")
    case None
    then show ?thesis using keep r f(1) by (simp add: editor_open_def open_source_def ed1_def)
  next
    case (Some p)
    obtain d where d: "node_at s p = Some d"
      using resolve_spec_attached [OF wf Some] by (auto simp: attached_def)
    show ?thesis
    proof (cases "node_data d")
      case None
      then have "file_text s p = None" using d by (simp add: file_text_def file_block_def)
      then have "open_source s (cstr name) = None" using Some by (simp add: open_source_def)
      moreover have "editor_open name s ed = Some ed1"
        using r f(1) Some d None by (simp add: editor_open_def ed1_def fs_read_file_def Let_def)
      ultimately show ?thesis by (rule keep)
    next
      case data: (Some b)
      obtain blk where b: "block_at s b = Some blk" "node_type d = FILE_TYPE_REGULAR"
        using sok d data by (rule data_block)
      have "file_block s p = Some blk" using d data b by (simp add: file_block_def)
      then obtain x rest where x: "blk = x @ NUL # rest" "file_text s p = Some x" "NUL \<notin> set x"
        by (rule texts_okE [OF tx])
      have eq: "editor_open name s ed = open_content blk ed1"
        using r f(1) Some d data b by (simp add: editor_open_def fs_read_file_def ed1_def)
      have "open_source s (cstr name) = Some x" using Some x by (simp add: open_source_def)
      then show ?thesis
        unfolding eq x(1) using open_content_eq [OF ok1 ed1(2,3) x(3), of rest] ed1 f(4)
        by (auto simp: same_chrome_def elim!: yields_mono)
    qed
  qed
qed

section \<open>Properties\<close>

text \<open>An editor with one line, and the states it is used in.\<close>

definition demo_editor :: "string \<Rightarrow> string \<Rightarrow> editor_state" where
  "demo_editor name line = editor_zero\<lparr>line_count := 1, ed_buffer := (ed_buffer editor_zero)[0 := line @ replicate (76 - length line) NUL],
     ed_filename := name @ replicate (MAX_FILENAME_LENGTH - length name) NUL, ed_modified := True\<rparr>"

lemma demo_editor:
  assumes "NUL \<notin> set name" "length name < 64" "NUL \<notin> set line" "length line < 76"
  shows "ed_ok (demo_editor name line)" and "cstr (ed_filename (demo_editor name line)) = name"
    and "ed_lines (demo_editor name line) = [line]" "ed_modified (demo_editor name line)"
    and "cursor_x (demo_editor name line) = 0" "cursor_y (demo_editor name line) = 0"
    and "texts (ed_buffer (demo_editor name line)) ! 0 = line"
    and "ed_mode (demo_editor name line) = MODE_NORMAL"
proof -
  have pad: "x @ replicate (n - length x) NUL = x @ NUL # replicate (n - Suc (length x)) NUL" if "length x < n" for x n
    using that by (simp add: Suc_diff_Suc flip: replicate_Suc)
  have row: "cstr (line @ replicate (76 - length line) NUL) = line" "terminated (line @ replicate (76 - length line) NUL)"
    using assms pad [of line 76] by (simp_all add: cstr_append)
  have nm: "cstr (name @ replicate (64 - length name) NUL) = name" "terminated (name @ replicate (64 - length name) NUL)"
    using assms pad [of name 64] by (simp_all add: cstr_append)
  have z: "rows_ok (replicate 50 (replicate 76 NUL))" by (simp add: rows_ok_def terminated_def)
  have zeros: "terminated (replicate 80 NUL)" by (simp add: terminated_def)
  note b = rows_ok_update [OF z, of 0 "line @ replicate (76 - length line) NUL"]
  have t: "texts ((replicate 50 (replicate 76 NUL))[0 := line @ replicate (76 - length line) NUL]) ! 0 = line"
    using row by (simp add: texts_def)
  show "cstr (ed_filename (demo_editor name line)) = name" "ed_modified (demo_editor name line)"
    "cursor_x (demo_editor name line) = 0" "cursor_y (demo_editor name line) = 0"
    "ed_mode (demo_editor name line) = MODE_NORMAL"
    "texts (ed_buffer (demo_editor name line)) ! 0 = line"
    using nm t by (simp_all add: demo_editor_def editor_zero_def MAX_FILENAME_LENGTH_def)
  show "ed_ok (demo_editor name line)"
    using b(1) row nm assms t zeros by (simp add: ed_ok_def demo_editor_def editor_zero_def MAX_FILENAME_LENGTH_def)
  show "ed_lines (demo_editor name line) = [line]"
    using t by (simp add: ed_lines_def demo_editor_def editor_zero_def take_Suc_conv_app_nth One_nat_def)
qed

text \<open>C23: saving to an existing file writes the lines joined by newlines over the old text; what the
  old text had beyond that length stays in the file. No other file and no name changes. Because
  \<open>editor_save_file\<close> takes the byte count that \<open>fs_write_file\<close> returns for an error code, a
  save of a nonempty text leaves \<open>modified\<close> set and reports an error.\<close>

theorem save_existing_spec:
  assumes "fs_ok s" and "ed_ok ed" and "resolve_spec s (cstr (ed_filename ed)) = Some p"
    and "file_block s p = Some blk" and "text_block y blk" and "x = join_lines (ed_lines ed)"
  shows "yields (editor_save_file s ed) (\<lambda>(s', ed'). fs_ok s' \<and> ed_ok ed' \<and> ed_lines ed' = ed_lines ed \<and>
    file_text s' p = Some (x @ drop (length x) y) \<and> dir_map s' = dir_map s \<and>
    (\<forall>q. q \<noteq> p \<longrightarrow> file_block s' q = file_block s q) \<and>
    ed_modified ed' = (ed_modified ed \<and> x \<noteq> []) \<and>
    cstr (status_message ed') = (if x = [] then ''File saved'' else ''Error saving file''))"
proof -
  note o = fs_okD [OF assms(1)]
  note node = save_node_existing [OF o(1) assms(2,3)]
  from save_over [OF o(1) assms(2) node o(1) assms(4,5)] show ?thesis
    unfolding assms(6) by (rule yields_mono) (use o(2) in \<open>auto simp: fs_ok_def same_tree_def\<close>)
qed

theorem save_existing_spec_witness:
  "yields (editor_save_file demo_fs (demo_editor ''/notes'' ''hi'')) (\<lambda>(s', ed').
    file_text s' 224 = Some ''hillo'' \<and> ed_modified ed' \<and> cstr (status_message ed') = ''Error saving file'')"
proof -
  have ed: "ed_ok (demo_editor ''/notes'' ''hi'')" "cstr (ed_filename (demo_editor ''/notes'' ''hi'')) = ''/notes''"
    "ed_lines (demo_editor ''/notes'' ''hi'') = [''hi'']" "ed_modified (demo_editor ''/notes'' ''hi'')"
    by (simp_all add: demo_editor)
  have tb: "text_block ''hello'' (''hello'' @ replicate 4091 NUL)" by (simp add: text_block_def MAX_FILE_SIZE_def)
  have res: "resolve_spec demo_fs (cstr (ed_filename (demo_editor ''/notes'' ''hi''))) = Some 224"
    using ed(2) demo_resolve by simp
  show ?thesis
    by (rule yields_mono [OF save_existing_spec [OF demo_fs_ok ed(1) res demo_block tb refl]])
       (auto simp: ed(3,4) join_lines_def)
qed

text \<open>Saving under a name that does not exist creates one file in the current directory, whose
  text is the lines joined by newlines; the other entries and texts stay.\<close>

theorem save_new_spec:
  assumes "fs_ok s" and "ed_ok ed" and "resolve_spec s (cstr (ed_filename ed)) = None"
    and "can_create s" and "unat (memory_offset s) + SIZEOF_FS_NODE + MAX_FILE_SIZE < 65536"
    and "fs_current_dir s = Some c" and "\<not> dir_full s c"
    and "nm = take (MAX_FILENAME_LENGTH - 2) (cstr (ed_filename ed))" and "dir_map s c nm = None"
  shows "yields (editor_save_file s ed) (\<lambda>(s', ed'). fs_ok s' \<and> ed_ok ed' \<and>
    (\<exists>q. node_at s q = None \<and> dir_map s' = (dir_map s)(c := (dir_map s c)(nm \<mapsto> q)) \<and>
      file_text s' q = Some (join_lines (ed_lines ed)) \<and>
      (\<forall>k. node_at s k \<noteq> None \<longrightarrow> file_block s' k = file_block s k)))"
proof -
  note o = fs_okD [OF assms(1)]
  obtain q s1 where q: "save_node s ed = Some (Some q, s1)" "wf_fs s1" "node_at s q = None"
    "file_block s1 q = Some (replicate MAX_FILE_SIZE NUL)"
    "dir_map s1 = (dir_map s)(c := (dir_map s c)(nm \<mapsto> q))"
    "\<And>k. node_at s k \<noteq> None \<Longrightarrow> file_block s1 k = file_block s k"
    by (rule save_node_new [OF o(1) assms(2-7) assms(9) [unfolded assms(8)], folded assms(8)]) (rule that)
  have t1: "texts_ok s1" using save_node_ok [OF assms(1,2)] q(1) by (simp add: fs_ok_def)
  show ?thesis
  proof (rule yields_mono [OF save_over [OF o(1) assms(2) q(1,2,4) text_block_Nil]], clarify)
    fix s' ed'
    assume A: "wf_fs s'" "ed_ok ed'" "file_text s' q = Some (join_lines (ed_lines ed) @ drop (length (join_lines (ed_lines ed))) [])"
      "same_tree s1 s'" "texts_ok s1 \<longrightarrow> texts_ok s'" and other: "\<forall>r. r \<noteq> q \<longrightarrow> file_block s' r = file_block s1 r"
    have "file_block s' k = file_block s k" if "node_at s k \<noteq> None" for k
      using that q(3,6) other by metis
    moreover have "dir_map s' = (dir_map s)(c := (dir_map s c)(nm \<mapsto> q))" using A(4) q(5) by (simp add: same_tree_def)
    moreover have "file_text s' q = Some (join_lines (ed_lines ed))" using A(3) by simp
    ultimately show "fs_ok s' \<and> ed_ok ed' \<and> (\<exists>q. node_at s q = None \<and> dir_map s' = (dir_map s)(c := (dir_map s c)(nm \<mapsto> q)) \<and>
      file_text s' q = Some (join_lines (ed_lines ed)) \<and>
      (\<forall>k. node_at s k \<noteq> None \<longrightarrow> file_block s' k = file_block s k))"
      using A(1,2,5) t1 q(3) unfolding fs_ok_def by blast
  qed
qed

theorem save_new_spec_witness:
  "yields (editor_save_file demo_fs (demo_editor ''lost'' ''hi'')) (\<lambda>(s', ed').
    \<exists>q. dir_map s' 0 = [''notes'' \<mapsto> 224, ''lost'' \<mapsto> q] \<and> file_text s' q = Some ''hi'')"
proof -
  have ed: "ed_ok (demo_editor ''lost'' ''hi'')" "cstr (ed_filename (demo_editor ''lost'' ''hi'')) = ''lost''"
    "ed_lines (demo_editor ''lost'' ''hi'') = [''hi'']"
    by (simp_all add: demo_editor)
  have res: "resolve_spec demo_fs (cstr (ed_filename (demo_editor ''lost'' ''hi''))) = None"
    using ed(2) demo_resolve by simp
  have room: "unat (memory_offset demo_fs) + SIZEOF_FS_NODE + MAX_FILE_SIZE < 65536"
    by (simp add: demo_counts fs_consts)
  have full: "\<not> dir_full demo_fs 0" using demo_dir by (auto simp: dir_full_def fs_consts)
  have nm: "''lost'' = take (MAX_FILENAME_LENGTH - 2) (cstr (ed_filename (demo_editor ''lost'' ''hi'')))"
    using ed(2) by (simp add: fs_consts)
  have free: "dir_map demo_fs 0 ''lost'' = None" by (simp add: demo_map)
  show ?thesis
    by (rule yields_mono [OF save_new_spec [OF demo_fs_ok ed(1) res demo_can_create room demo_root(2) full nm free]])
       (auto simp: ed(3) join_lines_def demo_map)
qed

text \<open>C22: saving and opening again. When the new text is at least as long as the one on disk (so that
  nothing of it is left over), opening the saved file in an editor with an empty first row shows
  the lines that were saved, except that an empty last line is lost.\<close>

theorem save_open_roundtrip:
  assumes "fs_ok s" and "ed_ok ed" and "resolve_spec s (cstr (ed_filename ed)) = Some p"
    and "file_text s p = Some y" and "length y \<le> length (join_lines (ed_lines ed))"
    and "\<forall>l \<in> set (ed_lines ed). NL \<notin> set l"
    and "ed_ok ed0" and "ed_view ed0 = ([[]], 0, 0, False)" and "texts (ed_buffer ed0) ! 0 = []"
  shows "yields (do { (s', ed') \<leftarrow> editor_save_file s ed; editor_open (ed_filename ed') s' ed0 }) (\<lambda>ed1.
    ed_ok ed1 \<and> ed_lines ed1 = (if last (ed_lines ed) = [] \<and> length (ed_lines ed) > 1 then butlast (ed_lines ed) else ed_lines ed))"
proof -
  note o = fs_okD [OF assms(1)]
  let ?ls = "ed_lines ed" and ?x = "join_lines (ed_lines ed)"
  obtain blk where blk: "file_block s p = Some blk" "cstr blk = y" using assms(4) by (auto simp: file_text_def)
  obtain y' where "text_block y' blk" "file_text s p = Some y'" by (rule texts_okE [OF o(2) blk(1)])
  then have tb: "text_block y blk" using assms(4) by simp
  obtain s' ed' where save: "editor_save_file s ed = Some (s', ed')" "wf_fs s'" "file_text s' p = Some (?x @ drop (length ?x) y)"
    "same_tree s s'" "texts_ok s \<longrightarrow> texts_ok s'" "ed_filename ed' = ed_filename ed"
    using save_over [OF o(1) assms(2) save_node_existing [OF o(1) assms(2,3)] o(1) blk(1) tb] by (rule yields_pairE) blast
  have x: "file_text s' p = Some ?x" using save(3) assms(5) by simp
  note st = save(4) [unfolded same_tree_def]
  have "resolve_spec s' (cstr (ed_filename ed)) = Some p"
    by (rule resolve_spec_grown [OF o(1) _ _ _ _ assms(3)]) (use st in simp_all)
  then have src: "open_source s' (cstr (ed_filename ed)) = Some ?x" using x by (simp add: open_source_def)
  have name: "terminated (ed_filename ed)" "length (cstr (ed_filename ed)) < MAX_FILENAME_LENGTH"
    using assms(2) length_cstr_less [of "ed_filename ed"] by (simp_all add: ed_ok_def)
  have home: "cursor_x ed0 = 0" "cursor_y ed0 = 0"
    using assms(7,8) ed_okD(4,6) [OF assms(7)] by (simp_all add: ed_view_def)
  have ne: "?ls \<noteq> []" using length_ed_lines [OF assms(2)] ed_okD(2) [OF assms(2)] by auto
  have "\<forall>l \<in> set ?ls. NL \<notin> set l \<and> length l \<le> 75" using assms(6) ed_lines_short(1) [OF assms(2)] by blast
  note split = split_join_lines [OF this ne]
  have "length ?ls \<le> 50" using length_ed_lines [OF assms(2)] ed_okD(3) [OF assms(2)] by simp
  then have fl: "file_lines ?x = (if last ?ls = [] then butlast ?ls else ?ls)"
    unfolding file_lines_def split by auto
  have one: "?x = [] \<longleftrightarrow> ?ls = [[]]"
  proof
    assume "?x = []"
    then have "split_text [] ?x = []" by simp
    then have "last ?ls = []" "butlast ?ls = []" using split ne by (auto split: if_splits)
    then show "?ls = [[]]" using ne by (metis append_butlast_last_id append_Nil)
  qed (simp add: join_lines_def)
  have "editor_open (ed_filename ed') s' ed0 = editor_open (ed_filename ed) s' ed0" by (simp add: save(6))
  moreover have "yields (editor_open (ed_filename ed) s' ed0) (\<lambda>ed1. ed_ok ed1 \<and>
      ed_lines ed1 = (if last ?ls = [] \<and> length ?ls > 1 then butlast ?ls else ?ls))"
  proof (rule yields_mono [OF editor_open_eq [OF save(2) _ assms(7) home name]], goal_cases)
    case 1
    show ?case using save(5) o(2) by blast
  next
    case (2 ed1)
    then have "ed_lines ed1 = (if ?x = [] then [[]] else file_lines ?x)"
      unfolding src using assms(9) by (simp add: ed_view_def)
    moreover have "last ?ls = [] \<Longrightarrow> ?ls \<noteq> [[]] \<Longrightarrow> length ?ls > 1"
      using ne by (cases ?ls) (auto split: if_splits)
    ultimately show ?case using 2 one fl by (cases "?ls = [[]]") auto
  qed
  ultimately show ?thesis using save(1) by simp
qed

theorem save_open_roundtrip_witness:
  "yields (do { (s', ed') \<leftarrow> editor_save_file demo_fs (demo_editor ''/notes'' ''hello world'');
       editor_open (ed_filename ed') s' (demo_editor [] []\<lparr>ed_modified := False\<rparr>) })
     (\<lambda>ed1. ed_lines ed1 = [''hello world''])"
proof -
  let ?ed = "demo_editor ''/notes'' ''hello world''" and ?fresh = "demo_editor [] []\<lparr>ed_modified := False\<rparr>"
  have ed: "ed_ok ?ed" "cstr (ed_filename ?ed) = ''/notes''" "ed_lines ?ed = [''hello world'']"
    by (simp_all add: demo_editor)
  have res: "resolve_spec demo_fs (cstr (ed_filename ?ed)) = Some 224" using ed(2) demo_resolve by simp
  have z: "ed_ok (demo_editor [] [])" "ed_lines (demo_editor [] []) = [[]]" by (simp_all add: demo_editor)
  have z1: "ed_ok ?fresh" using z(1) by (simp add: ed_ok_def)
  have "ed_lines ?fresh = [[]]" using z(2) by (simp add: ed_lines_def)
  then have z2: "ed_view ?fresh = ([[]], 0, 0, False)" by (simp add: ed_view_def demo_editor)
  have z3: "texts (ed_buffer ?fresh) ! 0 = []" using demo_editor(7) [of "[]" "[]"] by simp
  have "text_block ''hello'' (''hello'' @ replicate 4091 NUL)" by (simp add: text_block_def MAX_FILE_SIZE_def)
  then have old: "file_text demo_fs 224 = Some ''hello''" using text_blockD(1) by (simp add: file_text_def demo_block)
  have long: "length ''hello'' \<le> length (join_lines (ed_lines ?ed))" by (simp add: ed(3) join_lines_def)
  have nl: "\<forall>l \<in> set (ed_lines ?ed). NL \<notin> set l" by (simp add: ed(3))
  from save_open_roundtrip [OF demo_fs_ok ed(1) res old long nl z1 z2 z3] show ?thesis
    by (rule yields_mono) (simp add: ed(3))
qed

end
