(* ===== verification/Editor_Keys.thy ===== *)
theory Editor_Keys
  imports Editor_File
begin

text \<open>
  The editor as a state machine over its lines (\<open>editor_process_key\<close>): what each key does in each
  mode is specified on the mode, the lines with the cursor, and the command line, and the code is
  proved to follow it. The invariant adds to \<open>ed_ok\<close> that no line holds a newline and that the
  command buffer is terminated at \<open>command_length\<close> while a command is typed.
\<close>

section \<open>The invariant\<close>

definition ed_inv :: "editor_state \<Rightarrow> bool" where
  "ed_inv ed \<longleftrightarrow> ed_ok ed \<and> (\<forall>l \<in> set (ed_lines ed). NL \<notin> set l) \<and>
     (ed_mode ed = MODE_COMMAND \<longrightarrow> command_length ed = int (length (cstr (command_buffer ed))))"

definition clean_view :: "text_view \<Rightarrow> bool" where
  "clean_view v \<longleftrightarrow> (\<forall>l \<in> set (fst v). NL \<notin> set l) \<and> fst (snd v) < length (fst v)"

lemma clean_view_ed: "ed_inv ed \<Longrightarrow> clean_view (ed_view ed)"
  using length_ed_lines [of ed] ed_okD [of ed] by (auto simp: ed_inv_def clean_view_def ed_view_def)

lemma ed_inv_ok: "ed_inv ed \<Longrightarrow> ed_ok ed"
  by (simp add: ed_inv_def)

lemma clean_row: "clean_view (ls, y, x, m) \<Longrightarrow> NL \<notin> set (ls ! y)"
  by (simp add: clean_view_def)

lemma clean_part: "NL \<notin> set l \<Longrightarrow> NL \<notin> set (take n l)" "NL \<notin> set l \<Longrightarrow> NL \<notin> set (drop n l)"
  by (auto dest: in_set_takeD in_set_dropD)

lemma clean_text:
  assumes "clean_view v"
  shows "c \<noteq> NL \<Longrightarrow> \<forall>l \<in> set (fst (text_insert c v)). NL \<notin> set l"
    and "\<forall>l \<in> set (fst (text_split v)). NL \<notin> set l"
    and "\<forall>l \<in> set (fst (text_backspace v)). NL \<notin> set l"
    and "\<forall>l \<in> set (fst (text_delete_under v)). NL \<notin> set l"
    and "\<forall>l \<in> set (fst (text_delete_line v)). NL \<notin> set l"
    and "\<forall>l \<in> set (fst (text_open_line v)). NL \<notin> set l"
    and "fst (text_move dx dy v) = fst v"
proof -
  obtain ls y x m where v: "v = (ls, y, x, m)" by (metis prod_cases4)
  have ls: "\<forall>l \<in> set ls. NL \<notin> set l" "y < length ls" using assms by (auto simp: v clean_view_def)
  have part: "\<forall>l \<in> set (take n ls). NL \<notin> set l" "\<forall>l \<in> set (drop n ls). NL \<notin> set l" for n
    using ls(1) by (auto dest: in_set_takeD in_set_dropD)
  have row: "NL \<notin> set (ls ! y)" "NL \<notin> set (ls ! (y - 1))" using ls by auto
  have upd: "\<forall>l \<in> set (ls[y := z]). NL \<notin> set l" if "NL \<notin> set z" for z
    using ls(1) that by (auto dest: set_update_subset_insert [THEN subsetD])
  show "c \<noteq> NL \<Longrightarrow> \<forall>l \<in> set (fst (text_insert c v)). NL \<notin> set l"
    using upd [of "take x (ls ! y) @ c # drop x (ls ! y)"] ls row(1) clean_part by (auto simp: v)
  show "\<forall>l \<in> set (fst (text_delete_under v)). NL \<notin> set l"
    using upd [of "take x (ls ! y) @ drop (Suc x) (ls ! y)"] ls row(1) clean_part by (auto simp: v)
  show "\<forall>l \<in> set (fst (text_backspace v)). NL \<notin> set l"
    using upd [of "take (x - 1) (ls ! y) @ drop x (ls ! y)"] part ls row clean_part by (auto simp: v)
  show "\<forall>l \<in> set (fst (text_split v)). NL \<notin> set l"
    using part ls row(1) clean_part by (auto simp: v)
  show "\<forall>l \<in> set (fst (text_delete_line v)). NL \<notin> set l" "\<forall>l \<in> set (fst (text_open_line v)). NL \<notin> set l"
    "fst (text_move dx dy v) = fst v"
    using part ls by (auto simp: v Let_def)
qed

section \<open>The keys on the text\<close>

text \<open>Mode, lines with cursor, command line.\<close>

type_synonym ed_spec = "editor_mode \<times> text_view \<times> string"

definition ed_spec :: "editor_state \<Rightarrow> ed_spec" where
  "ed_spec ed = (ed_mode ed, ed_view ed, if ed_mode ed = MODE_COMMAND then cstr (command_buffer ed) else [])"

fun spec_arrow :: "8 word \<Rightarrow> text_view \<Rightarrow> text_view" where
  "spec_arrow scancode v =
     (if scancode = 0x48 then text_move 0 (-1) v
      else if scancode = 0x50 then text_move 0 1 v
      else if scancode = 0x4B then text_move (-1) 0 v
      else if scancode = 0x4D then text_move 1 0 v
      else v)"

definition spec_normal :: "char \<Rightarrow> text_view \<Rightarrow> editor_mode \<times> text_view" where
  "spec_normal key v =
     (if key = CHR ''i'' then (MODE_INSERT, v)
      else if key = CHR ''a'' then (MODE_INSERT, text_move 1 0 v)
      else if key = CHR ''o'' then (if length (fst v) < 49 then MODE_INSERT else MODE_NORMAL, text_open_line v)
      else if key = CHR ''h'' then (MODE_NORMAL, text_move (-1) 0 v)
      else if key = CHR ''j'' then (MODE_NORMAL, text_move 0 1 v)
      else if key = CHR ''k'' then (MODE_NORMAL, text_move 0 (-1) v)
      else if key = CHR ''l'' then (MODE_NORMAL, text_move 1 0 v)
      else if key = CHR '':'' then (MODE_COMMAND, v)
      else if key = CHR ''x'' then (MODE_NORMAL, text_delete_under v)
      else if key = CHR ''d'' then (MODE_NORMAL, text_delete_line v)
      else (MODE_NORMAL, v))"

fun text_left :: "text_view \<Rightarrow> text_view" where
  "text_left (ls, y, x, m) = (ls, y, x - 1, m)"

definition spec_insert :: "char \<Rightarrow> 8 word \<Rightarrow> text_view \<Rightarrow> editor_mode \<times> text_view" where
  "spec_insert key scancode v =
     (if scancode = 0x01 then (MODE_NORMAL, text_left v)
      else if scancode = 0x0E then (MODE_INSERT, text_backspace v)
      else if scancode = 0x1C then (MODE_INSERT, text_split v)
      else if scancode \<in> {0x48, 0x50, 0x4B, 0x4D} then (MODE_INSERT, spec_arrow scancode v)
      else if key = NUL then (MODE_INSERT, v)
      else if key = NL then (MODE_INSERT, text_split v)
      else (MODE_INSERT, text_insert key v))"

text \<open>Running a command. \<open>saved\<close> says whether a save cleared \<open>modified\<close>.\<close>

fun saved_view :: "bool \<Rightarrow> text_view \<Rightarrow> text_view" where
  "saved_view saved (ls, y, x, m) = (ls, y, x, m \<and> \<not> saved)"

definition is_modified :: "text_view \<Rightarrow> bool" where
  "is_modified v = snd (snd (snd v))"

definition spec_run :: "bool \<Rightarrow> string \<Rightarrow> text_view \<Rightarrow> editor_mode \<times> text_view" where
  "spec_run saved cmd v =
     (if cmd = ''w'' then (MODE_NORMAL, saved_view saved v)
      else if cmd = ''q'' then (if is_modified v then MODE_NORMAL else MODE_EXIT, v)
      else if cmd = ''q!'' then (MODE_EXIT, v)
      else if cmd = ''wq'' then (let v = saved_view saved v in (if is_modified v then MODE_NORMAL else MODE_EXIT, v))
      else (MODE_NORMAL, v))"

definition spec_command :: "bool \<Rightarrow> char \<Rightarrow> 8 word \<Rightarrow> text_view \<Rightarrow> string \<Rightarrow> ed_spec" where
  "spec_command saved key scancode v cmd =
     (if scancode = 0x01 then (MODE_NORMAL, v, [])
      else if scancode = 0x1C then (fst (spec_run saved cmd v), snd (spec_run saved cmd v), [])
      else if scancode = 0x0E then (MODE_COMMAND, v, butlast cmd)
      else if key \<noteq> NUL \<and> length cmd < 78 then (MODE_COMMAND, v, cmd @ [key])
      else (MODE_COMMAND, v, cmd))"

fun spec_key :: "bool \<Rightarrow> char \<Rightarrow> 8 word \<Rightarrow> ed_spec \<Rightarrow> ed_spec" where
  "spec_key saved key scancode (MODE_NORMAL, v, cmd) =
     (fst (spec_normal key v), spec_arrow scancode (snd (spec_normal key v)), [])"
| "spec_key saved key scancode (MODE_INSERT, v, cmd) =
     (fst (spec_insert key scancode v), snd (spec_insert key scancode v), [])"
| "spec_key saved key scancode (MODE_COMMAND, v, cmd) = spec_command saved key scancode v cmd"
| "spec_key saved key scancode (MODE_EXIT, v, cmd) = (MODE_EXIT, v, cmd)"

section \<open>The code follows the specification\<close>

lemma set_mode_ok:
  assumes "ed_ok ed" and "length msg < 80" and "NUL \<notin> set msg"
  shows "yields (editor_set_status (lit msg) (ed\<lparr>ed_mode := m\<rparr>)) (\<lambda>ed'. ed_ok ed' \<and> ed_view ed' = ed_view ed \<and>
    cstr (status_message ed') = msg \<and> ed_mode ed' = m \<and> ed_filename ed' = ed_filename ed)"
proof -
  have "ed_ok (ed\<lparr>ed_mode := m\<rparr>)" using assms(1) by (simp add: ed_ok_def)
  then show ?thesis
    by (rule yields_mono [OF set_status_ok [OF _ assms(2,3)]]) (simp add: ed_view_def ed_lines_def)
qed

text \<open>\<open>a\<close> steps right before the bounds check.\<close>

lemma move_after_step: "editor_move_cursor 0 0 (ed\<lparr>cursor_x := cursor_x ed + 1\<rparr>) = editor_move_cursor 1 0 ed"
  by (simp add: editor_move_cursor_def Let_def)

lemma arrow_key_refines:
  assumes "ed_ok ed"
  shows "yields (arrow_key scancode ed) (\<lambda>ed'. ed_ok ed' \<and> same_chrome ed ed' \<and> ed_view ed' = spec_arrow scancode (ed_view ed))"
  using assms move_cursor_refines [OF assms] by (simp add: arrow_key_def)

lemma normal_key_refines:
  assumes ok: "ed_ok ed" and mode: "ed_mode ed = MODE_NORMAL"
  shows "yields (normal_key key ed) (\<lambda>ed'. ed_ok ed' \<and> ed_filename ed' = ed_filename ed \<and>
    (ed_mode ed', ed_view ed') = spec_normal key (ed_view ed) \<and>
    (ed_mode ed' = MODE_COMMAND \<longrightarrow> command_length ed' = 0 \<and> cstr (command_buffer ed') = []))"
proof -
  have chrome: "yields m (\<lambda>ed'. ed_ok ed' \<and> ed_filename ed' = ed_filename ed \<and> (ed_mode ed', ed_view ed') = (MODE_NORMAL, v) \<and>
      (ed_mode ed' = MODE_COMMAND \<longrightarrow> command_length ed' = 0 \<and> cstr (command_buffer ed') = []))"
    if "yields m (\<lambda>ed'. ed_ok ed' \<and> same_chrome ed ed' \<and> ed_view ed' = v)" for m v
    by (rule yields_mono [OF that]) (simp add: same_chrome_def mode)
  have insert_mode: "yields (editor_set_status (lit ''-- INSERT --'') (ed1\<lparr>ed_mode := MODE_INSERT\<rparr>))
      (\<lambda>ed'. ed_ok ed' \<and> ed_filename ed' = ed_filename ed1 \<and> (ed_mode ed', ed_view ed') = (MODE_INSERT, ed_view ed1) \<and>
        (ed_mode ed' = MODE_COMMAND \<longrightarrow> command_length ed' = 0 \<and> cstr (command_buffer ed') = []))" if "ed_ok ed1" for ed1
    by (rule yields_mono [OF set_mode_ok [OF that]]) simp_all
  have move: "yields (editor_move_cursor dx dy ed) (\<lambda>ed'. ed_ok ed' \<and> same_chrome ed ed' \<and> ed_view ed' = text_move dx dy (ed_view ed))"
    if "-1 \<le> dy" "dy \<le> 1" for dx dy
    using move_cursor_refines [OF ok that] .
  consider "key = CHR ''i''" | "key = CHR ''a''" | "key = CHR ''o''" | "key \<in> {CHR ''h'', CHR ''j'', CHR ''k'', CHR ''l''}"
    | "key = CHR '':''" | "key = CHR ''x''" | "key = CHR ''d''"
    | "key \<notin> set ''iaohjkl:xd''" by auto
  then show ?thesis
  proof cases
    case 1
    then show ?thesis using insert_mode [OF ok] by (simp add: normal_key_def spec_normal_def)
  next
    case 2
    obtain ed1 where m: "editor_move_cursor 1 0 ed = Some ed1" "ed_ok ed1" "same_chrome ed ed1"
      "ed_view ed1 = text_move 1 0 (ed_view ed)"
      using move [of 0 1] by (auto elim: yieldsE)
    then show ?thesis using insert_mode [OF m(2)] 2
      by (simp add: normal_key_def spec_normal_def move_after_step same_chrome_def)
  next
    case 3
    have "normal_key key ed = open_line ed" "fst (ed_view ed) = ed_lines ed" using 3 by (simp_all add: normal_key_def ed_view_def)
    with 3 show ?thesis
      using open_line_refines [OF ok] by (auto simp: spec_normal_def mode elim!: yields_mono)
  next
    case 4
    then show ?thesis using chrome [OF move] by (auto simp: normal_key_def spec_normal_def)
  next
    case 5
    have "arr_set (command_buffer ed) 0 NUL = Some ((command_buffer ed)[0 := NUL])"
      "terminated ((command_buffer ed)[0 := NUL])" "cstr ((command_buffer ed)[0 := NUL]) = []"
      using ok first_nul [of "command_buffer ed"] by (simp_all add: ed_ok_def arr_set_def)
    then show ?thesis using 5 ok by (simp add: normal_key_def spec_normal_def ed_ok_def ed_view_def ed_lines_def)
  next
    case 6
    then show ?thesis using chrome [OF delete_under_refines [OF ok]] by (simp add: normal_key_def spec_normal_def)
  next
    case 7
    then show ?thesis using chrome [OF delete_line_refines [OF ok]] by (simp add: normal_key_def spec_normal_def)
  next
    case 8
    then show ?thesis using ok mode by (simp add: normal_key_def spec_normal_def)
  qed
qed

lemma insert_key_refines:
  assumes ok: "ed_ok ed" and mode: "ed_mode ed = MODE_INSERT" and fits: "scancode = 0x0E \<longrightarrow> join_fits ed"
  shows "yields (insert_key key scancode ed) (\<lambda>ed'. ed_ok ed' \<and> ed_filename ed' = ed_filename ed \<and>
    (ed_mode ed', ed_view ed') = spec_insert key scancode (ed_view ed))"
proof -
  have chrome: "yields m (\<lambda>ed'. ed_ok ed' \<and> ed_filename ed' = ed_filename ed \<and> (ed_mode ed', ed_view ed') = (MODE_INSERT, v))"
    if "yields m (\<lambda>ed'. ed_ok ed' \<and> same_chrome ed ed' \<and> ed_view ed' = v)" for m v
    by (rule yields_mono [OF that]) (simp add: same_chrome_def mode)
  show ?thesis
  proof (cases "scancode = 0x01")
    case True
    have left: "ed_ok (ed1\<lparr>cursor_x := cursor_x ed1 - 1\<rparr>)" if "ed_ok ed1" "cursor_x ed1 > 0" for ed1
      using that by (simp add: ed_ok_def)
    obtain ed1 where e: "editor_set_status (lit ''-- NORMAL --'') (ed\<lparr>ed_mode := MODE_NORMAL\<rparr>) = Some ed1"
      "ed_ok ed1" "ed_view ed1 = ed_view ed" "ed_mode ed1 = MODE_NORMAL" "ed_filename ed1 = ed_filename ed"
      using set_mode_ok [OF ok, of "''-- NORMAL --''"] by (auto elim: yieldsE)
    have "ed_view (if cursor_x ed1 > 0 then ed1\<lparr>cursor_x := cursor_x ed1 - 1\<rparr> else ed1) = text_left (ed_view ed)"
      unfolding e(3) [symmetric] by (auto simp: ed_view_def ed_lines_def nat_diff_distrib')
    then show ?thesis using True e left [OF e(2)] by (simp add: insert_key_def spec_insert_def)
  next
    case False
    have "yields (editor_delete_char ed) (\<lambda>ed'. ed_ok ed' \<and> ed_filename ed' = ed_filename ed \<and>
        (ed_mode ed', ed_view ed') = (MODE_INSERT, text_backspace (ed_view ed)))" if "scancode = 0x0E"
      using chrome [OF backspace_refines [OF ok]] fits that by blast
    moreover have "yields (editor_insert_char key ed) (\<lambda>ed'. ed_ok ed' \<and> ed_filename ed' = ed_filename ed \<and>
        (ed_mode ed', ed_view ed') = (MODE_INSERT, text_insert key (ed_view ed)))" if "key \<noteq> NUL" "key \<noteq> NL"
      by (rule chrome [OF insert_char_refines [OF ok that]])
    ultimately show ?thesis
      using False ok mode chrome [OF split_refines [OF ok]] chrome [OF arrow_key_refines [OF ok]]
      by (auto simp: insert_key_def spec_insert_def simp del: spec_arrow.simps)
  qed
qed

lemma saved_ed_view: "(ed_lines ed, nat (cursor_y ed), nat (cursor_x ed), ed_modified ed \<and> \<not> w) = saved_view w (ed_view ed)"
  by (simp add: ed_view_def)

lemma is_modified_view: "is_modified (ed_view ed) = ed_modified ed"
  by (simp add: is_modified_def ed_view_def)

text \<open>What a key in command mode may do to the file system: only a save touches it.\<close>

definition runs_save :: "char list \<Rightarrow> bool" where
  "runs_save cmd \<longleftrightarrow> cstr cmd \<in> {''w'', ''wq''}"

lemma process_command_refines:
  assumes fs: "fs_ok s" and ok: "ed_ok ed" and mode: "ed_mode ed = MODE_COMMAND"
  shows "yields (editor_process_command s ed) (\<lambda>(s', ed'). fs_ok s' \<and> fs_extends s s' \<and> ed_ok ed' \<and>
    ed_filename ed' = ed_filename ed \<and> (\<not> runs_save (command_buffer ed) \<longrightarrow> s' = s) \<and>
    (\<exists>saved. (saved \<longrightarrow> join_lines (ed_lines ed) = []) \<and>
      (if ed_mode ed' \<noteq> MODE_EXIT then MODE_NORMAL else MODE_EXIT, ed_view ed') =
        spec_run saved (cstr (command_buffer ed)) (ed_view ed)))"
proof -
  let ?c = "command_buffer ed"
  have t: "terminated ?c" using ok by (simp add: ed_ok_def)
  have nul: "NUL \<notin> set ''w''" "NUL \<notin> set ''q''" "NUL \<notin> set ''q!''" "NUL \<notin> set ''wq''" by simp_all
  obtain w where w: "strcmp ?c (lit ''w'') = Some w" "w = 0 \<longleftrightarrow> cstr ?c = ''w''" by (rule strcmp_lit [OF t nul(1)])
  obtain q where q: "strcmp ?c (lit ''q'') = Some q" "q = 0 \<longleftrightarrow> cstr ?c = ''q''" by (rule strcmp_lit [OF t nul(2)])
  obtain qf where qf: "strcmp ?c (lit ''q!'') = Some qf" "qf = 0 \<longleftrightarrow> cstr ?c = ''q!''" by (rule strcmp_lit [OF t nul(3)])
  obtain wq where wq: "strcmp ?c (lit ''wq'') = Some wq" "wq = 0 \<longleftrightarrow> cstr ?c = ''wq''" by (rule strcmp_lit [OF t nul(4)])
  note cmp = w(1) q(1) qf(1) wq(1) and eq = w(2) q(2) qf(2) wq(2)
  define body where "body = (if w = 0 then editor_save_file s ed
        else if q = 0 then
          if ed_modified ed then do {
            ed \<leftarrow> editor_set_status (lit ''No write since last change (add ! to override)'') ed;
            Some (s, ed) }
          else Some (s, ed\<lparr>ed_mode := MODE_EXIT\<rparr>)
        else if qf = 0 then Some (s, ed\<lparr>ed_mode := MODE_EXIT\<rparr>)
        else if wq = 0 then do {
          (s, ed) \<leftarrow> editor_save_file s ed;
          Some (s, if \<not> ed_modified ed then ed\<lparr>ed_mode := MODE_EXIT\<rparr> else ed) }
        else do { ed \<leftarrow> editor_set_status (lit ''Unknown command'') ed; Some (s, ed) })"
  have exit: "ed_ok (e\<lparr>ed_mode := m\<rparr>)" "ed_view (e\<lparr>ed_mode := m\<rparr>) = ed_view e" if "ed_ok e" for e m
    using that by (simp_all add: ed_ok_def ed_view_def ed_lines_def)
  obtain s1 ed1 v where save: "editor_save_file s ed = Some (s1, ed1)" "fs_ok s1" "fs_extends s s1" "ed_ok ed1"
    "ed_mode ed1 = MODE_COMMAND" "ed_filename ed1 = ed_filename ed" "ed_view ed1 = saved_view v (ed_view ed)"
    "v \<longrightarrow> join_lines (ed_lines ed) = []"
    by (rule yields_pairE [OF editor_save_file_ok [OF fs ok, unfolded mode saved_ed_view]]) blast
  define P where "P = (\<lambda>(s', ed'). fs_ok s' \<and> fs_extends s s' \<and> ed_ok ed' \<and> ed_filename ed' = ed_filename ed \<and>
    (\<not> runs_save ?c \<longrightarrow> s' = s) \<and>
    (\<exists>saved. (saved \<longrightarrow> join_lines (ed_lines ed) = []) \<and>
      (if ed_mode ed' \<noteq> MODE_EXIT then MODE_NORMAL else MODE_EXIT, ed_view ed') = spec_run saved (cstr ?c) (ed_view ed)))"
  have body: "yields body P"
  proof -
    consider "cstr ?c = ''w''" | "cstr ?c = ''q''" "ed_modified ed" | "cstr ?c = ''q''" "\<not> ed_modified ed"
      | "cstr ?c = ''q!''" | "cstr ?c = ''wq''" | "cstr ?c \<notin> {''w'', ''q'', ''q!'', ''wq''}" by auto
    then show ?thesis
    proof cases
      case 1
      then show ?thesis using save by (auto simp: body_def eq P_def runs_save_def spec_run_def)
    next
      case 2
      then show ?thesis using set_status_ok [OF ok, of "''No write since last change (add ! to override)''"] fs mode
        by (auto simp: body_def eq P_def spec_run_def is_modified_view elim!: yields_mono)
    next
      case 3
      then show ?thesis using fs exit [OF ok] by (auto simp: body_def eq P_def spec_run_def is_modified_view)
    next
      case 4
      then show ?thesis using fs exit [OF ok] by (auto simp: body_def eq P_def spec_run_def)
    next
      case 5
      have "is_modified (saved_view v (ed_view ed)) = ed_modified ed1" using save(7) is_modified_view [of ed1] by simp
      then show ?thesis using save exit [OF save(4)] 5
        by (auto simp: body_def eq P_def runs_save_def spec_run_def Let_def)
    next
      case 6
      then show ?thesis using set_status_ok [OF ok, of "''Unknown command''"] fs mode
        by (auto simp: body_def eq P_def spec_run_def elim!: yields_mono)
    qed
  qed
  have clear: "yields (arr_set (command_buffer e) 0 NUL) (\<lambda>c. ed_ok (e\<lparr>command_length := 0, command_buffer := c\<rparr>))"
    if "ed_ok e" for e
    using that first_nul [of "command_buffer e"] by (simp add: ed_ok_def arr_set_def)
  have "editor_process_command s ed = do {
      (s, ed) \<leftarrow> body;
      cmd \<leftarrow> arr_set (command_buffer ed) 0 NUL;
      Some (s, ed\<lparr>command_length := 0, command_buffer := cmd\<rparr>) }"
    by (simp add: editor_process_command_def cmp body_def)
  moreover have "yields (arr_set (command_buffer e) 0 NUL)
      (\<lambda>c. P (s', e\<lparr>command_length := 0, command_buffer := c\<rparr>))" if "P (s', e)" for s' e
    using that clear [of e] by (auto simp: P_def ed_view_def ed_lines_def elim!: yields_mono)
  ultimately show ?thesis using body unfolding P_def [symmetric]
    by (auto elim!: yields_mono)
qed

text \<open>Typing and erasing on the command line.\<close>

lemma command_append:
  assumes c: "length c = 80" "terminated c" "length (cstr c) < 78" and key: "key \<noteq> NUL"
  shows "yields (do { c1 \<leftarrow> int_set c (int (length (cstr c))) key; int_set c1 (int (length (cstr c)) + 1) NUL })
    (\<lambda>c'. length c' = 80 \<and> terminated c' \<and> cstr c' = cstr c @ [key])"
proof -
  obtain r where r: "c = cstr c @ NUL # r" "NUL \<notin> set (cstr c)" using c(2) by (rule terminatedE)
  let ?x = "cstr c"
  have "length r = 79 - length ?x" using c(1) by (subst (asm) r(1)) simp
  then obtain z r' where r': "r = z # r'" using c(3) by (cases r) auto
  have eq: "c = ?x @ NUL # z # r'" using r(1) r' by simp
  have "c[length ?x := key] = ?x @ key # z # r'" by (subst (1) eq) simp
  moreover have "(?x @ key # z # r')[Suc (length ?x) := NUL] = (?x @ [key]) @ NUL # r'" by (simp add: list_update_append)
  moreover have "length (?x @ key # z # r') = 80" using c(1) by (subst (asm) eq) simp
  moreover have "NUL \<notin> set (?x @ [key])" using r(2) key by simp
  moreover have "length ((?x @ [key]) @ NUL # r') = 80" using c(1) by (subst (asm) eq) simp
  moreover have "length ?x < length c" "Suc (length ?x) < 80" using c by simp_all
  ultimately show ?thesis
    by (simp only: int_set_next arr_set_Some bind.bind_lunit yields_Some cstr_append terminated_append simp_thms)
qed

lemma command_erase:
  assumes c: "length c = 80" "terminated c" "cstr c \<noteq> []"
  shows "yields (int_set c (int (length (cstr c)) - 1) NUL)
    (\<lambda>c'. length c' = 80 \<and> terminated c' \<and> cstr c' = butlast (cstr c))"
proof -
  obtain r where r: "c = cstr c @ NUL # r" "NUL \<notin> set (cstr c)" using c(2) by (rule terminatedE)
  let ?x = "cstr c"
  have bl: "?x = butlast ?x @ [last ?x]" using c(3) by simp
  have "c[length ?x - 1 := NUL] = butlast ?x @ NUL # NUL # r"
    by (subst (1) r(1), subst (1) bl) (simp add: list_update_append)
  moreover have "NUL \<notin> set (butlast ?x)" using r(2) by (auto dest: in_set_butlastD)
  moreover have "int (length ?x) - 1 = int (length ?x - 1)" "length ?x - 1 < length c"
    using c length_cstr_less [OF c(2)] by (simp_all add: of_nat_diff Suc_le_eq)
  moreover have "length (c[length ?x - 1 := NUL]) = 80" using c by simp
  ultimately show ?thesis
    by (simp only: int_set_of_nat arr_set_Some yields_Some cstr_append terminated_append simp_thms)
qed

lemma command_key_refines:
  assumes fs: "fs_ok s" and inv: "ed_inv ed" and mode: "ed_mode ed = MODE_COMMAND"
  shows "yields (command_key key scancode s ed) (\<lambda>(s', ed'). fs_ok s' \<and> fs_extends s s' \<and> ed_ok ed' \<and>
    ed_filename ed' = ed_filename ed \<and>
    (\<not> (scancode = 0x1C \<and> runs_save (command_buffer ed)) \<longrightarrow> s' = s) \<and>
    (ed_mode ed' = MODE_COMMAND \<longrightarrow> command_length ed' = int (length (cstr (command_buffer ed')))) \<and>
    (\<exists>saved. (saved \<longrightarrow> join_lines (ed_lines ed) = []) \<and>
      ed_spec ed' = spec_command saved key scancode (ed_view ed) (cstr (command_buffer ed))))"
proof -
  have ok: "ed_ok ed" and len: "command_length ed = int (length (cstr (command_buffer ed)))"
    using inv mode by (simp_all add: ed_inv_def)
  note cb = ok [unfolded ed_ok_def]
  let ?c = "command_buffer ed"
  have type: "ed_ok (ed\<lparr>command_length := int n, command_buffer := c\<rparr>)" "ed_view (ed\<lparr>command_length := int n, command_buffer := c\<rparr>) = ed_view ed"
    if "length c = 80" "terminated c" "n \<le> 78" for n c
    using ok that by (simp_all add: ed_ok_def ed_view_def ed_lines_def)
  consider "scancode = 0x01" | "scancode = 0x1C" | "scancode = 0x0E" | "scancode \<notin> {0x01, 0x1C, 0x0E}" by blast
  then show ?thesis
  proof cases
    case 1
    have e: "ed_ok (ed\<lparr>command_length := 0\<rparr>)" "ed_view (ed\<lparr>command_length := 0\<rparr>) = ed_view ed"
      using ok by (simp_all add: ed_ok_def ed_view_def ed_lines_def)
    have eq: "ed\<lparr>ed_mode := MODE_NORMAL, command_length := 0\<rparr> = ed\<lparr>command_length := 0\<rparr>\<lparr>ed_mode := MODE_NORMAL\<rparr>"
      by (cases ed) simp
    have "yields (editor_set_status (lit ''-- NORMAL --'') (ed\<lparr>ed_mode := MODE_NORMAL, command_length := 0\<rparr>))
      (\<lambda>ed'. ed_ok ed' \<and> ed_view ed' = ed_view ed \<and> ed_mode ed' = MODE_NORMAL \<and> ed_filename ed' = ed_filename ed)"
      unfolding eq by (rule yields_mono [OF set_mode_ok [OF e(1)]]) (simp_all add: e(2))
    then show ?thesis using 1 fs
      by (auto simp: command_key_def spec_command_def ed_spec_def elim!: yields_mono)
  next
    case 2
    have exit: "ed_ok (e\<lparr>ed_mode := m\<rparr>)" "ed_view (e\<lparr>ed_mode := m\<rparr>) = ed_view e" if "ed_ok e" for e m
      using that by (simp_all add: ed_ok_def ed_view_def ed_lines_def)
    obtain s1 e saved where p: "editor_process_command s ed = Some (s1, e)" "fs_ok s1" "fs_extends s s1" "ed_ok e"
      "ed_filename e = ed_filename ed" "\<not> runs_save ?c \<longrightarrow> s1 = s" "saved \<longrightarrow> join_lines (ed_lines ed) = []"
      "(if ed_mode e \<noteq> MODE_EXIT then MODE_NORMAL else MODE_EXIT, ed_view e) = spec_run saved (cstr ?c) (ed_view ed)"
      by (rule yields_pairE [OF process_command_refines [OF fs ok mode]]) blast
    define f where "f = (if ed_mode e \<noteq> MODE_EXIT then e\<lparr>ed_mode := MODE_NORMAL\<rparr> else e)"
    have eq: "command_key key scancode s ed = Some (s1, f)" using 2 p(1) by (simp add: command_key_def f_def)
    have "ed_spec f = spec_command saved key scancode (ed_view ed) (cstr ?c)"
      using 2 exit [OF p(4)] by (simp add: spec_command_def ed_spec_def f_def flip: p(8))
    moreover have "ed_ok f" "ed_filename f = ed_filename ed" "ed_mode f \<noteq> MODE_COMMAND"
      using exit [OF p(4)] p(4,5) by (simp_all add: f_def)
    ultimately show ?thesis unfolding eq yields_Some prod.case using p(2,3,6,7) 2 by blast
  next
    case 3
    show ?thesis
    proof (cases "cstr ?c = []")
      case True
      then show ?thesis using 3 len fs ok mode by (auto simp: command_key_def spec_command_def ed_spec_def)
    next
      case False
      have "length (cstr ?c) \<le> 78" using len cb by simp
      then have n: "length (cstr ?c) - 1 \<le> 78" by simp
      obtain c where c: "int_set ?c (command_length ed - 1) NUL = Some c" "length c = 80" "terminated c" "cstr c = butlast (cstr ?c)"
        using command_erase [of ?c] cb False unfolding len by (auto elim: yieldsE)
      have n': "command_length ed - 1 = int (length (cstr ?c) - 1)" unfolding len using False by (cases "cstr ?c") simp_all
      have "command_key key scancode s ed = Some (s, ed\<lparr>command_length := int (length (cstr ?c) - 1), command_buffer := c\<rparr>)"
        unfolding n' [symmetric] using 3 c(1) len False by (simp add: command_key_def)
      moreover have "int (length (cstr ?c) - 1) = int (length (cstr c))" using c(4) by simp
      ultimately show ?thesis using 3 fs mode c(4) type [OF c(2,3) n]
        by (auto simp: spec_command_def ed_spec_def simp del: of_nat_diff)
    qed
  next
    case 4
    show ?thesis
    proof (cases "key \<noteq> NUL \<and> length (cstr ?c) < 78")
      case False
      then show ?thesis using 4 len fs ok mode by (auto simp: command_key_def spec_command_def ed_spec_def)
    next
      case True
      then have n: "Suc (length (cstr ?c)) \<le> 78" by simp
      obtain c1 c where c: "int_set ?c (command_length ed) key = Some c1" "int_set c1 (command_length ed + 1) NUL = Some c"
        "length c = 80" "terminated c" "cstr c = cstr ?c @ [key]"
        using command_append [of ?c key] cb True unfolding len by (auto simp: yields_iff bind_eq_Some_conv)
      have "command_key key scancode s ed = Some (s, ed\<lparr>command_length := int (Suc (length (cstr ?c))), command_buffer := c\<rparr>)"
        using 4 c(1,2) True len by (simp add: command_key_def add.commute)
      then show ?thesis using 4 True fs mode c(5) type [OF c(3,4) n]
        by (auto simp: spec_command_def ed_spec_def)
    qed
  qed
qed

text \<open>The view after a step is clean again.\<close>

lemma spec_arrow_lines: "fst (spec_arrow scancode v) = fst v"
  by (cases v) (simp add: Let_def)

lemma spec_normal_clean:
  assumes "clean_view v" shows "\<forall>l \<in> set (fst (snd (spec_normal key v))). NL \<notin> set l"
  using clean_text [OF assms] assms by (auto simp: spec_normal_def clean_view_def)

lemma spec_insert_clean:
  assumes "clean_view v" shows "\<forall>l \<in> set (fst (snd (spec_insert key scancode v))). NL \<notin> set l"
proof -
  have "fst (text_left v) = fst v" by (cases v) simp
  then show ?thesis using clean_text [OF assms] spec_arrow_lines [of scancode v] assms
    by (auto simp: spec_insert_def clean_view_def simp del: spec_arrow.simps)
qed

lemma spec_run_lines: "fst (snd (spec_run saved cmd v)) = fst v"
  by (cases v) (simp add: spec_run_def Let_def)

lemma spec_key_clean:
  assumes "clean_view v"
  shows "\<forall>l \<in> set (fst (fst (snd (spec_key saved key scancode (m, v, cmd))))). NL \<notin> set l"
proof (cases m)
  case MODE_NORMAL
  then show ?thesis using spec_normal_clean [OF assms] by (simp add: spec_arrow_lines del: spec_arrow.simps)
next
  case MODE_INSERT
  then show ?thesis using spec_insert_clean [OF assms] by simp
next
  case MODE_COMMAND
  then show ?thesis using assms by (auto simp: spec_command_def spec_run_lines clean_view_def)
next
  case MODE_EXIT
  then show ?thesis using assms by (simp add: clean_view_def)
qed

lemma ed_lines_spec: "fst (fst (snd (ed_spec ed))) = ed_lines ed"
  by (simp add: ed_spec_def ed_view_def)

text \<open>The only key that can leave the rows: Backspace at the start of a line that does not fit
  behind its predecessor.\<close>

definition key_fits :: "8 word \<Rightarrow> editor_state \<Rightarrow> bool" where
  "key_fits scancode ed \<longleftrightarrow> (ed_mode ed = MODE_INSERT \<and> scancode = 0x0E \<longrightarrow> join_fits ed)"

text \<open>Keys that run \<open>:w\<close> or \<open>:wq\<close>.\<close>

definition saves :: "8 word \<Rightarrow> editor_state \<Rightarrow> bool" where
  "saves scancode ed \<longleftrightarrow> ed_mode ed = MODE_COMMAND \<and> scancode = 0x1C \<and> runs_save (command_buffer ed)"

lemma process_key_refines:
  assumes fs: "fs_ok s" and inv: "ed_inv ed" and fits: "key_fits scancode ed"
  shows "yields (editor_process_key key scancode s ed) (\<lambda>(s', ed'). fs_ok s' \<and> fs_extends s s' \<and> ed_inv ed' \<and>
    ed_filename ed' = ed_filename ed \<and> (\<not> saves scancode ed \<longrightarrow> s' = s) \<and>
    (\<exists>saved. (saved \<longrightarrow> join_lines (ed_lines ed) = []) \<and> ed_spec ed' = spec_key saved key scancode (ed_spec ed)))"
proof -
  have ok: "ed_ok ed" by (rule ed_inv_ok [OF inv])
  note clean = spec_key_clean [OF clean_view_ed [OF inv]]
  have inv': "ed_inv ed'" if "ed_ok ed'" "ed_spec ed' = spec_key saved key scancode (ed_spec ed)"
    "ed_mode ed' = MODE_COMMAND \<longrightarrow> command_length ed' = int (length (cstr (command_buffer ed')))" for ed' saved
    using that clean ed_lines_spec [of ed'] unfolding ed_inv_def by (metis ed_spec_def)
  have fin: ?thesis
    if "editor_process_key key scancode s ed = Some (s', e)" "ed_spec e = spec_key saved key scancode (ed_spec ed)" "ed_inv e"
      "ed_filename e = ed_filename ed" "fs_ok s'" "fs_extends s s'" "\<not> saves scancode ed \<longrightarrow> s' = s"
      "saved \<longrightarrow> join_lines (ed_lines ed) = []" for s' e saved
    unfolding that(1) yields_Some prod.case using that(2-) by blast
  show ?thesis
  proof (cases "ed_mode ed")
    case MODE_NORMAL
    obtain e1 where e1: "normal_key key ed = Some e1" "ed_ok e1" "ed_filename e1 = ed_filename ed"
      "(ed_mode e1, ed_view e1) = spec_normal key (ed_view ed)"
      "ed_mode e1 = MODE_COMMAND \<longrightarrow> command_length e1 = 0 \<and> cstr (command_buffer e1) = []"
      using normal_key_refines [OF ok MODE_NORMAL, of key] by (rule yieldsE) blast
    obtain e2 where e2: "arrow_key scancode e1 = Some e2" "ed_ok e2" "same_chrome e1 e2"
      "ed_view e2 = spec_arrow scancode (ed_view e1)"
      using arrow_key_refines [OF e1(2), of scancode] by (rule yieldsE) blast
    have eq: "editor_process_key key scancode s ed = Some (s, e2)"
      using MODE_NORMAL e1(1) e2(1) by (simp add: editor_process_key_def)
    have "ed_spec e2 = spec_key False key scancode (ed_spec ed)"
      using MODE_NORMAL e1(5) e2(3,4) by (simp add: ed_spec_def same_chrome_def flip: e1(4))
    moreover from this have "ed_inv e2" using e1(5) e2(2,3) by (intro inv') (auto simp: same_chrome_def)
    moreover have "ed_filename e2 = ed_filename ed" using e1(3) e2(3) by (simp add: same_chrome_def)
    ultimately show ?thesis by (rule fin [OF eq]) (use fs in simp_all)
  next
    case MODE_INSERT
    obtain e1 where e1: "insert_key key scancode ed = Some e1" "ed_ok e1" "ed_filename e1 = ed_filename ed"
      "(ed_mode e1, ed_view e1) = spec_insert key scancode (ed_view ed)"
      using insert_key_refines [OF ok MODE_INSERT, of scancode key] fits MODE_INSERT
      by (auto simp: key_fits_def elim: yieldsE)
    have eq: "editor_process_key key scancode s ed = Some (s, e1)"
      using MODE_INSERT e1(1) by (simp add: editor_process_key_def)
    have m: "ed_mode e1 \<noteq> MODE_COMMAND"
      using arg_cong [OF e1(4), of fst] by (auto simp: spec_insert_def split: if_splits)
    then have "ed_spec e1 = spec_key False key scancode (ed_spec ed)"
      using MODE_INSERT by (simp add: ed_spec_def flip: e1(4))
    moreover from this have "ed_inv e1" using m e1(2) by (intro inv') auto
    ultimately show ?thesis by (rule fin [OF eq]) (use fs e1(3) in simp_all)
  next
    case MODE_COMMAND
    obtain s1 e1 saved where e1: "command_key key scancode s ed = Some (s1, e1)" "fs_ok s1" "fs_extends s s1" "ed_ok e1"
      "ed_filename e1 = ed_filename ed" "\<not> (scancode = 0x1C \<and> runs_save (command_buffer ed)) \<longrightarrow> s1 = s"
      "ed_mode e1 = MODE_COMMAND \<longrightarrow> command_length e1 = int (length (cstr (command_buffer e1)))"
      "saved \<longrightarrow> join_lines (ed_lines ed) = []"
      "ed_spec e1 = spec_command saved key scancode (ed_view ed) (cstr (command_buffer ed))"
      by (rule yields_pairE [OF command_key_refines [OF fs inv MODE_COMMAND]]) blast
    have eq: "editor_process_key key scancode s ed = Some (s1, e1)"
      using MODE_COMMAND e1(1) by (simp add: editor_process_key_def)
    have "ed_spec e1 = spec_key saved key scancode (ed_spec ed)"
      using MODE_COMMAND e1(9) by (simp add: ed_spec_def)
    moreover from this have "ed_inv e1" using e1(4,7) by (intro inv')
    moreover have "\<not> saves scancode ed \<longrightarrow> s1 = s" using e1(6) MODE_COMMAND by (simp add: saves_def)
    ultimately show ?thesis by (intro fin [OF eq, of saved] e1(2,3,5,8))
  next
    case MODE_EXIT
    then have "editor_process_key key scancode s ed = Some (s, ed)" "ed_spec ed = spec_key False key scancode (ed_spec ed)"
      by (simp_all add: editor_process_key_def ed_spec_def)
    then show ?thesis by (rule fin) (use fs inv in simp_all)
  qed
qed

text \<open>A Backspace that does not fit leaves the row.\<close>

lemma join_overflows:
  assumes ok: "ed_ok ed" and no: "\<not> join_fits ed"
  shows "editor_delete_char ed = None"
proof -
  note o = ed_okD [OF ok]
  have x: "cursor_x ed = 0" and y: "cursor_y ed > 0"
    and long: "length (ed_lines ed ! nat (cursor_y ed - 1)) + length (ed_lines ed ! nat (cursor_y ed)) \<ge> 76"
    using no by (auto simp: join_fits_def)
  have k: "nat (cursor_y ed - 1) < 50" "nat (cursor_y ed) < 50" using o by simp_all
  note r = rows_okD [OF o(1) k(1)] and r' = rows_okD [OF o(1) k(2)]
  let ?p = "ed_buffer ed ! nat (cursor_y ed - 1)" and ?c = "ed_buffer ed ! nat (cursor_y ed)"
  have ls: "ed_lines ed ! nat (cursor_y ed - 1) = cstr ?p" "ed_lines ed ! nat (cursor_y ed) = cstr ?c"
    using ed_lines_nth [OF ok] o y r(3) r'(3) by simp_all
  have "strcpy (drop (length (cstr ?p)) ?p) ?c = None"
    using long r(1) by (auto simp: strcpy_eq ls)
  moreover have "int_get (ed_buffer ed) (cursor_y ed - 1) = Some ?p" "int_get (ed_buffer ed) (cursor_y ed) = Some ?c"
    using o y by (simp_all add: get_row_eq)
  ultimately show ?thesis using x y r(2) by (simp add: editor_delete_char_def strlen_eq)
qed

lemma process_key_overflows:
  assumes "ed_inv ed" and "\<not> key_fits scancode ed"
  shows "editor_process_key key scancode s ed = None"
  using assms join_overflows [OF ed_inv_ok [OF assms(1)]]
  by (simp add: key_fits_def editor_process_key_def insert_key_def)

section \<open>Sessions\<close>

text \<open>A sequence of keys.\<close>

definition press :: "(char \<times> 8 word) list \<Rightarrow> fs_state \<times> editor_state \<Rightarrow> (fs_state \<times> editor_state) option" where
  "press = ofold (\<lambda>(key, scancode) (s, ed). editor_process_key key scancode s ed)"

lemma press_simps [simp]:
  "press [] se = Some se"
  "press ((key, scancode) # ks) (s, ed) = Option.bind (editor_process_key key scancode s ed) (press ks)"
  by (simp_all add: press_def)

inductive ed_reaches :: "fs_state \<Rightarrow> editor_state \<Rightarrow> fs_state \<Rightarrow> editor_state \<Rightarrow> bool" for s0 ed0 where
  ed_start: "ed_reaches s0 ed0 s0 ed0"
| ed_key: "ed_reaches s0 ed0 s ed \<Longrightarrow> editor_process_key key scancode s ed = Some (s', ed') \<Longrightarrow> ed_reaches s0 ed0 s' ed'"

lemma process_key_Some:
  assumes "fs_ok s" and "ed_inv ed" and "editor_process_key key scancode s ed = Some (s', ed')"
  shows "fs_ok s' \<and> fs_extends s s' \<and> ed_inv ed' \<and> ed_filename ed' = ed_filename ed"
proof -
  have "key_fits scancode ed" using process_key_overflows [OF assms(2)] assms(3) by (metis option.distinct(1))
  from process_key_refines [OF assms(1,2) this, of key] show ?thesis using assms(3) by simp
qed

lemma ed_reaches_inv: "ed_reaches s0 ed0 s ed \<Longrightarrow> fs_ok s0 \<Longrightarrow> ed_inv ed0 \<Longrightarrow> fs_ok s \<and> ed_inv ed"
  by (induction rule: ed_reaches.induct) (auto dest: process_key_Some)

text \<open>Typing plain characters in insert mode, and erasing them again.\<close>

definition plain :: "char \<times> 8 word \<Rightarrow> bool" where
  "plain k \<longleftrightarrow> fst k \<noteq> NUL \<and> fst k \<noteq> NL \<and> snd k \<notin> {0x01, 0x0E, 0x1C, 0x48, 0x50, 0x4B, 0x4D}"

lemma insert_step:
  assumes fs: "fs_ok s" and inv: "ed_inv ed" and mode: "ed_mode ed = MODE_INSERT"
    and keys: "scancode \<notin> {0x01, 0x0E, 0x1C, 0x48, 0x50, 0x4B, 0x4D} \<or> (scancode = 0x0E \<and> cursor_x ed > 0)"
  obtains ed' where "editor_process_key key scancode s ed = Some (s, ed')" and "ed_inv ed'"
    and "ed_mode ed' = MODE_INSERT" and "ed_view ed' = snd (spec_insert key scancode (ed_view ed))"
proof -
  have "key_fits scancode ed" using keys by (auto simp: key_fits_def join_fits_def)
  then obtain s' ed' saved where e: "editor_process_key key scancode s ed = Some (s', ed')" "ed_inv ed'"
    "\<not> saves scancode ed \<longrightarrow> s' = s" "ed_spec ed' = spec_key saved key scancode (ed_spec ed)"
    using process_key_refines [OF fs inv, of scancode key] by (auto elim!: yields_pairE)
  have "s' = s" using e(3) mode by (simp add: saves_def)
  moreover have "ed_mode ed' = fst (spec_insert key scancode (ed_view ed))"
    "ed_view ed' = snd (spec_insert key scancode (ed_view ed))"
    using e(4) mode by (simp_all add: ed_spec_def)
  moreover have "fst (spec_insert key scancode (ed_view ed)) = MODE_INSERT"
    using keys by (auto simp: spec_insert_def)
  ultimately show ?thesis using that e(1,2) by simp
qed

lemma plain_step:
  assumes "plain k" and "ed_view ed = (ls, y, x, m)" and "length (ls ! y) < 75"
  shows "snd (spec_insert (fst k) (snd k) (ed_view ed)) = (ls[y := take x (ls ! y) @ fst k # drop x (ls ! y)], y, Suc x, True)"
  using assms by (simp add: plain_def spec_insert_def)

lemma ed_view_bounds:
  assumes "ed_ok ed" and "ed_view ed = (ls, y, x, m)"
  shows "y < length ls" and "x \<le> length (ls ! y)" and "cursor_x ed = int x" and "length ls \<le> 50" and "length (ls ! y) < 76"
proof -
  obtain row where row: "nat (cursor_x ed) \<le> length (ed_lines ed ! nat (cursor_y ed))" "length (ed_lines ed ! nat (cursor_y ed)) < 76"
    by (rule cursor_row [OF assms(1)])
  show "y < length ls" "x \<le> length (ls ! y)" "cursor_x ed = int x" "length ls \<le> 50" "length (ls ! y) < 76"
    using assms(2) ed_okD [OF assms(1)] length_ed_lines [OF assms(1)] row by (auto simp: ed_view_def)
qed

lemma typing:
  assumes "fs_ok s" and "ed_inv ed" and "ed_mode ed = MODE_INSERT" and "ed_view ed = (ls, y, x, m)"
    and "list_all plain ks" and "length (ls ! y) + length ks \<le> 75" and "ks \<noteq> []"
  shows "yields (press ks (s, ed)) (\<lambda>(s', ed'). s' = s \<and> ed_inv ed' \<and> ed_mode ed' = MODE_INSERT \<and>
    ed_view ed' = (ls[y := take x (ls ! y) @ map fst ks @ drop x (ls ! y)], y, x + length ks, True))"
  using assms
proof (induction ks arbitrary: ed ls x m)
  case (Cons k ks)
  obtain c sc where k: "k = (c, sc)" by (cases k)
  note b = ed_view_bounds [OF ed_inv_ok [OF Cons.prems(2)] Cons.prems(4)]
  have "sc \<notin> {0x01, 0x0E, 0x1C, 0x48, 0x50, 0x4B, 0x4D} \<or> (sc = 0x0E \<and> cursor_x ed > 0)"
    using Cons.prems(5) by (simp add: k plain_def)
  then obtain ed1 where e1: "editor_process_key c sc s ed = Some (s, ed1)" "ed_inv ed1" "ed_mode ed1 = MODE_INSERT"
    "ed_view ed1 = snd (spec_insert c sc (ed_view ed))"
    by (rule insert_step [OF Cons.prems(1-3)])
  let ?l = "take x (ls ! y) @ c # drop x (ls ! y)"
  have v1: "ed_view ed1 = (ls[y := ?l], y, Suc x, True)"
    using plain_step [of k ed ls y x m] Cons.prems(4-6) e1(4) by (simp add: k)
  have l: "ls[y := ?l] ! y = ?l" "take (Suc x) ?l = take x (ls ! y) @ [c]" "drop (Suc x) ?l = drop x (ls ! y)"
    using b by simp_all
  show ?case
  proof (cases "ks = []")
    case True
    then show ?thesis using e1 v1 by (simp add: k)
  next
    case False
    have "length (ls[y := ?l] ! y) + length ks \<le> 75" using Cons.prems(6) b unfolding l by simp
    from Cons.IH [OF Cons.prems(1) e1(2,3) v1 _ this False] Cons.prems(5) show ?thesis
      unfolding l using e1(1) by (simp add: k)
  qed
qed simp

lemma erasing:
  assumes "fs_ok s" and "ed_inv ed" and "ed_mode ed = MODE_INSERT"
    and "ed_view ed = (ls[y := a @ w @ b], y, length a + length w, True)" and "y < length ls"
  shows "yields (press (replicate (length w) (key, 0x0E)) (s, ed)) (\<lambda>(s', ed'). s' = s \<and> ed_inv ed' \<and>
    ed_mode ed' = MODE_INSERT \<and> ed_view ed' = (ls[y := a @ b], y, length a, True))"
  using assms
proof (induction w arbitrary: ed rule: rev_induct)
  case (snoc c w)
  have "cursor_x ed > 0" using ed_view_bounds(3) [OF ed_inv_ok [OF snoc.prems(2)] snoc.prems(4)] by simp
  then obtain ed1 where e1: "editor_process_key key 0x0E s ed = Some (s, ed1)" "ed_inv ed1" "ed_mode ed1 = MODE_INSERT"
    "ed_view ed1 = snd (spec_insert key 0x0E (ed_view ed))"
    using insert_step [OF snoc.prems(1-3), of "0x0E" key] by auto
  have "ed_view ed1 = (ls[y := a @ w @ b], y, length a + length w, True)"
    unfolding e1(4) snoc.prems(4) using snoc.prems(5) by (simp add: spec_insert_def)
  from snoc.IH [OF snoc.prems(1) e1(2,3) this snoc.prems(5)] e1(1) show ?case by simp
qed simp

section \<open>Properties\<close>

text \<open>A state in each mode.\<close>

definition demo_mode :: "editor_mode \<Rightarrow> string \<Rightarrow> editor_state" where
  "demo_mode mode cmd = (demo_editor ''/notes'' ''hi'')\<lparr>ed_mode := mode,
     command_buffer := cmd @ replicate (80 - length cmd) NUL, command_length := int (length cmd)\<rparr>"

lemma demo_mode:
  assumes "NUL \<notin> set cmd" "length cmd < 78"
  shows "ed_inv (demo_mode mode cmd)" and "cstr (command_buffer (demo_mode mode cmd)) = cmd"
    and "ed_lines (demo_mode mode cmd) = [''hi'']" "ed_view (demo_mode mode cmd) = ([''hi''], 0, 0, True)"
    and "ed_mode (demo_mode mode cmd) = mode" "ed_modified (demo_mode mode cmd)"
    and "cursor_x (demo_mode mode cmd) = 0" "cursor_y (demo_mode mode cmd) = 0"
proof -
  let ?d = "demo_editor ''/notes'' ''hi''" and ?c = "cmd @ replicate (80 - length cmd) NUL"
  have d: "ed_ok ?d" "ed_lines ?d = [''hi'']" "ed_modified ?d" "cursor_x ?d = 0" "cursor_y ?d = 0"
    by (simp_all add: demo_editor)
  have "?c = cmd @ NUL # replicate (79 - length cmd) NUL"
    using assms(2) by (simp add: Suc_diff_le flip: replicate_Suc)
  then have c: "terminated ?c" "cstr ?c = cmd" using assms(1) by (simp_all add: cstr_append)
  show cb: "cstr (command_buffer (demo_mode mode cmd)) = cmd" "ed_mode (demo_mode mode cmd) = mode"
    "ed_modified (demo_mode mode cmd)" "cursor_x (demo_mode mode cmd) = 0" "cursor_y (demo_mode mode cmd) = 0"
    using c d by (simp_all add: demo_mode_def)
  show ls: "ed_lines (demo_mode mode cmd) = [''hi'']" using d by (simp add: demo_mode_def ed_lines_def)
  then show "ed_view (demo_mode mode cmd) = ([''hi''], 0, 0, True)" using cb by (simp add: ed_view_def)
  have "ed_ok (demo_mode mode cmd)" using d(1) c assms by (simp add: demo_mode_def ed_ok_def)
  then show "ed_inv (demo_mode mode cmd)" using ls cb by (simp add: ed_inv_def) (simp add: demo_mode_def)
qed

text \<open>C7: \<open>editor_process_key\<close> follows the specification of the keys in every mode: mode, lines,
  cursor, \<open>modified\<close> and command line after a key are those of \<open>spec_key\<close>, the editor's
  invariant and the file system's are kept, only a save touches the file system, and a save clears
  \<open>modified\<close> only when the text is empty. The code is defined for every key except a Backspace
  that joins two lines into more than 75 characters; that one writes past the row.\<close>

theorem key_refines:
  assumes "fs_ok s" and "ed_inv ed"
  shows "if key_fits scancode ed
    then yields (editor_process_key key scancode s ed) (\<lambda>(s', ed'). fs_ok s' \<and> ed_inv ed' \<and>
      ed_filename ed' = ed_filename ed \<and> (\<not> saves scancode ed \<longrightarrow> s' = s) \<and>
      (\<exists>saved. (saved \<longrightarrow> join_lines (ed_lines ed) = []) \<and> ed_spec ed' = spec_key saved key scancode (ed_spec ed)))
    else editor_process_key key scancode s ed = None"
proof (cases "key_fits scancode ed")
  case True
  show ?thesis using yields_mono [OF process_key_refines [OF assms True, of key]] True by auto
next
  case False
  then show ?thesis using process_key_overflows [OF assms(2) False] by simp
qed

theorem key_refines_witness:
  "yields (editor_process_key (CHR ''x'') 0x2D demo_fs (demo_mode MODE_NORMAL [])) (\<lambda>(s', ed').
     s' = demo_fs \<and> ed_view ed' = ([''i''], 0, 0, True)) \<and>
   yields (editor_process_key (CHR ''X'') 0x2D demo_fs (demo_mode MODE_INSERT [])) (\<lambda>(s', ed').
     ed_view ed' = ([''Xhi''], 0, 1, True))"
proof -
  have n: "NUL \<notin> set []" "length ([] :: string) < 78" by simp_all
  note d = demo_mode [OF n]
  have f: "key_fits 0x2D (demo_mode m [])" for m by (simp add: key_fits_def)
  have sp: "ed_spec (demo_mode MODE_NORMAL []) = (MODE_NORMAL, ([''hi''], 0, 0, True), [])"
    "ed_spec (demo_mode MODE_INSERT []) = (MODE_INSERT, ([''hi''], 0, 0, True), [])"
    by (simp_all add: ed_spec_def d)
  have view: "ed_spec e = (m, v, c) \<Longrightarrow> ed_view e = v" for e m v c by (simp add: ed_spec_def)
  have "yields (editor_process_key (CHR ''x'') 0x2D demo_fs (demo_mode MODE_NORMAL [])) (\<lambda>(s', ed').
     s' = demo_fs \<and> ed_view ed' = ([''i''], 0, 0, True))"
    using key_refines [OF demo_fs_ok d(1) [of MODE_NORMAL], of "0x2D" "CHR ''x''"] f [of MODE_NORMAL]
    by (auto simp: sp spec_normal_def saves_def dest!: view elim!: yields_mono)
  moreover have "yields (editor_process_key (CHR ''X'') 0x2D demo_fs (demo_mode MODE_INSERT [])) (\<lambda>(s', ed').
     ed_view ed' = ([''Xhi''], 0, 1, True))"
    using key_refines [OF demo_fs_ok d(1) [of MODE_INSERT], of "0x2D" "CHR ''X''"] f [of MODE_INSERT]
    by (auto simp: sp spec_insert_def dest!: view elim!: yields_mono)
  ultimately show ?thesis by blast
qed

text \<open>C8: whatever keys are pressed, the editor's invariant holds in every state of a session: the
  text has 1 to 50 lines of at most 75 characters without newlines, the cursor is on the text, every
  string of the state is terminated, and the file system stays well-formed.\<close>

theorem session_inv:
  assumes "ed_reaches s0 ed0 s ed" and "fs_ok s0" and "ed_inv ed0"
  shows "fs_ok s \<and> ed_inv ed \<and> 1 \<le> length (ed_lines ed) \<and> length (ed_lines ed) \<le> 50 \<and>
    (\<forall>l \<in> set (ed_lines ed). length l \<le> 75 \<and> NL \<notin> set l \<and> NUL \<notin> set l) \<and>
    0 \<le> cursor_y ed \<and> cursor_y ed < int (length (ed_lines ed)) \<and>
    0 \<le> cursor_x ed \<and> cursor_x ed \<le> int (length (ed_lines ed ! nat (cursor_y ed)))"
proof -
  have inv: "fs_ok s" "ed_inv ed" using ed_reaches_inv [OF assms(1)] assms(2,3) by blast+
  have ok: "ed_ok ed" by (rule ed_inv_ok [OF inv(2)])
  note o = ed_okD [OF ok]
  have "ed_lines ed ! nat (cursor_y ed) = texts (ed_buffer ed) ! nat (cursor_y ed)"
    using o by (intro ed_lines_nth [OF ok]) simp
  then show ?thesis
    using inv o length_ed_lines [OF ok] ed_lines_short [OF ok] by (auto simp: ed_inv_def Suc_le_eq)
qed

theorem session_inv_witness:
  "\<exists>ed. ed_reaches demo_fs (demo_mode MODE_INSERT []) demo_fs ed \<and> ed_lines ed = [''Xhi''] \<and> cursor_x ed \<le> 3"
proof -
  have n: "NUL \<notin> set []" "length ([] :: string) < 78" by simp_all
  note d = demo_mode [OF n, of MODE_INSERT]
  obtain ed' where ed': "editor_process_key (CHR ''X'') 0x2D demo_fs (demo_mode MODE_INSERT []) = Some (demo_fs, ed')"
    "ed_view ed' = snd (spec_insert (CHR ''X'') 0x2D (ed_view (demo_mode MODE_INSERT [])))"
    using insert_step [OF demo_fs_ok d(1,5), of "0x2D" "CHR ''X''"] by auto
  have r: "ed_reaches demo_fs (demo_mode MODE_INSERT []) demo_fs ed'" by (rule ed_key [OF ed_start ed'(1)])
  have v: "ed_lines ed' = [''Xhi'']" "nat (cursor_y ed') = 0" using ed'(2) d(4) by (simp_all add: spec_insert_def ed_view_def)
  from session_inv [OF r demo_fs_ok d(1)] have "cursor_x ed' \<le> 3" by (simp add: v)
  with r v show ?thesis by blast
qed

text \<open>C24: typing plain characters in insert mode inserts them at the cursor, as long as the line
  with them has at most 75 characters, and as many Backspaces take them out again: line and cursor
  are as before. (On a full line further characters are dropped, and the Backspaces would delete old
  text; Enter, Escape, Backspace and the arrow keys are not plain.)\<close>

theorem type_then_erase:
  assumes "fs_ok s" and "ed_inv ed" and "ed_mode ed = MODE_INSERT" and "ed_view ed = (ls, y, x, m)"
    and "list_all plain ks" and "length (ls ! y) + length ks \<le> 75" and "ks \<noteq> []"
  shows "yields (press ks (s, ed)) (\<lambda>(s1, ed1). s1 = s \<and>
    ed_view ed1 = (ls[y := take x (ls ! y) @ map fst ks @ drop x (ls ! y)], y, x + length ks, True) \<and>
    yields (press (replicate (length ks) (NUL, 0x0E)) (s1, ed1)) (\<lambda>(s2, ed2). s2 = s \<and> ed_inv ed2 \<and>
      ed_mode ed2 = MODE_INSERT \<and> ed_view ed2 = (ls, y, x, True)))"
proof -
  note b = ed_view_bounds [OF ed_inv_ok [OF assms(2)] assms(4)]
  show ?thesis
  proof (rule yields_mono [OF typing [OF assms]], clarify, rule conjI [OF refl conjI])
    fix s1 ed1
    assume e: "ed_inv ed1" "ed_mode ed1 = MODE_INSERT"
      "ed_view ed1 = (ls[y := take x (ls ! y) @ map fst ks @ drop x (ls ! y)], y, x + length ks, True)"
    then have "ed_view ed1 = (ls[y := take x (ls ! y) @ map fst ks @ drop x (ls ! y)], y,
        length (take x (ls ! y)) + length (map fst ks), True)" using b by simp
    from erasing [OF assms(1) e(1,2) this b(1), of NUL] b
    show "yields (press (replicate (length ks) (NUL, 0x0E)) (s, ed1)) (\<lambda>(s2, ed2). s2 = s \<and> ed_inv ed2 \<and>
      ed_mode ed2 = MODE_INSERT \<and> ed_view ed2 = (ls, y, x, True))" by simp
  qed
qed

theorem type_then_erase_witness:
  "yields (press [(CHR ''o'', 0x18), (CHR ''h'', 0x23)] (demo_fs, demo_mode MODE_INSERT [])) (\<lambda>(s1, ed1).
     ed_view ed1 = ([''ohhi''], 0, 2, True) \<and>
     yields (press (replicate 2 (NUL, 0x0E)) (s1, ed1)) (\<lambda>(s2, ed2). ed_view ed2 = ([''hi''], 0, 0, True)))"
proof -
  have n: "NUL \<notin> set []" "length ([] :: string) < 78" by simp_all
  note d = demo_mode [OF n, of MODE_INSERT]
  have ks: "list_all plain [(CHR ''o'', 0x18), (CHR ''h'', 0x23)]" by (simp add: plain_def)
  from type_then_erase [OF demo_fs_ok d(1,5,4) ks] show ?thesis
    by (auto elim!: yields_mono simp: numeral_2_eq_2)
qed

text \<open>C25: while a modified text is not empty, the only way out of the editor is \<open>:q!\<close>: neither
  \<open>:wq\<close> nor \<open>:q\<close> after \<open>:w\<close> ever exits, because a successful save is taken for a failed one.\<close>

theorem quit_needs_force:
  assumes "fs_ok s" and "ed_inv ed" and "ed_mode ed \<noteq> MODE_EXIT" and "ed_modified ed"
    and "join_lines (ed_lines ed) \<noteq> []" and "editor_process_key key scancode s ed = Some (s', ed')"
  shows "ed_mode ed' = MODE_EXIT \<longleftrightarrow>
    ed_mode ed = MODE_COMMAND \<and> scancode = 0x1C \<and> cstr (command_buffer ed) = ''q!''"
proof -
  have "key_fits scancode ed" using process_key_overflows [OF assms(2)] assms(6) by (metis option.distinct(1))
  then obtain saved where "saved \<longrightarrow> join_lines (ed_lines ed) = []" "ed_spec ed' = spec_key saved key scancode (ed_spec ed)"
    using process_key_refines [OF assms(1,2), of scancode key] assms(6) by auto
  then have "ed_spec ed' = spec_key False key scancode (ed_spec ed)" using assms(5) by auto
  moreover have "ed_mode ed' = fst (ed_spec ed')" by (simp add: ed_spec_def)
  ultimately have m: "ed_mode ed' = fst (spec_key False key scancode (ed_spec ed))" by simp
  have saved: "is_modified (saved_view False (ed_view ed))" "is_modified (ed_view ed)"
    using assms(4) by (simp_all add: ed_view_def is_modified_def)
  show ?thesis
    by (cases "ed_mode ed") (use m saved assms(3) in \<open>auto simp: ed_spec_def spec_normal_def spec_insert_def
      spec_command_def spec_run_def Let_def split: if_splits\<close>)
qed

theorem quit_needs_force_witness:
  "yields (editor_process_key NUL 0x1C demo_fs (demo_mode MODE_COMMAND ''wq'')) (\<lambda>(s', ed'). ed_mode ed' \<noteq> MODE_EXIT) \<and>
   yields (editor_process_key NUL 0x1C demo_fs (demo_mode MODE_COMMAND ''q!'')) (\<lambda>(s', ed'). ed_mode ed' = MODE_EXIT)"
proof -
  have ex: "ed_mode e = MODE_EXIT \<longleftrightarrow> cmd = ''q!''"
    if "editor_process_key NUL 0x1C demo_fs (demo_mode MODE_COMMAND cmd) = Some (s', e)" "NUL \<notin> set cmd" "length cmd < 78"
    for cmd s' e
    using quit_needs_force [OF demo_fs_ok demo_mode(1) [OF that(2,3), of MODE_COMMAND] _ _ _ that(1)]
      demo_mode [OF that(2,3), of MODE_COMMAND] by (simp add: join_lines_def)
  have def: "yields (editor_process_key NUL 0x1C demo_fs (demo_mode MODE_COMMAND cmd)) (\<lambda>x. True)"
    if "NUL \<notin> set cmd" "length cmd < 78" for cmd
    using process_key_refines [OF demo_fs_ok demo_mode(1) [OF that, of MODE_COMMAND], of "0x1C" NUL]
    by (rule yields_mono) (simp_all add: key_fits_def)
  show ?thesis using def [of "''wq''"] def [of "''q!''"] ex [of "''wq''"] ex [of "''q!''"] by (auto simp: yields_iff)
qed

end
