(* ===== verification/Decimal.thy ===== *)
theory Decimal
  imports C_String
begin

text \<open>
  Decimal text of numbers: the loop of \<open>editor_draw\<close> that writes a line number right-aligned
  into four characters (\<open>src/kernel/editor.c\<close>) and the loops of \<open>stat\<close> that build the text
  of a size (\<open>src/kernel/kernel.c\<close>), both proved to give the usual decimal representation.
\<close>

section \<open>The representation\<close>

definition digit :: "nat \<Rightarrow> char" where \<comment> \<open>\<open>'0' + d\<close>\<close>
  "digit d = char_of (48 + d)"

fun decimal :: "nat \<Rightarrow> string" where
  "decimal n = (if n < 10 then [digit n] else decimal (n div 10) @ [digit (n mod 10)])"

declare decimal.simps [simp del]

definition decimal_value :: "string \<Rightarrow> nat" where
  "decimal_value ds = foldl (\<lambda>v c. 10 * v + (of_char c - 48)) 0 ds"

lemma digit_value: "d < 10 \<Longrightarrow> of_char (digit d) = 48 + d"
  by (simp add: digit_def of_char_of)

lemma digit_ne_NUL: "d < 10 \<Longrightarrow> digit d \<noteq> NUL"
  using digit_value [of d] by auto

lemma decimal_value_decimal: "decimal_value (decimal n) = n"
proof (induction n rule: decimal.induct)
  case (1 n)
  show ?case
  proof (cases "n < 10")
    case True
    then show ?thesis using digit_value [of n] by (simp add: decimal.simps [of n] decimal_value_def)
  next
    case False
    then have "decimal_value (decimal n) = 10 * (n div 10) + (of_char (digit (n mod 10)) - 48)"
      using 1 by (simp add: decimal.simps [of n] decimal_value_def)
    also have "of_char (digit (n mod 10)) = 48 + n mod 10" by (intro digit_value) simp
    finally show ?thesis by simp
  qed
qed

lemma decimal_chars: "set (decimal n) \<subseteq> digit ` {..<10}"
  by (induction n rule: decimal.induct) (subst decimal.simps, auto)

lemma decimal_nonempty [simp]: "decimal n \<noteq> []"
  by (subst decimal.simps) simp

lemma NUL_decimal: "NUL \<notin> set (decimal n)"
  using decimal_chars [of n] digit_ne_NUL by force

lemma length_decimal: "n < 10 ^ k \<Longrightarrow> 0 < k \<Longrightarrow> length (decimal n) \<le> k"
proof (induction n arbitrary: k rule: decimal.induct)
  case (1 n)
  show ?case
  proof (cases "n < 10")
    case True
    then show ?thesis using 1(3) by (simp add: decimal.simps [of n])
  next
    case False
    then obtain j where j: "k = Suc j" "0 < j" using 1(2,3) by (cases k; cases "k - 1") auto
    have "n div 10 < 10 ^ j" using 1(2) j by (simp add: less_mult_imp_div_less mult.commute)
    then show ?thesis using 1(1) [OF False _ j(2)] False j by (simp add: decimal.simps [of n])
  qed
qed

section \<open>Line numbers\<close>

text \<open>\<open>while (num > 0 && i >= 0) { num_str[i] = '0' + (num % 10); num /= 10; i--; }\<close>; the
  division truncates, which for a positive \<open>num\<close> is \<open>div\<close>.\<close>

function number_loop :: "int \<Rightarrow> int \<Rightarrow> char list \<Rightarrow> char list option" where
  "number_loop num i num_str =
     (if num > 0 \<and> i \<ge> 0 then do {
        num_str \<leftarrow> int_set num_str i (digit (nat (num mod 10)));
        number_loop (num div 10) (i - 1) num_str }
      else Some num_str)"
  by pat_completeness auto
termination by (relation "measure (\<lambda>(num, i, s). nat (i + 1))") auto

declare number_loop.simps [simp del]

text \<open>\<open>char num_str[5]\<close>: the loop before writes all five characters.\<close>

definition number_string :: "int \<Rightarrow> char list option" where
  "number_string num = do {
     num_str \<leftarrow> arr_set (replicate 5 NUL) 4 NUL;
     num_str \<leftarrow> ofold (\<lambda>j num_str. arr_set num_str j (CHR '' '')) [0..<4] num_str;
     number_loop num 3 num_str }"

definition padded :: "nat \<Rightarrow> string" where
  "padded n = replicate (4 - length (decimal n)) (CHR '' '') @ decimal n"

lemma number_loop_eq:
  assumes "0 < n" and "length (decimal n) \<le> Suc i" and "i < length s"
  shows "number_loop (int n) (int i) s = Some (take (Suc i - length (decimal n)) s @ decimal n @ drop (Suc i) s)"
  using assms
proof (induction n arbitrary: i s rule: decimal.induct)
  case (1 n)
  let ?s = "s[i := digit (n mod 10)]"
  have step: "number_loop (int n) (int i) s = number_loop (int (n div 10)) (int i - 1) ?s"
    using 1(2,4) by (subst number_loop.simps) (simp add: nat_mod_distrib zdiv_int)
  have split: "drop i ?s = digit (n mod 10) # drop (Suc i) s" "take i ?s = take i s"
    using 1(4) by (simp_all add: upd_conv_take_nth_drop)
  show ?case
  proof (cases "n < 10")
    case True
    then have "number_loop (int n) (int i) s = Some ?s" unfolding step by (subst number_loop.simps) simp
    moreover have "?s = take i s @ digit n # drop (Suc i) s" using split True 1(4) by (simp add: upd_conv_take_nth_drop)
    ultimately show ?thesis using True by (simp add: decimal.simps [of n])
  next
    case False
    then obtain j where j: "i = Suc j" using 1(3) by (cases i) (auto simp: decimal.simps [of n])
    have "number_loop (int (n div 10)) (int j) ?s =
      Some (take (Suc j - length (decimal (n div 10))) ?s @ decimal (n div 10) @ drop (Suc j) ?s)"
      by (rule 1(1)) (use False 1(3,4) j in \<open>simp_all add: decimal.simps [of n]\<close>)
    moreover have "take (Suc j - length (decimal (n div 10))) ?s = take (Suc j - length (decimal (n div 10))) s"
      by (simp add: j list_update_beyond take_update_swap)
    ultimately show ?thesis using False split(1) j unfolding step by (simp add: decimal.simps [of n])
  qed
qed

lemma number_string_eq:
  assumes "0 < n" and "n < 10000"
  shows "number_string (int n) = Some (padded n @ [NUL])"
proof -
  have len: "length (decimal n) \<le> 4" using length_decimal [of n 4] assms(2) by simp
  let ?s = "replicate 4 (CHR '' '') @ [NUL]"
  have "ofold (\<lambda>j num_str. arr_set num_str j (CHR '' '')) [0..<4] (replicate 5 NUL) = Some ?s"
    by (simp add: upt_rec numeral_eq_Suc)
  moreover have "arr_set (replicate 5 NUL) 4 NUL = Some (replicate 5 NUL)"
    by (simp add: numeral_eq_Suc)
  ultimately have "number_string (int n) = number_loop (int n) (int 3) ?s" by (simp add: number_string_def)
  moreover have "take (4 - length (decimal n)) ?s = replicate (4 - length (decimal n)) (CHR '' '')" by simp
  moreover have "Suc 3 = 4" by simp
  ultimately show ?thesis using number_loop_eq [OF assms(1), of 3 ?s] len by (simp add: padded_def)
qed

section \<open>Sizes\<close>

text \<open>\<open>while (size > 0) { temp[j++] = '0' + (size % 10); size /= 10; }\<close> and
  \<open>while (j > 0) { size_str[i++] = temp[--j]; }\<close>\<close>

fun size_digits :: "nat \<Rightarrow> nat \<Rightarrow> char list \<Rightarrow> (nat \<times> char list) option" where
  "size_digits n j temp =
     (if n > 0 then do {
        temp \<leftarrow> arr_set temp j (digit (n mod 10));
        size_digits (n div 10) (j + 1) temp }
      else Some (j, temp))"

declare size_digits.simps [simp del]

primrec copy_back :: "nat \<Rightarrow> nat \<Rightarrow> char list \<Rightarrow> char list \<Rightarrow> (nat \<times> char list) option" where
  "copy_back 0 i temp out = Some (i, out)"
| "copy_back (Suc j) i temp out = do {
     c \<leftarrow> arr_get temp j;
     out \<leftarrow> arr_set out i c;
     copy_back j (i + 1) temp out }"

definition number_text :: "nat \<Rightarrow> char list option" where
  "number_text n = do {
     (i, size_str) \<leftarrow> (if n = 0 then do { s \<leftarrow> arr_set (replicate 32 NUL) 0 (digit 0); Some (1, s) }
       else do { (j, temp) \<leftarrow> size_digits n 0 (replicate 32 NUL); copy_back j 0 temp (replicate 32 NUL) });
     arr_set size_str i NUL }"

lemma size_digits_eq:
  assumes "0 < n" and "j + length (decimal n) \<le> length temp"
  shows "size_digits n j temp = Some (j + length (decimal n), take j temp @ rev (decimal n) @ drop (j + length (decimal n)) temp)"
  using assms
proof (induction n arbitrary: j temp rule: decimal.induct)
  case (1 n)
  have j: "j < length temp" using 1(3) decimal_nonempty [of n] by (cases "decimal n") auto
  let ?t = "temp[j := digit (n mod 10)]"
  have step: "size_digits n j temp = size_digits (n div 10) (Suc j) ?t"
    using 1(2) j by (subst size_digits.simps) simp
  have tk: "take (Suc j) ?t = take j temp @ [digit (n mod 10)]" using j by (simp add: take_Suc_conv_app_nth)
  show ?case
  proof (cases "n < 10")
    case True
    then have "size_digits n j temp = Some (Suc j, ?t)" unfolding step by (subst size_digits.simps) simp
    then show ?thesis using True j by (simp add: decimal.simps [of n] upd_conv_take_nth_drop)
  next
    case False
    then have "size_digits (n div 10) (Suc j) ?t = Some (Suc j + length (decimal (n div 10)),
        take (Suc j) ?t @ rev (decimal (n div 10)) @ drop (Suc j + length (decimal (n div 10))) ?t)"
      using 1(3) by (intro 1(1)) (simp_all add: decimal.simps [of n])
    then show ?thesis using False unfolding step tk by (simp add: decimal.simps [of n])
  qed
qed

lemma copy_back_eq:
  assumes "j \<le> length temp" and "i + j \<le> length out"
  shows "copy_back j i temp out = Some (i + j, take i out @ rev (take j temp) @ drop (i + j) out)"
  using assms
proof (induction j arbitrary: i out)
  case (Suc j)
  then show ?case using Suc.IH [of "Suc i" "out[i := temp ! j]"]
    by (simp add: take_Suc_conv_app_nth)
qed simp

text \<open>A 32-bit size has at most ten digits, so the local arrays are long enough.\<close>

lemma number_text_eq:
  assumes "n < 10 ^ 31"
  shows "yields (number_text n) (\<lambda>x. terminated x \<and> cstr x = decimal n)"
proof -
  have len: "length (decimal n) \<le> 31" using length_decimal [OF assms] by simp
  have "\<exists>r. (if n = 0 then do { s \<leftarrow> arr_set (replicate 32 NUL) 0 (digit 0); Some (1, s) }
       else do { (j, temp) \<leftarrow> size_digits n 0 (replicate 32 NUL); copy_back j 0 temp (replicate 32 NUL) }) =
       Some (length (decimal n), decimal n @ r) \<and> r \<noteq> []"
  proof (cases "n = 0")
    case True
    have "replicate 32 NUL = NUL # replicate 31 NUL" by (simp flip: replicate_Suc)
    then show ?thesis using True by (simp add: decimal.simps [of 0])
  next
    case False
    have "size_digits n 0 (replicate 32 NUL) = Some (length (decimal n), rev (decimal n) @ replicate (32 - length (decimal n)) NUL)"
      using size_digits_eq [of n 0 "replicate 32 NUL"] False len by simp
    moreover have "copy_back (length (decimal n)) 0 (rev (decimal n) @ replicate (32 - length (decimal n)) NUL) (replicate 32 NUL) =
      Some (length (decimal n), decimal n @ replicate (32 - length (decimal n)) NUL)"
      using len by (subst copy_back_eq) simp_all
    ultimately show ?thesis using False len by simp
  qed
  then obtain r z where "number_text n = arr_set (decimal n @ z # r) (length (decimal n)) NUL"
    unfolding number_text_def by (auto simp: neq_Nil_conv)
  then show ?thesis using NUL_decimal [of n] by (simp add: cstr_append)
qed

text \<open>C37: the digits that \<open>stat\<close> prints for a 32-bit size are a string of at most ten characters
  that reads back as the size; neither of the two 32-byte arrays is overrun.\<close>

theorem number_text_roundtrip:
  fixes n :: "32 word"
  shows "yields (number_text (unat n)) (\<lambda>x. terminated x \<and> length (cstr x) \<le> 10 \<and> decimal_value (cstr x) = unat n)"
proof -
  have n: "unat n < 10 ^ 10" by (rule less_trans [OF unsigned_less]) simp
  have "yields (number_text (unat n)) (\<lambda>x. terminated x \<and> cstr x = decimal (unat n))"
    by (rule number_text_eq) (use n in simp)
  then show ?thesis using length_decimal [OF n] decimal_value_decimal [of "unat n"] by (elim yields_mono) simp
qed

end
