(* ===== verification/Editor_Draw.thy ===== *)
theory Editor_Draw
  imports Editor_Keys Decimal
begin

text \<open>
  Drawing the editor (\<open>editor_draw\<close> of \<open>src/kernel/editor.c\<close>) on the terminal. What it does is
  specified as a display list: texts painted one after the other at a row and a column. The
  drawing never leaves the VGA memory and produces exactly the paintings of the list.
\<close>

section \<open>The code\<close>

text \<open>The loops \<open>for (i = 0; i < n; i++) terminal_putentryat(row[i], color, x + i, y)\<close>.\<close>

definition draw_text :: "char list \<Rightarrow> nat \<Rightarrow> 8 word \<Rightarrow> nat \<Rightarrow> nat \<Rightarrow> terminal \<Rightarrow> terminal option" where
  "draw_text row n color x y =
     ofold (\<lambda>i t. do { c \<leftarrow> arr_get row i; terminal_putentryat c color (of_nat (x + i)) (of_nat y) t }) [0..<n]"

definition gray :: "8 word" where "gray = vga_entry_color VGA_COLOR_DARK_GREY VGA_COLOR_BLACK"
definition white :: "8 word" where "white = vga_entry_color VGA_COLOR_WHITE VGA_COLOR_BLACK"
definition inverse_white :: "8 word" where "inverse_white = vga_entry_color VGA_COLOR_BLACK VGA_COLOR_WHITE"

definition draw_line :: "editor_state \<Rightarrow> nat \<Rightarrow> terminal \<Rightarrow> terminal option" where
  "draw_line ed y t = do {
     let line_num = int y + view_start_line ed;
     let t = terminal_setcolor gray t;
     num_str \<leftarrow> number_string (line_num + 1);
     t \<leftarrow> draw_text num_str 4 gray 0 y t;
     let t = terminal_setcolor white t;
     line_text \<leftarrow> int_get (ed_buffer ed) line_num;
     len \<leftarrow> strlen line_text;
     draw_text line_text (min len 75) white 5 y t }"

text \<open>\<open>editor->filename[0] ? editor->filename : "[No Name]"\<close>, and the local \<open>char status[80]\<close>.\<close>

definition title_source :: "editor_state \<Rightarrow> char list option" where
  "title_source ed = do {
     c \<leftarrow> arr_get (ed_filename ed) 0;
     Some (if c \<noteq> NUL then ed_filename ed else lit ''[No Name]'') }"

definition status_text :: "editor_state \<Rightarrow> char list option" where
  "status_text ed = do {
     let status = replicate 80 NUL;
     title \<leftarrow> title_source ed;
     if ed_modified ed then do {
       status \<leftarrow> arr_set status 0 (CHR ''['');
       status \<leftarrow> arr_set status 1 (CHR ''+'');
       status \<leftarrow> arr_set status 2 (CHR '']'');
       status \<leftarrow> arr_set status 3 (CHR '' '');
       tail \<leftarrow> strcpy (drop 4 status) title;
       Some (take 4 status @ tail) }
     else strcpy status title }"

definition mode_text :: "editor_state \<Rightarrow> string" where
  "mode_text ed = (if ed_mode ed = MODE_INSERT then ''-- INSERT --''
     else if ed_mode ed = MODE_COMMAND then '':'' else ''-- NORMAL --'')"

definition draw_status :: "editor_state \<Rightarrow> terminal \<Rightarrow> terminal option" where
  "draw_status ed t = do {
     let t = terminal_setcolor inverse_white t;
     t \<leftarrow> ofold (\<lambda>x. terminal_putentryat (CHR '' '') inverse_white (of_nat x) 23) [0..<80] t;
     status \<leftarrow> status_text ed;
     len \<leftarrow> strlen status;
     t \<leftarrow> draw_text status len inverse_white 0 23 t;
     let mode_str = lit (mode_text ed);
     mode_len \<leftarrow> strlen mode_str;
     draw_text mode_str mode_len inverse_white (80 - mode_len) 23 t }"

definition draw_command :: "editor_state \<Rightarrow> terminal \<Rightarrow> terminal option" where
  "draw_command ed t =
     (if ed_mode ed = MODE_COMMAND then do {
        t \<leftarrow> terminal_putentryat (CHR '':'') white 0 24 t;
        t \<leftarrow> draw_text (command_buffer ed) (nat (command_length ed)) white 1 24 t;
        terminal_putentryat (CHR ''_'') white (word_of_int (command_length ed + 1)) 24 t }
      else do {
        len \<leftarrow> strlen (status_message ed);
        draw_text (status_message ed) len white 0 24 t })"

definition draw_cursor :: "editor_state \<Rightarrow> terminal \<Rightarrow> terminal option" where
  "draw_cursor ed t =
     (if ed_mode ed \<noteq> MODE_COMMAND then
        let screen_y = cursor_y ed - view_start_line ed in
        if screen_y \<ge> 0 \<and> screen_y < 23 then
          terminal_putentryat (CHR ''_'') white (word_of_int (cursor_x ed + 5)) (word_of_int screen_y) t
        else Some t
      else Some t)"

definition editor_draw :: "editor_state \<Rightarrow> terminal \<Rightarrow> terminal option" where
  "editor_draw ed t = do {
     t \<leftarrow> terminal_clear t;
     t \<leftarrow> ofold (\<lambda>y t. if int y + view_start_line ed < line_count ed then draw_line ed y t else Some t) [0..<23] t;
     t \<leftarrow> draw_status ed t;
     t \<leftarrow> draw_command ed t;
     draw_cursor ed t }"

section \<open>The display list\<close>

text \<open>A text painted at a row and a column in a color.\<close>

type_synonym painting = "nat \<times> nat \<times> 8 word \<times> string"

fun paint :: "painting \<Rightarrow> 16 word list \<Rightarrow> 16 word list" where
  "paint (y, x, color, s) b = take (80 * y + x) b @ map (\<lambda>c. vga_entry (uchar c) color) s @ drop (80 * y + x + length s) b"

definition line_paintings :: "editor_state \<Rightarrow> nat \<Rightarrow> painting list" where
  "line_paintings ed y = (let n = nat (view_start_line ed) + y in
     [(y, 0, gray, padded (n + 1)), (y, 5, white, ed_lines ed ! n)])"

definition shown_lines :: "editor_state \<Rightarrow> nat" where
  "shown_lines ed = min 23 (length (ed_lines ed) - nat (view_start_line ed))"

definition title :: "editor_state \<Rightarrow> string" where
  "title ed = (if ed_modified ed then ''[+] '' else []) @
     (if cstr (ed_filename ed) = [] then ''[No Name]'' else cstr (ed_filename ed))"

definition status_paintings :: "editor_state \<Rightarrow> painting list" where
  "status_paintings ed = [(23, 0, inverse_white, replicate 80 (CHR '' '')), (23, 0, inverse_white, title ed),
     (23, 80 - length (mode_text ed), inverse_white, mode_text ed)]"

definition command_paintings :: "editor_state \<Rightarrow> painting list" where
  "command_paintings ed = (if ed_mode ed = MODE_COMMAND
     then [(24, 0, white, '':''), (24, 1, white, cstr (command_buffer ed)),
       (24, Suc (length (cstr (command_buffer ed))), white, ''_'')]
     else [(24, 0, white, cstr (status_message ed))])"

definition cursor_paintings :: "editor_state \<Rightarrow> painting list" where
  "cursor_paintings ed = (let y = cursor_y ed - view_start_line ed in
     if ed_mode ed \<noteq> MODE_COMMAND \<and> 0 \<le> y \<and> y < 23
     then [(nat y, nat (cursor_x ed) + 5, white, ''_'')] else [])"

definition display_list :: "editor_state \<Rightarrow> painting list" where
  "display_list ed = concat (map (line_paintings ed) [0..<shown_lines ed]) @ status_paintings ed @
     command_paintings ed @ cursor_paintings ed"

lemma length_paint:
  "80 * y + x + length s \<le> length b \<Longrightarrow> length (paint (y, x, color, s) b) = length b"
  by simp

lemma nth_paint:
  assumes "80 * y + x + length s \<le> length b" and "k < length b"
  shows "paint (y, x, color, s) b ! k =
    (if 80 * y + x \<le> k \<and> k < 80 * y + x + length s then vga_entry (uchar (s ! (k - (80 * y + x)))) color else b ! k)"
  using assms by (auto simp: nth_append)

section \<open>The code paints the display list\<close>

lemma put_at:
  assumes "80 * y + x < 2000" and "length (terminal_buffer t) = 2000"
  shows "terminal_putentryat c color (of_nat x) (of_nat y) t =
    Some (t\<lparr>terminal_buffer := (terminal_buffer t)[80 * y + x := vga_entry (uchar c) color]\<rparr>)"
proof -
  have "of_nat y * VGA_WIDTH + of_nat x = (of_nat (80 * y + x) :: 32 word)" by (simp add: VGA_WIDTH_def)
  moreover have "unat (of_nat (80 * y + x) :: 32 word) = 80 * y + x"
    using assms(1) by (subst unat_of_nat) simp
  ultimately show ?thesis using assms by (simp add: terminal_putentryat_def put_cell_def)
qed

lemma paint_one: "80 * y + x < length b \<Longrightarrow> b[80 * y + x := vga_entry (uchar c) color] = paint (y, x, color, [c]) b"
  by (simp add: upd_conv_take_nth_drop)

lemma put_paint:
  assumes "80 * y + x < 2000" and "length (terminal_buffer t) = 2000"
  shows "terminal_putentryat c color (of_nat x) (of_nat y) t = Some (t\<lparr>terminal_buffer := paint (y, x, color, [c]) (terminal_buffer t)\<rparr>)"
  unfolding put_at [OF assms] using assms by (subst paint_one) simp_all

text \<open>Painting character by character.\<close>

lemma paint_snoc:
  assumes "80 * y + x + length s < length b"
  shows "(paint (y, x, color, s) b)[80 * y + x + length s := vga_entry (uchar c) color] = paint (y, x, color, s @ [c]) b"
  using assms overwrite_next [of "80 * y + x + length s" b "take (80 * y + x) b @ map (\<lambda>c. vga_entry (uchar c) color) s" "vga_entry (uchar c) color"]
  by simp

lemma putting_string:
  assumes len: "length (terminal_buffer t) = 2000" and fits: "80 * y + x + length s \<le> 2000"
    and get: "\<And>i. i < length s \<Longrightarrow> f i = Some (s ! i)"
  shows "ofold (\<lambda>i t. do { c \<leftarrow> f i; terminal_putentryat c color (of_nat (x + i)) (of_nat y) t }) [0..<length s] t =
    Some (t\<lparr>terminal_buffer := paint (y, x, color, s) (terminal_buffer t)\<rparr>)"
proof -
  let ?b = "terminal_buffer t"
  have "ofold (\<lambda>i t. do { c \<leftarrow> f i; terminal_putentryat c color (of_nat (x + i)) (of_nat y) t }) [0..<length s] t =
    Some (t\<lparr>terminal_buffer := paint (y, x, color, take (length s) s) ?b\<rparr>)"
  proof (rule ofold_upt_eq [where g = "\<lambda>i. t\<lparr>terminal_buffer := paint (y, x, color, take i s) ?b\<rparr>"])
    fix i assume i: "0 \<le> i" "i < length s"
    have fit: "80 * y + (x + i) < 2000" using fits i by simp
    have l: "length (terminal_buffer (t\<lparr>terminal_buffer := paint (y, x, color, take i s) ?b\<rparr>)) = 2000"
      using len fit i by simp
    have "paint (y, x, color, take (Suc i) s) ?b = (paint (y, x, color, take i s) ?b)[80 * y + (x + i) := vga_entry (uchar (s ! i)) color]"
      using paint_snoc [of y x "take i s" ?b color "s ! i"] i len fit
      by (simp add: take_Suc_conv_app_nth min_def add.assoc del: paint.simps)
    then show "do { c \<leftarrow> f i; terminal_putentryat c color (of_nat (x + i)) (of_nat y) (t\<lparr>terminal_buffer := paint (y, x, color, take i s) ?b\<rparr>) } =
        Some (t\<lparr>terminal_buffer := paint (y, x, color, take (Suc i) s) ?b\<rparr>)"
      using get [OF i(2)] put_at [OF fit l] by (simp del: paint.simps of_nat_add)
  qed (simp_all)
  then show ?thesis by (simp del: paint.simps)
qed

lemma draw_text_eq:
  assumes "length (terminal_buffer t) = 2000" and "80 * y + x + n \<le> 2000" and "n \<le> length row"
  shows "draw_text row n color x y t = Some (t\<lparr>terminal_buffer := paint (y, x, color, take n row) (terminal_buffer t)\<rparr>)"
proof -
  have l: "length (take n row) = n" using assms(3) by simp
  show ?thesis
    using putting_string [of t y x "take n row" "arr_get row" color, unfolded l] assms
    by (simp add: draw_text_def del: paint.simps of_nat_add)
qed

lemma draw_cstr:
  assumes "length (terminal_buffer t) = 2000" and "80 * y + x + length (cstr row) \<le> 2000" and "terminated row"
  shows "draw_text row (length (cstr row)) color x y t =
    Some (t\<lparr>terminal_buffer := paint (y, x, color, cstr row) (terminal_buffer t)\<rparr>)"
proof -
  have "take (length (cstr row)) row = cstr row" by (metis append_eq_conv_conj assms(3) terminatedE)
  then show ?thesis using draw_text_eq [OF assms(1,2) length_cstr_le] by simp
qed

lemma setcolor_buffer: "terminal_setcolor c t = t\<lparr>terminal_color := c\<rparr>"
  by (simp add: terminal_setcolor_def)

lemma length_fold_paint:
  "\<forall>(y, x, c, s) \<in> set ps. 80 * y + x + length s \<le> 2000 \<Longrightarrow> length b = 2000 \<Longrightarrow> length (fold paint ps b) = 2000"
  by (induction ps arbitrary: b) (auto simp: length_paint simp del: paint.simps)

lemma length_padded: "n < 10000 \<Longrightarrow> length (padded n) = 4"
  using length_decimal [of n 4] by (simp add: padded_def)

lemma draw_line_eq:
  assumes ok: "ed_ok ed" and y: "y < 23" "int y + view_start_line ed < line_count ed"
    and t: "length (terminal_buffer t) = 2000"
  shows "draw_line ed y t = Some (t\<lparr>terminal_color := white, terminal_buffer := fold paint (line_paintings ed y) (terminal_buffer t)\<rparr>)"
proof -
  note o = ed_okD [OF ok]
  have v: "0 \<le> view_start_line ed" using ok by (simp add: ed_ok_def)
  define n where "n = nat (view_start_line ed) + y"
  have n: "int y + view_start_line ed = int n" "n < nat (line_count ed)" "n < 50" using v y o by (auto simp: n_def)
  note r = rows_okD [OF o(1) n(3)]
  have row: "int_get (ed_buffer ed) (int n) = Some (ed_buffer ed ! n)" using get_row_eq [OF o(1), of "int n"] n by simp
  have ls: "ed_lines ed ! n = cstr (ed_buffer ed ! n)" using ed_lines_nth [OF ok n(2)] r(3) by simp
  have len: "length (cstr (ed_buffer ed ! n)) < 76" using r(3,4) by simp
  have num: "number_string (int n + 1) = Some (padded (n + 1) @ [NUL])"
    using number_string_eq [of "n + 1"] n(3) by (simp add: add.commute)
  have pad: "length (padded (n + 1)) = 4" using length_padded [of "n + 1"] n(3) by simp
  let ?t1 = "t\<lparr>terminal_color := gray\<rparr>" and ?b = "terminal_buffer t"
  let ?b1 = "paint (y, 0, gray, padded (n + 1)) ?b"
  have d1: "draw_text (padded (n + 1) @ [NUL]) 4 gray 0 y ?t1 = Some (?t1\<lparr>terminal_buffer := ?b1\<rparr>)"
    using draw_text_eq [of ?t1 y 0 4 "padded (n + 1) @ [NUL]" gray] t y(1) pad by (simp del: paint.simps)
  have l1: "length ?b1 = 2000" using length_paint [of y 0 "padded (n + 1)" ?b] t y(1) pad by simp
  let ?t2 = "?t1\<lparr>terminal_buffer := ?b1\<rparr>\<lparr>terminal_color := white\<rparr>"
  have d2: "draw_text (ed_buffer ed ! n) (length (cstr (ed_buffer ed ! n))) white 5 y ?t2 =
      Some (?t2\<lparr>terminal_buffer := paint (y, 5, white, cstr (ed_buffer ed ! n)) ?b1\<rparr>)"
    using draw_cstr [of ?t2 y 5 "ed_buffer ed ! n" white] l1 y(1) r(2) len by (simp del: paint.simps)
  have mn: "min (length (cstr (ed_buffer ed ! n))) 75 = length (cstr (ed_buffer ed ! n))" using len by simp
  have eq: "?t2\<lparr>terminal_buffer := paint (y, 5, white, cstr (ed_buffer ed ! n)) ?b1\<rparr> =
    t\<lparr>terminal_color := white, terminal_buffer := fold paint (line_paintings ed y) ?b\<rparr>"
    by (simp add: line_paintings_def Let_def ls n_def [symmetric] del: paint.simps)
  show ?thesis
    unfolding draw_line_def Let_def n(1) num row setcolor_buffer bind.bind_lunit d1 strlen_eq mn
    using r(2) d2 by (simp only: if_True bind.bind_lunit mn eq)
qed

lemma draw_lines_eq:
  assumes ok: "ed_ok ed" and t: "length (terminal_buffer t) = 2000"
    and "n \<le> 23" and "shown = min n (length (ed_lines ed) - nat (view_start_line ed))"
  shows "ofold (\<lambda>y t. if int y + view_start_line ed < line_count ed then draw_line ed y t else Some t) [0..<n] t =
     Some (t\<lparr>terminal_color := (if shown = 0 then terminal_color t else white),
       terminal_buffer := fold paint (concat (map (line_paintings ed) [0..<shown])) (terminal_buffer t)\<rparr>)"
  using assms(3,4)
proof (induction n arbitrary: shown)
  case 0
  then show ?case by simp
next
  case (Suc n)
  note o = ed_okD [OF ok]
  have v: "0 \<le> view_start_line ed" using ok by (simp add: ed_ok_def)
  let ?m = "length (ed_lines ed) - nat (view_start_line ed)"
  let ?b = "\<lambda>k. fold paint (concat (map (line_paintings ed) [0..<k])) (terminal_buffer t)"
  have paintings: "\<forall>(y, x, c, s) \<in> set (concat (map (line_paintings ed) [0..<k])). 80 * y + x + length s \<le> 2000"
    if "k \<le> 23" "k \<le> ?m" for k
  proof -
    have "length (padded (Suc (nat (view_start_line ed) + y))) = 4" "length (ed_lines ed ! (nat (view_start_line ed) + y)) \<le> 75"
      if "y < k" for y
      using that \<open>k \<le> ?m\<close> length_ed_lines [OF ok] o by (auto intro!: length_padded ed_lines_short(1) [OF ok])
    then show ?thesis using that by (fastforce simp: line_paintings_def Let_def)
  qed
  have IH: "ofold (\<lambda>y t. if int y + view_start_line ed < line_count ed then draw_line ed y t else Some t) [0..<n] t =
     Some (t\<lparr>terminal_color := (if min n ?m = 0 then terminal_color t else white), terminal_buffer := ?b (min n ?m)\<rparr>)"
    by (rule Suc.IH) (use Suc.prems in simp_all)
  have guard: "int n + view_start_line ed < line_count ed \<longleftrightarrow> n < ?m" using length_ed_lines [OF ok] v by auto
  show ?case
  proof (cases "n < ?m")
    case True
    then have k: "min n ?m = n" "shown = Suc n" using Suc.prems by simp_all
    have "length (?b n) = 2000" using length_fold_paint [OF paintings t] True Suc.prems by simp
    then have "draw_line ed n (t\<lparr>terminal_color := c, terminal_buffer := ?b n\<rparr>) =
        Some (t\<lparr>terminal_color := white, terminal_buffer := fold paint (line_paintings ed n) (?b n)\<rparr>)" for c
      using draw_line_eq [OF ok, of n "t\<lparr>terminal_color := c, terminal_buffer := ?b n\<rparr>"] guard True Suc.prems by simp
    then show ?thesis using IH guard True k by (simp add: ofold_append del: paint.simps)
  next
    case False
    then have "min n ?m = ?m" "shown = ?m" using Suc.prems by simp_all
    then show ?thesis using IH guard False by (simp add: ofold_append del: paint.simps)
  qed
qed

text \<open>The title line.\<close>

lemma title_source_eq:
  assumes "ed_ok ed"
  shows "yields (title_source ed) (\<lambda>x. terminated x \<and> cstr x = (if cstr (ed_filename ed) = [] then ''[No Name]'' else cstr (ed_filename ed)) \<and>
    length (cstr x) < 64)"
proof -
  have f: "length (ed_filename ed) = 64" "terminated (ed_filename ed)" using assms by (simp_all add: ed_ok_def MAX_FILENAME_LENGTH_def)
  then obtain c r where "ed_filename ed = c # r" by (cases "ed_filename ed") auto
  then show ?thesis using f length_cstr_less [OF f(2)]
    by (auto simp: title_source_def cstr_Cons cstr_lit)
qed

lemma status_text_eq:
  assumes "ed_ok ed"
  shows "yields (status_text ed) (\<lambda>x. terminated x \<and> cstr x = title ed \<and> length (title ed) < 68)"
proof -
  obtain x where x: "title_source ed = Some x" "terminated x" "length (cstr x) < 64"
    "cstr x = (if cstr (ed_filename ed) = [] then ''[No Name]'' else cstr (ed_filename ed))"
    using title_source_eq [OF assms] by (rule yieldsE) blast
  show ?thesis
  proof (cases "ed_modified ed")
    case False
    then have "title ed = cstr x" using x(4) by (simp add: title_def)
    then show ?thesis using strcpy_fits [OF x(2), of "replicate 80 NUL"] x(1,3) False
      by (auto simp: status_text_def elim!: yields_mono)
  next
    case True
    then have ti: "title ed = ''[+] '' @ cstr x" using x(4) by (simp add: title_def)
    have st: "do { status \<leftarrow> arr_set (replicate 80 NUL) 0 (CHR ''['');
       status \<leftarrow> arr_set status 1 (CHR ''+'');
       status \<leftarrow> arr_set status 2 (CHR '']'');
       arr_set status 3 (CHR '' '') } = Some (''[+] '' @ replicate 76 NUL)"
      by (simp add: numeral_eq_Suc)
    obtain d where d: "strcpy (replicate 76 NUL) x = Some d" "terminated d" "cstr d = cstr x"
      using strcpy_fits [OF x(2), of "replicate 76 NUL"] x(3) by (auto simp: yields_iff)
    have eq: "status_text ed = Some (''[+] '' @ d)"
    proof -
      have "status_text ed = do { status \<leftarrow> do { status \<leftarrow> arr_set (replicate 80 NUL) 0 (CHR ''['');
         status \<leftarrow> arr_set status 1 (CHR ''+''); status \<leftarrow> arr_set status 2 (CHR '']''); arr_set status 3 (CHR '' '') };
         tail \<leftarrow> strcpy (drop 4 status) x; Some (take 4 status @ tail) }"
        by (simp add: status_text_def x(1) True bind_assoc)
      then show ?thesis unfolding st using d(1) by simp
    qed
    then show ?thesis using d x(3) ti by (simp add: cstr_Cons terminated_Cons)
  qed
qed

lemma mode_text: "length (mode_text ed) \<le> 12" "NUL \<notin> set (mode_text ed)"
  by (simp_all add: mode_text_def)

lemma draw_status_eq:
  assumes ok: "ed_ok ed" and t: "length (terminal_buffer t) = 2000"
  shows "draw_status ed t = Some (t\<lparr>terminal_color := inverse_white, terminal_buffer := fold paint (status_paintings ed) (terminal_buffer t)\<rparr>)"
proof -
  obtain st where st: "status_text ed = Some st" "terminated st" "cstr st = title ed" "length (title ed) < 68"
    using status_text_eq [OF ok] by (rule yieldsE) blast
  define sp where "sp = replicate 80 (CHR '' '')"
  have sp: "length sp = 80" "\<And>i. i < length sp \<Longrightarrow> Some (CHR '' '') = Some (sp ! i)" by (simp_all add: sp_def)
  let ?b0 = "terminal_buffer t"
  let ?b1 = "paint (23, 0, inverse_white, sp) ?b0"
  let ?b2 = "paint (23, 0, inverse_white, title ed) ?b1"
  let ?b3 = "paint (23, 80 - length (mode_text ed), inverse_white, mode_text ed) ?b2"
  let ?t = "\<lambda>b. t\<lparr>terminal_color := inverse_white, terminal_buffer := b\<rparr>"
  have l: "length ?b1 = 2000" "length ?b2 = 2000"
    using t st(4) sp(1) by (subst length_paint, simp, simp)+
  have t0: "t\<lparr>terminal_color := inverse_white\<rparr> = ?t ?b0" by simp
  have d1: "ofold (\<lambda>x. terminal_putentryat (CHR '' '') inverse_white (of_nat x) 23) [0..<80] (?t ?b0) = Some (?t ?b1)"
    using putting_string [of "?t ?b0" 23 0 sp "\<lambda>i. Some (CHR '' '')" inverse_white, OF _ _ sp(2)] t
    unfolding sp(1) bind.bind_lunit add_0 by (simp del: paint.simps upt_rec_numeral)
  have d2: "draw_text st (length (title ed)) inverse_white 0 23 (?t ?b1) = Some (?t ?b2)"
    using draw_cstr [of "?t ?b1" 23 0 st inverse_white] l st by (simp del: paint.simps)
  have d3: "draw_text (lit (mode_text ed)) (length (mode_text ed)) inverse_white (80 - length (mode_text ed)) 23 (?t ?b2) = Some (?t ?b3)"
    using draw_cstr [of "?t ?b2" 23 "80 - length (mode_text ed)" "lit (mode_text ed)" inverse_white] l mode_text [of ed]
    by (simp add: cstr_lit del: paint.simps)
  have n: "strlen st = Some (length (title ed))" "strlen (lit (mode_text ed)) = Some (length (mode_text ed))"
    using st mode_text(2) [of ed] by (simp_all add: strlen_eq cstr_lit)
  have "draw_status ed t = do {
      t \<leftarrow> ofold (\<lambda>x. terminal_putentryat (CHR '' '') inverse_white (of_nat x) 23) [0..<80] (?t ?b0);
      status \<leftarrow> status_text ed;
      len \<leftarrow> strlen status;
      t \<leftarrow> draw_text status len inverse_white 0 23 t;
      mode_len \<leftarrow> strlen (lit (mode_text ed));
      draw_text (lit (mode_text ed)) mode_len inverse_white (80 - mode_len) 23 t }"
    unfolding draw_status_def Let_def setcolor_buffer by (subst t0) (rule refl)
  then show ?thesis
    unfolding d1 st(1) n bind.bind_lunit d2 d3
    by (simp add: status_paintings_def sp_def del: paint.simps)
qed

lemma draw_command_eq:
  assumes inv: "ed_inv ed" and t: "length (terminal_buffer t) = 2000"
  shows "draw_command ed t = Some (t\<lparr>terminal_buffer := fold paint (command_paintings ed) (terminal_buffer t)\<rparr>)"
proof -
  have ok: "ed_ok ed" by (rule ed_inv_ok [OF inv])
  show ?thesis
  proof (cases "ed_mode ed = MODE_COMMAND")
    case False
    have st: "terminated (status_message ed)" "length (cstr (status_message ed)) < 80"
      using ok length_cstr_less [of "status_message ed"] by (auto simp: ed_ok_def)
    then show ?thesis using False draw_cstr [OF t, of 24 0 "status_message ed" white]
      by (simp add: draw_command_def command_paintings_def strlen_eq del: paint.simps)
  next
    case True
    let ?c = "command_buffer ed"
    have c: "command_length ed = int (length (cstr ?c))" "terminated ?c" "length (cstr ?c) \<le> 78"
      using inv True by (auto simp: ed_inv_def ed_ok_def)
    let ?b0 = "terminal_buffer t"
    let ?b1 = "paint (24, 0, white, '':'') ?b0"
    let ?b2 = "paint (24, 1, white, cstr ?c) ?b1"
    let ?t = "\<lambda>b. t\<lparr>terminal_buffer := b\<rparr>"
    have l: "length ?b1 = 2000" "length ?b2 = 2000"
      using t c(3) by (subst length_paint, simp, simp)+
    have d1: "terminal_putentryat (CHR '':'') white 0 24 t = Some (?t ?b1)"
      using put_paint [of 24 0 t "CHR '':''" white] t by (simp del: paint.simps)
    have d2: "draw_text ?c (length (cstr ?c)) white 1 24 (?t ?b1) = Some (?t ?b2)"
      using draw_cstr [of "?t ?b1" 24 1 ?c white] l c by (simp del: paint.simps)
    have w: "word_of_int (command_length ed + 1) = (of_nat (Suc (length (cstr ?c))) :: 32 word)"
      "nat (command_length ed) = length (cstr ?c)"
      unfolding c(1) by simp_all
    have d3: "terminal_putentryat (CHR ''_'') white (word_of_int (command_length ed + 1)) 24 (?t ?b2) =
        Some (?t (paint (24, Suc (length (cstr ?c)), white, ''_'') ?b2))"
      unfolding w using put_paint [of 24 "Suc (length (cstr ?c))" "?t ?b2" "CHR ''_''" white] l c(3)
      by (simp del: paint.simps of_nat_Suc)
    show ?thesis
      unfolding draw_command_def w(2) using True
      by (simp only: if_True d1 d2 d3 bind.bind_lunit) (simp add: command_paintings_def del: paint.simps)
  qed
qed

lemma draw_cursor_eq:
  assumes inv: "ed_inv ed" and t: "length (terminal_buffer t) = 2000"
  shows "draw_cursor ed t = Some (t\<lparr>terminal_buffer := fold paint (cursor_paintings ed) (terminal_buffer t)\<rparr>)"
proof -
  have ok: "ed_ok ed" by (rule ed_inv_ok [OF inv])
  let ?y = "cursor_y ed - view_start_line ed"
  have "cursor_x ed \<le> 75"
  proof -
    obtain row where "nat (cursor_x ed) \<le> length (ed_lines ed ! nat (cursor_y ed))" "length (ed_lines ed ! nat (cursor_y ed)) < 76"
      by (rule cursor_row [OF ok])
    then show ?thesis by simp
  qed
  moreover have "0 \<le> cursor_x ed" using ok by (simp add: ed_ok_def)
  ultimately have x: "cursor_x ed + 5 = int (nat (cursor_x ed) + 5)" "nat (cursor_x ed) + 5 \<le> 80" by simp_all
  show ?thesis
  proof (cases "ed_mode ed \<noteq> MODE_COMMAND \<and> 0 \<le> ?y \<and> ?y < 23")
    case True
    then have y: "?y = int (nat ?y)" "nat ?y < 23" by linarith+
    have "terminal_putentryat (CHR ''_'') white (word_of_int (cursor_x ed + 5)) (word_of_int ?y) t =
        Some (t\<lparr>terminal_buffer := paint (nat ?y, nat (cursor_x ed) + 5, white, ''_'') (terminal_buffer t)\<rparr>)"
      unfolding x(1) by (subst y(1), unfold of_int_of_nat_eq, rule put_paint) (use y(2) x(2) t in simp_all)
    then show ?thesis using True by (simp add: draw_cursor_def cursor_paintings_def Let_def del: paint.simps)
  next
    case False
    then show ?thesis by (auto simp: draw_cursor_def cursor_paintings_def Let_def)
  qed
qed

definition fits_screen :: "painting \<Rightarrow> bool" where
  "fits_screen p \<longleftrightarrow> (case p of (y, x, c, s) \<Rightarrow> 80 * y + x + length s \<le> 2000)"

definition covers :: "painting \<Rightarrow> nat \<Rightarrow> bool" where
  "covers p k \<longleftrightarrow> (case p of (y, x, c, s) \<Rightarrow> 80 * y + x \<le> k \<and> k < 80 * y + x + length s)"

lemma length_paints: "list_all fits_screen ps \<Longrightarrow> length b = 2000 \<Longrightarrow> length (fold paint ps b) = 2000"
  by (induction ps arbitrary: b) (auto simp: fits_screen_def length_paint simp del: paint.simps)

lemma paints_outside:
  "list_all fits_screen ps \<Longrightarrow> length b = 2000 \<Longrightarrow> k < 2000 \<Longrightarrow> list_all (\<lambda>p. \<not> covers p k) ps \<Longrightarrow>
    fold paint ps b ! k = b ! k"
  by (induction ps arbitrary: b)
     (auto simp: fits_screen_def covers_def length_paint nth_paint simp del: paint.simps split: prod.splits)

lemma line_fits:
  assumes ok: "ed_ok ed" and y: "y < shown_lines ed"
  shows "length (padded (nat (view_start_line ed) + y + 1)) = 4"
    and "length (ed_lines ed ! (nat (view_start_line ed) + y)) \<le> 75"
proof -
  have n: "nat (view_start_line ed) + y < length (ed_lines ed)" using y unfolding shown_lines_def by linarith
  then show "length (padded (nat (view_start_line ed) + y + 1)) = 4"
    using length_ed_lines [OF ok] ed_okD(3) [OF ok] by (intro length_padded) simp
  show "length (ed_lines ed ! (nat (view_start_line ed) + y)) \<le> 75"
    using n ed_lines_short(1) [OF ok] by simp
qed

lemma lines_fit:
  assumes ok: "ed_ok ed" and n: "n \<le> shown_lines ed"
  shows "list_all fits_screen (concat (map (line_paintings ed) [0..<n]))"
proof -
  have "length (padded (nat (view_start_line ed) + y + 1)) = 4 \<and> length (ed_lines ed ! (nat (view_start_line ed) + y)) \<le> 75 \<and> y < 23"
    if "y < n" for y using line_fits [OF ok, of y] that n by (simp add: shown_lines_def)
  then show ?thesis by (fastforce simp: list_all_iff fits_screen_def line_paintings_def Let_def)
qed

lemma rest_fits:
  assumes "ed_inv ed"
  shows "list_all fits_screen (status_paintings ed @ command_paintings ed @ cursor_paintings ed)"
proof -
  have ok: "ed_ok ed" by (rule ed_inv_ok [OF assms])
  have "length (title ed) < 68" using status_text_eq [OF ok] by (auto simp: yields_iff)
  moreover have "length (cstr (status_message ed)) < 80" "length (cstr (command_buffer ed)) < 80"
    using ok length_cstr_less [of "status_message ed"] length_cstr_less [of "command_buffer ed"] by (auto simp: ed_ok_def)
  moreover have "ed_mode ed = MODE_COMMAND \<longrightarrow> length (cstr (command_buffer ed)) \<le> 78"
    using assms by (auto simp: ed_inv_def ed_ok_def)
  moreover obtain row where "nat (cursor_x ed) \<le> length (ed_lines ed ! nat (cursor_y ed))" "length (ed_lines ed ! nat (cursor_y ed)) < 76"
    by (rule cursor_row [OF ok])
  ultimately show ?thesis using mode_text(1) [of ed]
    by (auto simp: fits_screen_def status_paintings_def command_paintings_def cursor_paintings_def Let_def)
qed

lemma cursor_outside:
  assumes ok: "ed_ok ed" and j: "j < 75"
    and other: "\<not> (ed_mode ed \<noteq> MODE_COMMAND \<and> int y = cursor_y ed - view_start_line ed \<and> int j = cursor_x ed)"
  shows "list_all (\<lambda>p. \<not> covers p (80 * y + 5 + j)) (cursor_paintings ed)"
proof (cases "ed_mode ed \<noteq> MODE_COMMAND \<and> 0 \<le> cursor_y ed - view_start_line ed \<and> cursor_y ed - view_start_line ed < 23")
  case True
  obtain row where r: "nat (cursor_x ed) \<le> length (ed_lines ed ! nat (cursor_y ed))" "length (ed_lines ed ! nat (cursor_y ed)) < 76"
    by (rule cursor_row [OF ok])
  define c where "c = nat (cursor_y ed - view_start_line ed)"
  define x where "x = nat (cursor_x ed)"
  have "int c = cursor_y ed - view_start_line ed" "int x = cursor_x ed" "x \<le> 75"
    using True r ok by (simp_all add: c_def x_def ed_ok_def)
  then have xj: "\<not> (c = y \<and> x = j)" "x \<le> 75" using other True by auto
  consider "c < y" | "c = y" | "y < c" by linarith
  then have "80 * c + (x + 5) \<noteq> 80 * y + 5 + j" using xj j by cases linarith+
  then show ?thesis using True by (auto simp: covers_def cursor_paintings_def Let_def c_def x_def)
qed (auto simp: cursor_paintings_def Let_def)

lemma editor_draw_eq:
  assumes inv: "ed_inv ed" and t: "terminal_ok t"
  shows "editor_draw ed t = Some (t\<lparr>terminal_row := 0, terminal_column := 0, terminal_color := inverse_white,
    terminal_buffer := fold paint (display_list ed) (replicate 2000 (vga_entry (uchar CHR '' '') (terminal_color t)))\<rparr>)"
proof -
  have ok: "ed_ok ed" by (rule ed_inv_ok [OF inv])
  let ?b = "replicate 2000 (vga_entry (uchar CHR '' '') (terminal_color t))"
  let ?ls = "concat (map (line_paintings ed) [0..<shown_lines ed])"
  define t0 where "t0 = t\<lparr>terminal_row := 0, terminal_column := 0, terminal_buffer := ?b\<rparr>"
  have l0: "length (terminal_buffer t0) = 2000" by (simp add: t0_def)
  define t1 where "t1 = t0\<lparr>terminal_color := (if shown_lines ed = 0 then terminal_color t0 else white),
    terminal_buffer := fold paint ?ls (terminal_buffer t0)\<rparr>"
  have d1: "ofold (\<lambda>y t. if int y + view_start_line ed < line_count ed then draw_line ed y t else Some t) [0..<23] t0 = Some t1"
    unfolding t1_def by (rule draw_lines_eq [OF ok l0]) (simp_all add: shown_lines_def)
  have l1: "length (terminal_buffer t1) = 2000" using length_paints [OF lines_fit [OF ok order_refl] l0] by (simp add: t1_def)
  have f: "list_all fits_screen (status_paintings ed)" "list_all fits_screen (command_paintings ed)"
    using rest_fits [OF inv] by simp_all
  define t2 where "t2 = t1\<lparr>terminal_color := inverse_white, terminal_buffer := fold paint (status_paintings ed) (terminal_buffer t1)\<rparr>"
  have d2: "draw_status ed t1 = Some t2" unfolding t2_def by (rule draw_status_eq [OF ok l1])
  have l2: "length (terminal_buffer t2) = 2000" using length_paints [OF f(1) l1] by (simp add: t2_def)
  define t3 where "t3 = t2\<lparr>terminal_buffer := fold paint (command_paintings ed) (terminal_buffer t2)\<rparr>"
  have d3: "draw_command ed t2 = Some t3" unfolding t3_def by (rule draw_command_eq [OF inv l2])
  have l3: "length (terminal_buffer t3) = 2000" using length_paints [OF f(2) l2] by (simp add: t3_def)
  have "editor_draw ed t = Some (t3\<lparr>terminal_buffer := fold paint (cursor_paintings ed) (terminal_buffer t3)\<rparr>)"
    unfolding editor_draw_def terminal_clear_eq [OF t] t0_def [symmetric] bind.bind_lunit d1 d2 d3
    by (rule draw_cursor_eq [OF inv l3])
  then show ?thesis by (simp add: t3_def t2_def t1_def t0_def display_list_def del: paint.simps)
qed

lemma editor_draw_ok:
  assumes "ed_inv ed" and "terminal_ok t"
  shows "yields (editor_draw ed t) (\<lambda>t'. terminal_ok t' \<and> terminal_color t' = inverse_white)"
proof -
  have "list_all fits_screen (display_list ed)"
    using rest_fits [OF assms(1)] lines_fit [OF ed_inv_ok [OF assms(1)] order_refl] by (simp add: display_list_def)
  then show ?thesis unfolding editor_draw_eq [OF assms] by (simp add: terminal_ok_def vga_consts length_paints del: paint.simps)
qed

section \<open>Properties\<close>

text \<open>C14: drawing the editor is defined in every state of a session: it touches no cell outside the
  VGA memory, and the screen afterwards is the display list (line numbers and lines in view, title,
  mode, command line or message, cursor) painted over blanks in the color the terminal had.\<close>

theorem draw_paints_display_list:
  assumes "ed_inv ed" and "terminal_ok t"
  shows "yields (editor_draw ed t) (\<lambda>t'. terminal_ok t' \<and> list_all fits_screen (display_list ed) \<and>
    terminal_buffer t' = fold paint (display_list ed) (replicate 2000 (vga_entry (uchar CHR '' '') (terminal_color t))) \<and>
    terminal_color t' = inverse_white)"
proof -
  have "list_all fits_screen (display_list ed)"
    using rest_fits [OF assms(1)] lines_fit [OF ed_inv_ok [OF assms(1)] order_refl] by (simp add: display_list_def)
  then show ?thesis unfolding editor_draw_eq [OF assms] by (simp add: terminal_ok_def vga_consts length_paints del: paint.simps)
qed

lemma draw_paints_display_list_witness:
  "yields (editor_draw (demo_mode MODE_NORMAL []) demo_terminal) (\<lambda>t'. terminal_ok t' \<and>
    list_all fits_screen (display_list (demo_mode MODE_NORMAL [])) \<and>
    terminal_buffer t' = fold paint (display_list (demo_mode MODE_NORMAL []))
      (replicate 2000 (vga_entry (uchar CHR '' '') (terminal_color demo_terminal))) \<and> terminal_color t' = inverse_white)"
  by (rule draw_paints_display_list [OF demo_mode(1) demo_terminal_ok]) simp_all

text \<open>What is on the screen is the text: after drawing, every character of every line in view
  stands at its place behind the line number in white on black, except under the cursor.\<close>

theorem draw_shows_lines:
  assumes "ed_inv ed" and "terminal_ok t" and "y < shown_lines ed"
    and "l = ed_lines ed ! (nat (view_start_line ed) + y)" and "j < length l"
    and "\<not> (ed_mode ed \<noteq> MODE_COMMAND \<and> int y = cursor_y ed - view_start_line ed \<and> int j = cursor_x ed)"
  shows "yields (editor_draw ed t) (\<lambda>t'. terminal_buffer t' ! (80 * y + 5 + j) = vga_entry (uchar (l ! j)) white)"
proof -
  have ok: "ed_ok ed" by (rule ed_inv_ok [OF assms(1)])
  let ?k = "80 * y + 5 + j" and ?b = "replicate 2000 (vga_entry (uchar CHR '' '') (terminal_color t))"
  let ?n = "shown_lines ed"
  have y: "y < 23" "length l \<le> 75" using assms(3,4) line_fits(2) [OF ok assms(3)] by (simp_all add: shown_lines_def)
  have lines: "[0..<?n] = [0..<y] @ y # [Suc y..<?n]"
    using assms(3) upt_add_eq_append [of 0 y "?n - y"] by (simp add: upt_conv_Cons)
  let ?before = "concat (map (line_paintings ed) [0..<y])" and ?after = "concat (map (line_paintings ed) [Suc y..<?n])"
  let ?rest = "?after @ status_paintings ed @ command_paintings ed @ cursor_paintings ed"
  have dl: "display_list ed = ?before @ [(y, 0, gray, padded (nat (view_start_line ed) + y + 1)), (y, 5, white, l)] @ ?rest"
    unfolding display_list_def lines using assms(4) by (simp add: line_paintings_def Let_def)
  have fit: "list_all fits_screen ?before" "list_all fits_screen ?rest"
    using lines_fit [OF ok order_refl] rest_fits [OF assms(1)] unfolding lines by simp_all
  have "list_all (\<lambda>p. \<not> covers p ?k) ?after"
    using assms(5) y by (auto simp: list_all_iff covers_def line_paintings_def Let_def)
  moreover have "list_all (\<lambda>p. \<not> covers p ?k) (status_paintings ed @ command_paintings ed)"
    using assms(5) y by (auto simp: covers_def status_paintings_def command_paintings_def)
  moreover have "list_all (\<lambda>p. \<not> covers p ?k) (cursor_paintings ed)"
    using cursor_outside [OF ok, of j y] assms(5,6) y by simp
  ultimately have out: "list_all (\<lambda>p. \<not> covers p ?k) ?rest" by simp
  let ?b1 = "fold paint ?before ?b"
  let ?b2 = "paint (y, 0, gray, padded (nat (view_start_line ed) + y + 1)) ?b1"
  have l1: "length ?b1 = 2000" by (rule length_paints [OF fit(1)]) simp
  have l2: "length ?b2 = 2000" using l1 y line_fits(1) [OF ok assms(3)] by (subst length_paint) simp_all
  have k: "?k < 2000" using y assms(5) by simp
  have "fold paint (display_list ed) ?b ! ?k = fold paint ?rest (paint (y, 5, white, l) ?b2) ! ?k"
    unfolding dl by (simp del: paint.simps)
  also have "\<dots> = paint (y, 5, white, l) ?b2 ! ?k"
    using l2 y by (intro paints_outside [OF fit(2) _ k out]) (subst length_paint, simp_all)
  also have "\<dots> = vga_entry (uchar (l ! j)) white"
    using l2 y k assms(5) by (subst nth_paint) simp_all
  finally show ?thesis unfolding editor_draw_eq [OF assms(1,2)] by simp
qed

lemma view_demo: "view_start_line (demo_mode m cmd) = 0"
  by (simp add: demo_mode_def demo_editor_def editor_zero_def)

lemma shown_demo: "shown_lines (demo_mode MODE_NORMAL []) = 1"
  using demo_mode [of "[]" MODE_NORMAL] by (simp add: shown_lines_def view_demo)

lemma draw_shows_lines_witness:
  "yields (editor_draw (demo_mode MODE_NORMAL []) demo_terminal)
    (\<lambda>t'. terminal_buffer t' ! (80 * 0 + 5 + 1) = vga_entry (uchar (''hi'' ! 1)) white)"
  by (rule draw_shows_lines [OF demo_mode(1) demo_terminal_ok])
     (use demo_mode [of "[]" MODE_NORMAL] in \<open>simp_all add: shown_demo view_demo\<close>)

text \<open>C38: \<open>editor_draw\<close> leaves the terminal's color at black on white and clears with the color it
  finds, so from the second drawing on every cell right of and below the text is a white block.\<close>

theorem redraw_background:
  assumes "ed_inv ed" and "terminal_ok t" and "ed_inv ed'" and "shown_lines ed' \<le> y" and "y < 23" and "0 < x" and "x < 80"
  shows "yields (do { t \<leftarrow> editor_draw ed t; editor_draw ed' t }) (\<lambda>t'.
    terminal_buffer t' ! (80 * y + x) = vga_entry (uchar CHR '' '') (vga_entry_color VGA_COLOR_BLACK VGA_COLOR_WHITE))"
proof -
  have ok: "ed_ok ed'" by (rule ed_inv_ok [OF assms(3)])
  obtain t1 where t1: "editor_draw ed t = Some t1" "terminal_ok t1" "terminal_color t1 = inverse_white"
    using editor_draw_ok [OF assms(1,2)] by (rule yieldsE) blast
  have fit: "list_all fits_screen (display_list ed')"
    using rest_fits [OF assms(3)] lines_fit [OF ok order_refl] by (simp add: display_list_def)
  have lens: "length (padded (nat (view_start_line ed') + z + 1)) = 4 \<and> length (ed_lines ed' ! (nat (view_start_line ed') + z)) \<le> 75"
    if "z < shown_lines ed'" for z using line_fits [OF ok that] by simp
  have "list_all (\<lambda>p. \<not> covers p (80 * y + x)) (concat (map (line_paintings ed') [0..<shown_lines ed']))"
    using lens assms(4-7) by (fastforce simp: list_all_iff covers_def line_paintings_def Let_def)
  moreover have "list_all (\<lambda>p. \<not> covers p (80 * y + x)) (status_paintings ed' @ command_paintings ed')"
    using assms(5-7) by (auto simp: covers_def status_paintings_def command_paintings_def)
  moreover have "list_all (\<lambda>p. \<not> covers p (80 * y + x)) (cursor_paintings ed')"
  proof -
    obtain row where r: "nat (cursor_x ed') \<le> length (ed_lines ed' ! nat (cursor_y ed'))" "length (ed_lines ed' ! nat (cursor_y ed')) < 76"
      by (rule cursor_row [OF ok])
    have "nat (cursor_y ed' - view_start_line ed') < shown_lines ed'"
      if "0 \<le> cursor_y ed' - view_start_line ed'" "cursor_y ed' - view_start_line ed' < 23"
      using that ok length_ed_lines [OF ok] by (auto simp: shown_lines_def ed_ok_def nat_less_iff)
    then show ?thesis using r assms(4-7) by (auto simp: covers_def cursor_paintings_def Let_def)
  qed
  ultimately have "fold paint (display_list ed') (replicate 2000 (vga_entry (uchar CHR '' '') inverse_white)) ! (80 * y + x) =
      replicate 2000 (vga_entry (uchar CHR '' '') inverse_white) ! (80 * y + x)"
    using assms(5-7) by (intro paints_outside [OF fit]) (simp_all add: display_list_def)
  then show ?thesis using t1 assms(5,7) by (simp add: editor_draw_eq [OF assms(3) t1(2)] inverse_white_def)
qed

lemma redraw_background_witness:
  "yields (do { t \<leftarrow> editor_draw (demo_mode MODE_NORMAL []) demo_terminal; editor_draw (demo_mode MODE_NORMAL []) t })
    (\<lambda>t'. terminal_buffer t' ! (80 * 10 + 40) = vga_entry (uchar CHR '' '') (vga_entry_color VGA_COLOR_BLACK VGA_COLOR_WHITE))"
  by (rule redraw_background [OF demo_mode(1) demo_terminal_ok demo_mode(1)]) (simp_all add: shown_demo)

end
