(* ===== verification/Keyboard.thy ===== *)
theory Keyboard
  imports Terminal "HOL-Library.Stream"
begin

text \<open>
  The keyboard controller, the interrupt descriptor table and the keyboard layouts
  (\<open>src/kernel/kernel.c\<close>). The I/O ports are hardware: what a read answers is a stream of
  bytes that the model leaves open, and every access is logged in order.
\<close>

unbundle bit_operations_syntax

section \<open>Ports\<close>

datatype port_event = In "16 word" "8 word" | Out "16 word" "8 word"

record bus =
  bus_answers :: "8 word stream"
  bus_log :: "port_event list"

definition inb :: "16 word \<Rightarrow> bus \<Rightarrow> 8 word \<times> bus" where
  "inb port b = (shd (bus_answers b),
     b\<lparr>bus_answers := stl (bus_answers b), bus_log := bus_log b @ [In port (shd (bus_answers b))]\<rparr>)"

definition outb :: "16 word \<Rightarrow> 8 word \<Rightarrow> bus \<Rightarrow> bus" where
  "outb port val b = b\<lparr>bus_log := bus_log b @ [Out port val]\<rparr>"

definition io_wait :: "bus \<Rightarrow> bus" where
  "io_wait b = outb 0x80 0 b"

section \<open>The keyboard controller\<close>

definition KEYBOARD_DATA_PORT :: "16 word" where "KEYBOARD_DATA_PORT = 0x60"
definition KEYBOARD_STATUS_PORT :: "16 word" where "KEYBOARD_STATUS_PORT = 0x64"

lemmas port_consts = KEYBOARD_DATA_PORT_def KEYBOARD_STATUS_PORT_def

text \<open>\<open>while (busy(inb(KEYBOARD_STATUS_PORT))) io_wait();\<close> may run for ever: \<open>None\<close>.\<close>

partial_function (option) wait_while :: "(8 word \<Rightarrow> bool) \<Rightarrow> bus \<Rightarrow> bus option" where
  "wait_while busy b = (case inb KEYBOARD_STATUS_PORT b of (st, b) \<Rightarrow>
     if busy st then wait_while busy (io_wait b) else Some b)"

partial_function (option) flush_output :: "bus \<Rightarrow> bus option" where
  "flush_output b = (case inb KEYBOARD_STATUS_PORT b of (st, b) \<Rightarrow>
     if st AND 0x01 \<noteq> 0 then
       case inb KEYBOARD_DATA_PORT b of (d, b) \<Rightarrow> flush_output (io_wait b)
     else Some b)"

definition keyboard_init :: "bus \<Rightarrow> bus option" where
  "keyboard_init b = do {
     b \<leftarrow> wait_while (\<lambda>st. st AND 0x02 \<noteq> 0) b;
     let b = io_wait (outb KEYBOARD_STATUS_PORT 0xAD b);
     let b = io_wait (outb KEYBOARD_STATUS_PORT 0xA7 b);
     b \<leftarrow> flush_output b;
     let b = io_wait (outb KEYBOARD_STATUS_PORT 0x20 b);
     let (config, b) = inb KEYBOARD_DATA_PORT b;
     let config = config OR 0x01;
     let config = config AND NOT 0x10;
     let b = io_wait (outb KEYBOARD_STATUS_PORT 0x60 b);
     let b = io_wait (outb KEYBOARD_DATA_PORT config b);
     let b = io_wait (outb KEYBOARD_STATUS_PORT 0xAE b);
     let b = io_wait (outb KEYBOARD_DATA_PORT 0xFF b);
     b \<leftarrow> wait_while (\<lambda>st. st AND 0x01 = 0) b;
     let (ack, b) = inb KEYBOARD_DATA_PORT b;
     b \<leftarrow> wait_while (\<lambda>st. st AND 0x01 = 0) b;
     let (result, b) = inb KEYBOARD_DATA_PORT b;
     let b = io_wait (outb KEYBOARD_DATA_PORT 0xF4 b);
     b \<leftarrow> wait_while (\<lambda>st. st AND 0x01 = 0) b;
     let (ack, b) = inb KEYBOARD_DATA_PORT b;
     Some b }"

section \<open>The interrupt descriptor table\<close>

definition IDT_SIZE :: nat where "IDT_SIZE = 256"
definition KERNEL_CODE_SEGMENT_OFFSET :: "16 word" where "KERNEL_CODE_SEGMENT_OFFSET = 0x08"

record idt_entry =
  offset_low :: "16 word"
  selector :: "16 word"
  zero :: "8 word"
  type_attr :: "8 word"
  offset_high :: "16 word"

record idt_ptr =
  limit :: "16 word"
  base :: "32 word"

definition idt_set_entry :: "int \<Rightarrow> 32 word \<Rightarrow> 16 word \<Rightarrow> 8 word \<Rightarrow> idt_entry list \<Rightarrow> idt_entry list option" where
  "idt_set_entry num handler sel attr idt = int_set idt num
     \<lparr> offset_low = ucast (handler AND 0xFFFF), selector = sel, zero = 0, type_attr = attr,
       offset_high = ucast (drop_bit 16 handler AND 0xFFFF) \<rparr>"

section \<open>Layouts\<close>

definition scancode_to_ascii :: "char list" where
  "scancode_to_ascii = [NUL, NUL] @ ''1234567890-='' @ [NUL, NUL] @
     ''qwertyuiop[]'' @ [NL, NUL] @
     ''asdfghjkl;'' @ [CHR 0x27, CHR 0x60, NUL, CHR 0x5C] @
     ''zxcvbnm,./'' @ [NUL, NUL, NUL] @ '' ''"

definition scancode_to_ascii_shift :: "char list" where
  "scancode_to_ascii_shift = [NUL, NUL] @ ''!@#$%^&*()_+'' @ [NUL, NUL] @
     ''QWERTYUIOP{}'' @ [NL, NUL] @
     ''ASDFGHJKL:'' @ [CHR 0x22, CHR ''~'', NUL, CHR ''|''] @
     ''ZXCVBNM<>?'' @ [NUL, NUL, NUL] @ '' ''"

definition scancode_to_ascii_de :: "char list" where
  "scancode_to_ascii_de = [NUL, NUL] @ ''1234567890s'' @ [CHR 0x27, NUL, NUL] @
     ''qwertzuiopu+'' @ [NL, NUL] @
     ''asdfghjkloa^'' @ [NUL, CHR ''#''] @
     ''yxcvbnm,.-'' @ [NUL, NUL, NUL] @ '' '' @
     replicate 16 NUL @
     replicate 11 NUL @ ''<'' @ replicate 4 NUL"

definition scancode_to_ascii_de_shift :: "char list" where
  "scancode_to_ascii_de_shift = [NUL, NUL] @ ''!'' @ [CHR 0x22] @ ''#$%&/()=?'' @ [CHR 0x60, NUL, NUL] @
     ''QWERTZUIOPU*'' @ [NL, NUL] @
     ''ASDFGHJKLOA^'' @ [NUL, CHR 0x27] @
     ''YXCVBNM;:_'' @ [NUL, NUL, NUL] @ '' '' @
     replicate 16 NUL @
     replicate 11 NUL @ ''>'' @ replicate 4 NUL"

definition SCANCODE_LEFT_SHIFT :: "8 word" where "SCANCODE_LEFT_SHIFT = 0x2A"
definition SCANCODE_RIGHT_SHIFT :: "8 word" where "SCANCODE_RIGHT_SHIFT = 0x36"
definition SCANCODE_CAPS_LOCK :: "8 word" where "SCANCODE_CAPS_LOCK = 0x3A"

record keys =
  shift_pressed :: bool
  caps_lock :: bool
  use_german_layout :: bool

text \<open>The translation of a scancode below the size of the German table. The index is not
  checked against the size of the US tables; reading past their end is undefined.\<close>

definition apply_caps :: "keys \<Rightarrow> char \<Rightarrow> char" where
  "apply_caps ks ascii =
     (if caps_lock ks \<and> c_int ascii \<ge> c_int (CHR ''a'') \<and> c_int ascii \<le> c_int (CHR ''z'')
      then char_of (c_int ascii - c_int (CHR ''a'') + c_int (CHR ''A'')) else ascii)"

definition scancode_ascii :: "keys \<Rightarrow> 8 word \<Rightarrow> char option" where
  "scancode_ascii ks scancode = do {
     ascii \<leftarrow> (if use_german_layout ks
       then arr_get (if shift_pressed ks then scancode_to_ascii_de_shift else scancode_to_ascii_de) (unat scancode)
       else arr_get (if shift_pressed ks then scancode_to_ascii_shift else scancode_to_ascii) (unat scancode));
     Some (apply_caps ks ascii) }"

section \<open>The dialogue with the controller\<close>

text \<open>\<open>waits busy xs ys\<close>: of the answers \<open>xs\<close> finitely many are busy, then one is not, and \<open>ys\<close>
  follow; \<open>flushed xs ys\<close>: status bytes with bit 0 and data bytes alternate until a status byte
  without bit 0.\<close>

inductive waits :: "(8 word \<Rightarrow> bool) \<Rightarrow> 8 word stream \<Rightarrow> 8 word stream \<Rightarrow> bool" for busy where
  waits_ready: "\<not> busy st \<Longrightarrow> waits busy (st ## xs) xs"
| waits_busy: "busy st \<Longrightarrow> waits busy xs ys \<Longrightarrow> waits busy (st ## xs) ys"

inductive flushed :: "8 word stream \<Rightarrow> 8 word stream \<Rightarrow> bool" where
  flushed_empty: "st AND 0x01 = 0 \<Longrightarrow> flushed (st ## xs) xs"
| flushed_byte: "st AND 0x01 \<noteq> 0 \<Longrightarrow> flushed xs ys \<Longrightarrow> flushed (st ## d ## xs) ys"

inductive_simps waits_SCons: "waits busy (st ## xs) ys"
inductive_simps flushed_SCons: "flushed (st ## xs) ys"
inductive_cases flushedE: "flushed xs ys"

text \<open>The bytes sent to the controller, without the writes to port \<open>0x80\<close> that only take time.\<close>

definition sent :: "bus \<Rightarrow> (16 word \<times> 8 word) list" where
  "sent b = concat (map (\<lambda>e. case e of In p v \<Rightarrow> [] | Out p v \<Rightarrow> if p = 0x80 then [] else [(p, v)]) (bus_log b))"

lemma answers_simps [simp]:
  "bus_answers (outb port v b) = bus_answers b" "bus_answers (io_wait b) = bus_answers b"
  "bus_answers (snd (inb port b)) = stl (bus_answers b)" "fst (inb port b) = shd (bus_answers b)"
  by (simp_all add: outb_def io_wait_def inb_def)

lemma sent_simps [simp]:
  "sent (outb port v b) = sent b @ (if port = 0x80 then [] else [(port, v)])"
  "sent (io_wait b) = sent b" "sent (snd (inb port b)) = sent b"
  by (simp_all add: sent_def outb_def io_wait_def inb_def)

lemma wait_while_sound:
  "wait_while busy b = Some b' \<Longrightarrow> waits busy (bus_answers b) (bus_answers b') \<and> sent b' = sent b"
proof (induction rule: wait_while.raw_induct [rotated, consumes 1])
  case (1 wait_while busy b b')
  show ?case
  proof (cases "busy (shd (bus_answers b))")
    case True
    then have "wait_while busy (io_wait (snd (inb KEYBOARD_STATUS_PORT b))) = Some b'" using 1(2) by (simp add: split_beta)
    from 1(1) [OF this] have "waits busy (stl (bus_answers b)) (bus_answers b')" "sent b' = sent b" by simp_all
    then show ?thesis using waits_busy [of busy "shd (bus_answers b)" "stl (bus_answers b)"] True by simp
  next
    case False
    then have "b' = snd (inb KEYBOARD_STATUS_PORT b)" using 1(2) by (simp add: split_beta)
    then show ?thesis using waits_ready [of busy "shd (bus_answers b)" "stl (bus_answers b)"] False by simp
  qed
qed

lemma wait_while_complete: "waits busy (bus_answers b) ys \<Longrightarrow> \<exists>b'. wait_while busy b = Some b' \<and> bus_answers b' = ys"
proof (induction "bus_answers b" ys arbitrary: b rule: waits.induct)
  case (waits_ready st xs)
  have "shd (bus_answers b) = st" "stl (bus_answers b) = xs" using waits_ready(2) by (metis stream.sel)+
  then show ?case using waits_ready(1) by (subst wait_while.simps) (simp add: split_beta)
next
  case (waits_busy st xs ys)
  have e: "shd (bus_answers b) = st" "stl (bus_answers b) = xs" using waits_busy(4) by (metis stream.sel)+
  then show ?case using waits_busy(1) waits_busy(3) [of "io_wait (snd (inb KEYBOARD_STATUS_PORT b))"]
    by (subst wait_while.simps) (simp add: split_beta)
qed

lemma flush_output_sound:
  "flush_output b = Some b' \<Longrightarrow> flushed (bus_answers b) (bus_answers b') \<and> sent b' = sent b"
proof (induction rule: flush_output.raw_induct [rotated, consumes 1])
  case (1 flush b b')
  show ?case
  proof (cases "shd (bus_answers b) AND 0x01 = 0")
    case False
    then have "flush (io_wait (snd (inb KEYBOARD_DATA_PORT (snd (inb KEYBOARD_STATUS_PORT b))))) = Some b'"
      using 1(2) by (simp add: split_beta)
    from 1(1) [OF this] have "flushed (stl (stl (bus_answers b))) (bus_answers b')" "sent b' = sent b" by simp_all
    then show ?thesis
      using flushed_byte [of "shd (bus_answers b)" "stl (stl (bus_answers b))" _ "shd (stl (bus_answers b))"] False by simp
  next
    case True
    then have "b' = snd (inb KEYBOARD_STATUS_PORT b)" using 1(2) by (simp add: split_beta)
    then show ?thesis using flushed_empty [of "shd (bus_answers b)" "stl (bus_answers b)"] True by simp
  qed
qed

lemma flush_output_complete: "flushed (bus_answers b) ys \<Longrightarrow> \<exists>b'. flush_output b = Some b' \<and> bus_answers b' = ys"
proof (induction "bus_answers b" ys arbitrary: b rule: flushed.induct)
  case (flushed_empty st xs)
  have "shd (bus_answers b) = st" "stl (bus_answers b) = xs" using flushed_empty(2) by (metis stream.sel)+
  then show ?case using flushed_empty(1) by (subst flush_output.simps) (simp add: split_beta)
next
  case (flushed_byte st xs ys d)
  have e: "shd (bus_answers b) = st" "stl (bus_answers b) = d ## xs" using flushed_byte(4) by (metis stream.sel)+
  then show ?case
    using flushed_byte(1) flushed_byte(3) [of "io_wait (snd (inb KEYBOARD_DATA_PORT (snd (inb KEYBOARD_STATUS_PORT b))))"]
    by (subst flush_output.simps) (simp add: split_beta)
qed

text \<open>A complete dialogue: what the controller answers to \<open>keyboard_init\<close>, with the configuration
  byte it reports.\<close>

definition dialogue :: "8 word stream \<Rightarrow> 8 word \<Rightarrow> 8 word stream \<Rightarrow> bool" where
  "dialogue xs config ys \<longleftrightarrow> (\<exists>a c d e f. waits (\<lambda>st. st AND 0x02 \<noteq> 0) xs a \<and> flushed a (config ## c) \<and>
     waits (\<lambda>st. st AND 0x01 = 0) c d \<and> waits (\<lambda>st. st AND 0x01 = 0) (stl d) e \<and>
     waits (\<lambda>st. st AND 0x01 = 0) (stl e) f \<and> ys = stl f)"

definition init_commands :: "8 word \<Rightarrow> (16 word \<times> 8 word) list" where
  "init_commands config = [(0x64, 0xAD), (0x64, 0xA7), (0x64, 0x20), (0x64, 0x60),
     (0x60, (config OR 0x01) AND NOT 0x10), (0x64, 0xAE), (0x60, 0xFF), (0x60, 0xF4)]"

lemma keyboard_init_sound:
  assumes "keyboard_init b = Some b'"
  shows "\<exists>config. dialogue (bus_answers b) config (bus_answers b') \<and> sent b' = sent b @ init_commands config"
proof -
  let ?out = "\<lambda>p v b. io_wait (outb p v b)" and ?S = KEYBOARD_STATUS_PORT and ?D = KEYBOARD_DATA_PORT
  let ?program = "\<lambda>b. ?out ?D 0xFF (?out ?S 0xAE (?out ?D ((fst (inb ?D (?out ?S 0x20 b)) OR 0x01) AND NOT 0x10)
    (?out ?S 0x60 (snd (inb ?D (?out ?S 0x20 b))))))"
  from assms obtain b1 b2 b3 b4 b5 where run: "wait_while (\<lambda>st. st AND 0x02 \<noteq> 0) b = Some b1"
      "flush_output (?out ?S 0xA7 (?out ?S 0xAD b1)) = Some b2"
      "wait_while (\<lambda>st. st AND 0x01 = 0) (?program b2) = Some b3"
      "wait_while (\<lambda>st. st AND 0x01 = 0) (snd (inb ?D b3)) = Some b4"
      "wait_while (\<lambda>st. st AND 0x01 = 0) (?out ?D 0xF4 (snd (inb ?D b4))) = Some b5"
    and b': "b' = snd (inb ?D b5)"
    by (auto simp: keyboard_init_def Let_def split_beta bind_eq_Some_conv simp del: answers_simps(4))
  note s = run(1) [THEN wait_while_sound] run(2) [THEN flush_output_sound] run(3-5) [THEN wait_while_sound]
  let ?config = "shd (bus_answers b2)"
  have "dialogue (bus_answers b) ?config (bus_answers b')"
    unfolding dialogue_def using s b'
    by (intro exI [of _ "bus_answers b1"] exI [of _ "stl (bus_answers b2)"] exI [of _ "bus_answers b3"]
      exI [of _ "bus_answers b4"] exI [of _ "bus_answers b5"]) simp
  moreover have "sent b' = sent b @ init_commands ?config"
    using s b' by (simp add: init_commands_def port_consts)
  ultimately show ?thesis by blast
qed

lemma keyboard_init_complete:
  assumes "dialogue (bus_answers b) config ys"
  shows "\<exists>b'. keyboard_init b = Some b' \<and> bus_answers b' = ys"
proof -
  let ?out = "\<lambda>p v b. io_wait (outb p v b)" and ?S = KEYBOARD_STATUS_PORT and ?D = KEYBOARD_DATA_PORT
  let ?program = "\<lambda>b. ?out ?D 0xFF (?out ?S 0xAE (?out ?D ((fst (inb ?D (?out ?S 0x20 b)) OR 0x01) AND NOT 0x10)
    (?out ?S 0x60 (snd (inb ?D (?out ?S 0x20 b))))))"
  obtain a c d e f where x: "waits (\<lambda>st. st AND 0x02 \<noteq> 0) (bus_answers b) a" "flushed a (config ## c)"
      "waits (\<lambda>st. st AND 0x01 = 0) c d" "waits (\<lambda>st. st AND 0x01 = 0) (stl d) e"
      "waits (\<lambda>st. st AND 0x01 = 0) (stl e) f" "ys = stl f"
    using assms by (auto simp: dialogue_def)
  obtain b1 where b1: "wait_while (\<lambda>st. st AND 0x02 \<noteq> 0) b = Some b1" "bus_answers b1 = a"
    using wait_while_complete [OF x(1)] by blast
  obtain b2 where b2: "flush_output (?out ?S 0xA7 (?out ?S 0xAD b1)) = Some b2" "bus_answers b2 = config ## c"
    using flush_output_complete [of "?out ?S 0xA7 (?out ?S 0xAD b1)"] x(2) b1(2) by auto
  obtain b3 where b3: "wait_while (\<lambda>st. st AND 0x01 = 0) (?program b2) = Some b3" "bus_answers b3 = d"
    using wait_while_complete [of _ "?program b2"] x(3) b2(2) by (auto simp del: answers_simps(4))
  obtain b4 where b4: "wait_while (\<lambda>st. st AND 0x01 = 0) (snd (inb ?D b3)) = Some b4" "bus_answers b4 = e"
    using wait_while_complete [of _ "snd (inb ?D b3)"] x(4) b3(2) by auto
  obtain b5 where b5: "wait_while (\<lambda>st. st AND 0x01 = 0) (?out ?D 0xF4 (snd (inb ?D b4))) = Some b5" "bus_answers b5 = f"
    using wait_while_complete [of _ "?out ?D 0xF4 (snd (inb ?D b4))"] x(5) b4(2) by auto
  have "keyboard_init b = Some (snd (inb ?D b5))"
    using b1(1) b2(1) b3(1) b4(1) b5(1) by (simp add: keyboard_init_def Let_def split_beta del: answers_simps(4))
  then show ?thesis using b5(2) x(6) by simp
qed

text \<open>A controller that is ready at once, with a configuration byte of \<open>0x45\<close>.\<close>

lemma demo_dialogue: "dialogue ([0, 0, 0x45, 1, 0xFA, 1, 0xAA, 1, 0xFA] @- ys) 0x45 ys"
  unfolding dialogue_def
  by (intro exI [of _ "0 ## 0x45 ## [1, 0xFA, 1, 0xAA, 1, 0xFA] @- ys"]
    exI [of _ "[1, 0xFA, 1, 0xAA, 1, 0xFA] @- ys"] exI [of _ "[0xFA, 1, 0xAA, 1, 0xFA] @- ys"]
    exI [of _ "[0xAA, 1, 0xFA] @- ys"] exI [of _ "[0xFA] @- ys"])
    (simp add: waits_SCons flushed_SCons)

section \<open>Facts about the layouts\<close>

lemma length_tables [simp]:
  "length scancode_to_ascii = 58" "length scancode_to_ascii_shift = 58"
  "length scancode_to_ascii_de = 90" "length scancode_to_ascii_de_shift = 90"
  by (simp_all add: scancode_to_ascii_def scancode_to_ascii_shift_def scancode_to_ascii_de_def scancode_to_ascii_de_shift_def)

definition layout :: "keys \<Rightarrow> char list" where
  "layout ks = (if use_german_layout ks
     then if shift_pressed ks then scancode_to_ascii_de_shift else scancode_to_ascii_de
     else if shift_pressed ks then scancode_to_ascii_shift else scancode_to_ascii)"

lemma length_table: "length (layout ks) = (if use_german_layout ks then 90 else 58)"
  by (simp add: layout_def)

lemma scancode_ascii_eq: "scancode_ascii ks sc =
   (if unat sc < length (layout ks) then Some (apply_caps ks (layout ks ! unat sc)) else None)"
  by (simp add: scancode_ascii_def layout_def)

text \<open>What a key can produce: nothing, a newline, or a printable character.\<close>

definition typed :: "char \<Rightarrow> bool" where
  "typed c \<longleftrightarrow> c = NUL \<or> c = NL \<or> (32 \<le> (of_char c :: nat) \<and> (of_char c :: nat) < 127)"

lemma table_typed: "list_all typed (layout ks)"
  by (simp add: layout_def typed_def scancode_to_ascii_def scancode_to_ascii_shift_def scancode_to_ascii_de_def
    scancode_to_ascii_de_shift_def list_all_iff)

definition lower :: "char \<Rightarrow> bool" where
  "lower c \<longleftrightarrow> 97 \<le> (of_char c :: nat) \<and> (of_char c :: nat) \<le> 122"

definition upper_of :: "char \<Rightarrow> char" where
  "upper_of c = char_of ((of_char c :: nat) - 32)"

lemma c_int_nat: "c_int c = (if (of_char c :: nat) < 128 then int (of_char c) else int (of_char c) - 256)"
proof -
  have "(of_char c :: int) = int (of_char c)" by (simp add: of_nat_of_char)
  then show ?thesis by (simp add: c_int_def)
qed

lemma c_int_lower: "c_int (CHR ''a'') \<le> c_int c \<and> c_int c \<le> c_int (CHR ''z'') \<longleftrightarrow> lower c"
  by (auto simp: c_int_nat lower_def) (use nat_of_char_less_256 [of c] in linarith)

lemma apply_caps_eq: "apply_caps ks c = (if caps_lock ks \<and> lower c then upper_of c else c)"
proof (cases "lower c")
  case True
  then have "c_int c - c_int (CHR ''a'') + c_int (CHR ''A'') = int (of_char c - 32)"
    by (simp add: c_int_nat lower_def of_nat_diff)
  then have "char_of (c_int c - c_int (CHR ''a'') + c_int (CHR ''A'')) = upper_of c"
    unfolding upper_of_def by (metis char_of_nat)
  then show ?thesis using True c_int_lower [of c] by (simp add: apply_caps_def)
next
  case False
  then show ?thesis using c_int_lower [of c] by (auto simp: apply_caps_def)
qed

lemma of_upper:
  assumes "lower c"
  shows "of_char (upper_of c) = (of_char c :: nat) - 32"
proof -
  have "(of_char c :: nat) - 32 < 256" using assms unfolding lower_def by linarith
  then show ?thesis by (simp add: upper_of_def)
qed

lemma typed_upper:
  assumes "lower c"
  shows "typed (upper_of c)"
proof -
  have "32 \<le> (of_char (upper_of c) :: nat)" "(of_char (upper_of c) :: nat) < 127"
    using assms unfolding of_upper [OF assms] lower_def by linarith+
  then show ?thesis by (simp add: typed_def)
qed

lemma scancode_ascii_typed: "scancode_ascii ks sc = Some c \<Longrightarrow> typed c"
  using table_typed [of ks] typed_upper
  by (auto simp: scancode_ascii_eq apply_caps_eq list_all_length split: if_splits)

text \<open>A letter key gives the capital of its letter with Shift, on both layouts.\<close>

definition shifts :: "char \<Rightarrow> char \<Rightarrow> bool" where
  "shifts c c' \<longleftrightarrow> (lower c \<longrightarrow> c' = upper_of c)"

lemma shift_table_us: "list_all2 shifts scancode_to_ascii scancode_to_ascii_shift"
  by code_simp

lemma shift_table_de: "list_all2 shifts (scancode_to_ascii_de[12 := NUL]) scancode_to_ascii_de_shift"
  by code_simp

lemma shift_capital:
  assumes "shift_pressed ks = False" and "lower (layout ks ! i)" and "i < length (layout ks)"
    and "\<not> (use_german_layout ks \<and> i = 12)"
  shows "layout (ks\<lparr>shift_pressed := True\<rparr>) ! i = upper_of (layout ks ! i)"
proof (cases "use_german_layout ks")
  case True
  then show ?thesis using list_all2_nthD [OF shift_table_de, of i] assms by (simp add: layout_def shifts_def)
next
  case False
  then show ?thesis using list_all2_nthD [OF shift_table_us, of i] assms by (simp add: layout_def shifts_def)
qed

lemma table_caps: "layout (ks\<lparr>caps_lock := b\<rparr>) = layout ks"
  by (simp add: layout_def)

lemma upper_not_lower: "lower c \<Longrightarrow> \<not> lower (upper_of c)"
  unfolding lower_def [of "upper_of c"] using of_upper [of c] unfolding lower_def by linarith

text \<open>The two halves of a 32-bit address in a gate.\<close>

definition gate_address :: "idt_entry \<Rightarrow> 32 word" where
  "gate_address e = push_bit 16 (ucast (offset_high e)) OR ucast (offset_low e)"

lemma gate_halves:
  "push_bit 16 (ucast (ucast (drop_bit 16 (a :: 32 word) AND 0xFFFF) :: 16 word)) OR ucast (ucast (a AND 0xFFFF) :: 16 word) = a"
proof -
  have m: "(0xFFFF :: 32 word) = mask 16" by (simp add: mask_eq_exp_minus_1)
  show ?thesis unfolding m by (rule bit_word_eqI) (auto simp: bit_simps)
qed

lemma idt_set_entry_ok:
  assumes "n < length gates"
  shows "yields (idt_set_entry (int n) handler sel attr gates) (\<lambda>g. length g = length gates \<and>
    gate_address (g ! n) = handler \<and> (\<forall>m. m \<noteq> n \<longrightarrow> g ! m = gates ! m))"
  using assms gate_halves [of handler] by (simp add: idt_set_entry_def gate_address_def)

section \<open>Properties\<close>

text \<open>C26: \<open>keyboard_init\<close> returns exactly when the controller takes part in the dialogue: its input
  buffer drains, its output buffer is emptied by finitely many reads, it reports a configuration,
  and the acknowledgements and the self-test result arrive. Otherwise the kernel polls for ever.\<close>

theorem keyboard_init_returns:
  "keyboard_init b \<noteq> None \<longleftrightarrow> (\<exists>config ys. dialogue (bus_answers b) config ys)"
  using keyboard_init_sound [of b] keyboard_init_complete [of b] by blast

text \<open>C27: when \<open>keyboard_init\<close> returns it has consumed exactly the dialogue, and it has sent exactly
  these bytes in this order: both ports disabled, the configuration read and written back with
  the interrupt of port 1 enabled and its clock not disabled, port 1 enabled, reset, scanning
  enabled.\<close>

theorem keyboard_init_programs:
  assumes "keyboard_init b = Some b'"
  shows "\<exists>config. dialogue (bus_answers b) config (bus_answers b') \<and> sent b' = sent b @ init_commands config"
  using assms by (rule keyboard_init_sound)

lemma keyboard_init_programs_witness:
  "\<exists>b'. keyboard_init \<lparr>bus_answers = [0, 0, 0x45, 1, 0xFA, 1, 0xAA, 1, 0xFA] @- sconst 0, bus_log = []\<rparr> = Some b' \<and>
    (\<exists>config. dialogue ([0, 0, 0x45, 1, 0xFA, 1, 0xAA, 1, 0xFA] @- sconst 0) config (bus_answers b') \<and>
      sent b' = init_commands config)"
proof -
  let ?b = "\<lparr>bus_answers = [0, 0, 0x45, 1, 0xFA, 1, 0xAA, 1, 0xFA] @- sconst 0, bus_log = []\<rparr>"
  obtain b' where b': "keyboard_init ?b = Some b'" using keyboard_init_complete [of ?b] demo_dialogue [of "sconst 0"] by auto
  have "sent ?b = []" by (simp add: sent_def)
  with keyboard_init_programs [OF b'] b' show ?thesis by auto
qed

text \<open>C28: a key that gives a letter gives its capital with Shift and gives the same capital with
  Caps Lock, on both layouts; the one exception is the key of the German sharp s, which is shown
  as \<open>s\<close> and has the question mark above it.\<close>

theorem caps_is_shift_on_letters:
  assumes "scancode_ascii \<lparr>shift_pressed = False, caps_lock = False, use_german_layout = german\<rparr> scancode = Some c"
    and "lower c" and "\<not> (german \<and> unat scancode = 12)"
  shows "scancode_ascii \<lparr>shift_pressed = False, caps_lock = True, use_german_layout = german\<rparr> scancode = Some (upper_of c) \<and>
    scancode_ascii \<lparr>shift_pressed = True, caps_lock = caps, use_german_layout = german\<rparr> scancode = Some (upper_of c)"
proof -
  let ?ks = "\<lparr>shift_pressed = False, caps_lock = False, use_german_layout = german\<rparr>"
  have i: "unat scancode < length (layout ?ks)" "c = layout ?ks ! unat scancode"
    using assms(1) by (auto simp: scancode_ascii_eq apply_caps_eq split: if_splits)
  have "scancode_ascii (?ks\<lparr>caps_lock := True\<rparr>) scancode = Some (upper_of c)"
    using i assms(2) table_caps [where ks = ?ks and b = True] by (simp add: scancode_ascii_eq apply_caps_eq)
  moreover have "layout (?ks\<lparr>shift_pressed := True\<rparr>) ! unat scancode = upper_of c"
    using shift_capital [of ?ks "unat scancode"] i assms(2,3) by simp
  then have "scancode_ascii \<lparr>shift_pressed = True, caps_lock = caps, use_german_layout = german\<rparr> scancode = Some (upper_of c)"
    using i(1) upper_not_lower [OF assms(2)] table_caps [where ks = "?ks\<lparr>shift_pressed := True\<rparr>" and b = caps]
    by (simp add: scancode_ascii_eq apply_caps_eq length_table)
  ultimately show ?thesis by simp
qed

lemma caps_is_shift_on_letters_witness:
  "scancode_ascii \<lparr>shift_pressed = True, caps_lock = False, use_german_layout = True\<rparr> 0x15 = Some (CHR ''Z'')"
proof -
  have "scancode_ascii \<lparr>shift_pressed = False, caps_lock = False, use_german_layout = True\<rparr> 0x15 = Some (CHR ''z'')"
    by code_simp
  moreover have "lower (CHR ''z'')" "upper_of (CHR ''z'') = CHR ''Z''" by code_simp+
  ultimately show ?thesis using caps_is_shift_on_letters [where german = True and scancode = "0x15" and c = "CHR ''z''" and caps = False] by simp
qed

text \<open>C29: setting a gate of the interrupt table splits the handler's address so that the two halves
  give it back, marks the gate as it is told, and leaves the other 255 gates alone.\<close>

theorem idt_gate_roundtrip:
  assumes "length idt = IDT_SIZE" and "n < IDT_SIZE"
  shows "yields (idt_set_entry (int n) handler sel attr idt) (\<lambda>idt'. length idt' = IDT_SIZE \<and>
    push_bit 16 (ucast (offset_high (idt' ! n))) OR ucast (offset_low (idt' ! n)) = handler \<and>
    selector (idt' ! n) = sel \<and> type_attr (idt' ! n) = attr \<and> zero (idt' ! n) = 0 \<and>
    (\<forall>m. m \<noteq> n \<longrightarrow> idt' ! m = idt ! m))"
proof -
  have "push_bit 16 (ucast (ucast (drop_bit 16 handler AND 0xFFFF) :: 16 word)) OR ucast (ucast (handler AND 0xFFFF) :: 16 word) = handler"
    by (rule gate_halves)
  then show ?thesis using assms by (simp add: idt_set_entry_def)
qed

lemma idt_gate_roundtrip_witness:
  "yields (idt_set_entry 33 0x00012345 8 0x8E (replicate 256 \<lparr>offset_low = 0, selector = 0, zero = 0, type_attr = 0, offset_high = 0\<rparr>))
    (\<lambda>idt'. push_bit 16 (ucast (offset_high (idt' ! 33))) OR ucast (offset_low (idt' ! 33)) = (0x00012345 :: 32 word))"
  using idt_gate_roundtrip [where idt = "replicate 256 \<lparr>offset_low = 0, selector = 0, zero = 0, type_attr = 0, offset_high = 0\<rparr>"
    and n = 33 and handler = "0x00012345" and sel = 8 and attr = "0x8E"]
  by (auto simp: IDT_SIZE_def elim: yields_mono)

end
