(* ===== verification/Shell_Parse.thy ===== *)
theory Shell_Parse
  imports C_String
begin

text \<open>
  Splitting a command line into a command and two arguments (\<open>parse_command_args\<close> of
  \<open>src/kernel/kernel.c\<close>): the state machine over the characters, and the words it finds.
\<close>

section \<open>The code\<close>

record parser =
  parse_state :: int
  cmd_len :: nat
  arg1_len :: nat
  arg2_len :: nat
  cmd :: "char list"
  arg1 :: "char list"
  arg2 :: "char list"

definition put_cmd :: "char \<Rightarrow> parser \<Rightarrow> parser option" where
  "put_cmd c p = do { a \<leftarrow> arr_set (cmd p) (cmd_len p) c; Some (p\<lparr>cmd := a, cmd_len := cmd_len p + 1\<rparr>) }"

definition put_arg1 :: "char \<Rightarrow> parser \<Rightarrow> parser option" where
  "put_arg1 c p = do { a \<leftarrow> arr_set (arg1 p) (arg1_len p) c; Some (p\<lparr>arg1 := a, arg1_len := arg1_len p + 1\<rparr>) }"

definition put_arg2 :: "char \<Rightarrow> parser \<Rightarrow> parser option" where
  "put_arg2 c p = do { a \<leftarrow> arr_set (arg2 p) (arg2_len p) c; Some (p\<lparr>arg2 := a, arg2_len := arg2_len p + 1\<rparr>) }"

definition parse_char :: "char \<Rightarrow> parser \<Rightarrow> parser option" where
  "parse_char c p =
     (if parse_state p = 0 then
        if c = CHR '' '' then do {
          a \<leftarrow> arr_set (cmd p) (cmd_len p) NUL;
          Some (p\<lparr>cmd := a, parse_state := 1\<rparr>) }
        else if cmd_len p < 63 then put_cmd c p
        else Some p
      else if parse_state p = 1 then
        if c \<noteq> CHR '' '' then do { p \<leftarrow> put_arg1 c p; Some (p\<lparr>parse_state := 2\<rparr>) }
        else Some p
      else if parse_state p = 2 then
        if c = CHR '' '' then do {
          a \<leftarrow> arr_set (arg1 p) (arg1_len p) NUL;
          Some (p\<lparr>arg1 := a, parse_state := 3\<rparr>) }
        else if arg1_len p < 63 then put_arg1 c p
        else Some p
      else if parse_state p = 3 then
        if c \<noteq> CHR '' '' then do { p \<leftarrow> put_arg2 c p; Some (p\<lparr>parse_state := 4\<rparr>) }
        else Some p
      else if parse_state p = 4 then
        if c \<noteq> CHR '' '' \<and> arg2_len p < 63 then put_arg2 c p
        else Some p
      else Some p)"

function parse_loop :: "char list \<Rightarrow> nat \<Rightarrow> parser \<Rightarrow> parser option" where
  "parse_loop command i p = do {
     c \<leftarrow> arr_get command i;
     if c \<noteq> NUL \<and> i < 255 then do {
       p \<leftarrow> parse_char c p;
       parse_loop command (i + 1) p }
     else Some p }"
  by pat_completeness auto
termination by (relation "measure (\<lambda>(command, i, p). 256 - i)") auto

declare parse_loop.simps [simp del]

definition parse_command_args ::
  "char list \<Rightarrow> char list \<Rightarrow> char list \<Rightarrow> char list \<Rightarrow> (char list \<times> char list \<times> char list) option" where
  "parse_command_args command c a b = do {
     c \<leftarrow> arr_set c 0 NUL;
     a \<leftarrow> arr_set a 0 NUL;
     b \<leftarrow> arr_set b 0 NUL;
     p \<leftarrow> parse_loop command 0 \<lparr>parse_state = 0, cmd_len = 0, arg1_len = 0, arg2_len = 0, cmd = c, arg1 = a, arg2 = b\<rparr>;
     c \<leftarrow> arr_set (cmd p) (cmd_len p) NUL;
     a \<leftarrow> arr_set (arg1 p) (arg1_len p) NUL;
     b \<leftarrow> arr_set (arg2 p) (arg2_len p) NUL;
     Some (c, a, b) }"

section \<open>The words of a line\<close>

abbreviation blank :: "char \<Rightarrow> bool" where "blank c \<equiv> c = CHR '' ''"

definition first_word :: "string \<Rightarrow> string" where
  "first_word x = takeWhile (\<lambda>c. \<not> blank c) x"

definition next_words :: "string \<Rightarrow> string" where
  "next_words x = dropWhile blank (dropWhile (\<lambda>c. \<not> blank c) x)"

text \<open>The third part collects all remaining words without the blanks between them.\<close>

definition parse_spec :: "string \<Rightarrow> string \<times> string \<times> string" where
  "parse_spec line = (let x = take 255 line; y = next_words x; z = next_words y in
     (take 63 (first_word x), take 63 (first_word y), take 63 (filter (\<lambda>c. \<not> blank c) z)))"

section \<open>The state machine finds the words\<close>

text \<open>The states with the characters collected so far.\<close>

type_synonym words = "int \<times> string \<times> string \<times> string"

fun collect :: "char \<Rightarrow> words \<Rightarrow> words" where
  "collect c (st, x, y, z) =
     (if st = 0 then if blank c then (1, x, y, z) else (0, take 63 (x @ [c]), y, z)
      else if st = 1 then if blank c then (1, x, y, z) else (2, x, y @ [c], z)
      else if st = 2 then if blank c then (3, x, y, z) else (2, x, take 63 (y @ [c]), z)
      else if st = 3 then if blank c then (3, x, y, z) else (4, x, y, z @ [c])
      else if st = 4 then if blank c then (4, x, y, z) else (4, x, y, take 63 (z @ [c]))
      else (st, x, y, z))"

lemma take_take_snoc: "take n (take n (z @ [c]) @ s) = take n (z @ c # s)"
  by (cases "length z < n") (simp_all add: not_less)

lemma collect_4: "length z \<le> 63 \<Longrightarrow> fold collect s (4, x, y, z) = (4, x, y, take 63 (z @ filter (\<lambda>c. \<not> blank c) s))"
proof (induction s arbitrary: z)
  case (Cons c s)
  then show ?case by (cases "blank c") (simp_all add: take_take_snoc del: take_append)
qed simp

lemma next_words_simps [simp]:
  "next_words [] = []" "next_words (CHR '' '' # s) = dropWhile blank s"
  "\<not> blank c \<Longrightarrow> next_words (c # s) = next_words s"
  by (simp_all add: next_words_def)

lemma first_word_simps [simp]:
  "first_word [] = []" "first_word (CHR '' '' # s) = []" "\<not> blank c \<Longrightarrow> first_word (c # s) = c # first_word s"
  by (simp_all add: first_word_def)

lemma collect_3: "snd (fold collect s (3, x, y, [])) = (x, y, take 63 (filter (\<lambda>c. \<not> blank c) (dropWhile blank s)))"
proof (induction s)
  case (Cons c s)
  have "fold collect s (4, x, y, [c]) = (4, x, y, take 63 ([c] @ filter (\<lambda>c. \<not> blank c) s))" by (rule collect_4) simp
  then show ?case using Cons by simp
qed simp

lemma collect_2:
  assumes "length y \<le> 63"
  shows "snd (fold collect s (2, x, y, [])) =
    (x, take 63 (y @ first_word s), take 63 (filter (\<lambda>c. \<not> blank c) (next_words s)))"
  using assms
proof (induction s arbitrary: y)
  case (Cons c s)
  then show ?case
    by (cases "blank c") (simp_all add: collect_3 take_take_snoc del: take_append)
qed simp

lemma collect_1:
  "snd (fold collect s (1, x, [], [])) = (let y = dropWhile blank s in
     (x, take 63 (first_word y), take 63 (filter (\<lambda>c. \<not> blank c) (next_words y))))"
proof (induction s)
  case (Cons c s)
  have "snd (fold collect s (2, x, [c], [])) = (x, take 63 ([c] @ first_word s), take 63 (filter (\<lambda>c. \<not> blank c) (next_words s)))"
    by (rule collect_2) simp
  then show ?case using Cons by (cases "blank c") (simp_all add: Let_def)
qed simp

lemma collect_0:
  assumes "length x \<le> 63"
  shows "snd (fold collect s (0, x, [], [])) = (let y = next_words s in
     (take 63 (x @ first_word s), take 63 (first_word y), take 63 (filter (\<lambda>c. \<not> blank c) (next_words y))))"
  using assms
proof (induction s arbitrary: x)
  case (Cons c s)
  then show ?case
    by (cases "blank c") (simp_all add: collect_1 Let_def take_take_snoc del: take_append)
qed simp

text \<open>The arrays hold the collected characters.\<close>

definition holds :: "char list \<Rightarrow> nat \<Rightarrow> string \<Rightarrow> bool" where
  "holds a n x \<longleftrightarrow> n = length x \<and> length x \<le> 63 \<and> length a = 64 \<and> take n a = x"

definition parsed :: "words \<Rightarrow> parser \<Rightarrow> bool" where
  "parsed w p \<longleftrightarrow> (case w of (st, x, y, z) \<Rightarrow> parse_state p = st \<and>
     holds (cmd p) (cmd_len p) x \<and> holds (arg1 p) (arg1_len p) y \<and> holds (arg2 p) (arg2_len p) z)"

lemma holds_next: "holds a n x \<Longrightarrow> length x < 63 \<Longrightarrow> holds (a[n := c]) (n + 1) (x @ [c])"
  by (auto simp: holds_def take_Suc_conv_app_nth)

lemma holds_first: "holds a 0 [] \<Longrightarrow> holds (a[0 := c]) 1 [c]"
  using holds_next [of a 0 "[]" c] by simp

lemma holds_end: "holds a n x \<Longrightarrow> holds (a[n := c]) n x" "holds a n x \<Longrightarrow> n < length a"
  by (auto simp: holds_def)

lemma holds_cstr: "holds a n x \<Longrightarrow> NUL \<notin> set x \<Longrightarrow> terminated (a[n := NUL]) \<and> cstr (a[n := NUL]) = x"
  by (auto simp: holds_def upd_conv_take_nth_drop cstr_append)

lemma parse_char_collect:
  assumes "parsed w p" and c: "fst w = 1 \<Longrightarrow> fst (snd (snd w)) = []" "fst w = 3 \<Longrightarrow> snd (snd (snd w)) = []"
  shows "yields (parse_char c p) (parsed (collect c w))"
proof -
  obtain st x y z where w: "w = (st, x, y, z)" by (cases w)
  note h = assms(1) [unfolded parsed_def w prod.case]
  have len: "cmd_len p = length x" "arg1_len p = length y" "arg2_len p = length z" "length x \<le> 63" "length y \<le> 63" "length z \<le> 63"
    using h by (simp_all add: holds_def)
  have in_bounds: "cmd_len p < length (cmd p)" "arg1_len p < length (arg1 p)" "arg2_len p < length (arg2 p)"
    using h holds_end(2) by blast+
  note put = put_cmd_def put_arg1_def put_arg2_def
  note e = holds_end(1) [of _ _ _ NUL]
  note n = holds_next [of _ _ _ c]
  show ?thesis
    using h c in_bounds len
    by (auto simp: w parse_char_def parsed_def put e n holds_first simp del: One_nat_def add_Suc_right)
qed

fun waiting :: "words \<Rightarrow> bool" where \<comment> \<open>the arguments not begun are empty\<close>
  "waiting (st, x, y, z) \<longleftrightarrow> (st \<le> 1 \<longrightarrow> y = []) \<and> (st \<le> 3 \<longrightarrow> z = [])"

lemma waiting_collect: "waiting w \<Longrightarrow> 0 \<le> fst w \<Longrightarrow> waiting (collect c w) \<and> 0 \<le> fst (collect c w)"
  by (cases w) simp

lemma parse_loop_collects:
  assumes "terminated command" and "i \<le> length (cstr command)"
    and "parsed w p" and "waiting w" and "0 \<le> fst w"
  shows "yields (parse_loop command i p) (parsed (fold collect (drop i (take 255 (cstr command))) w))"
  using assms
proof (induction command i p arbitrary: w rule: parse_loop.induct)
  case (1 command i p)
  have i: "i < length command" using 1(2,3) length_cstr_less [of command] by simp
  obtain r where cmd: "command = cstr command @ NUL # r" using 1(2) by (rule terminatedE)
  have get: "arr_get command i = Some (command ! i)" using i by simp
  show ?case
  proof (cases "i < length (cstr command) \<and> i < 255")
    case True
    let ?c = "cstr command ! i"
    have c: "command ! i = ?c" using True cmd by (metis nth_append)
    have "?c \<in> set (cstr command)" using True by simp
    then have "?c \<noteq> NUL" using NUL_notin_cstr [of command] by metis
    then have go: "parse_loop command i p = do { p \<leftarrow> parse_char ?c p; parse_loop command (i + 1) p }"
      using get c True by (subst parse_loop.simps) simp
    have wa: "fst w = 1 \<Longrightarrow> fst (snd (snd w)) = []" "fst w = 3 \<Longrightarrow> snd (snd (snd w)) = []" using 1(5) by (cases w; simp)+
    obtain p' where p': "parse_char ?c p = Some p'" "parsed (collect ?c w) p'"
      using parse_char_collect [OF 1(4) wa] by (rule yieldsE) blast
    note wt = waiting_collect [OF 1(5,6), of ?c]
    have "yields (parse_loop command (i + 1) p') (parsed (fold collect (drop (i + 1) (take 255 (cstr command))) (collect ?c w)))"
      using 1(1) [OF get _ _ 1(2) _ p'(2)] p' wt True c \<open>?c \<noteq> NUL\<close> by auto
    moreover have "drop i (take 255 (cstr command)) = ?c # drop (i + 1) (take 255 (cstr command))"
      using True by (subst Cons_nth_drop_Suc [symmetric]) simp_all
    ultimately show ?thesis unfolding go p' by simp
  next
    case False
    have "command ! i = NUL \<or> 255 \<le> i"
    proof (cases "i < 255")
      case True
      then have "i = length (cstr command)" using False 1(3) by simp
      then show ?thesis using cmd by (metis nth_append_length)
    qed simp
    then have "parse_loop command i p = Some p" using get by (subst parse_loop.simps) auto
    then show ?thesis using False 1(4) by auto
  qed
qed

lemma NUL_parse_spec: "NUL \<notin> set x \<Longrightarrow> parse_spec x = (c, a, b) \<Longrightarrow> NUL \<notin> set c \<and> NUL \<notin> set a \<and> NUL \<notin> set b"
  by (auto simp: parse_spec_def Let_def first_word_def next_words_def dest!: in_set_takeD set_takeWhileD set_dropWhileD)

lemma length_parse_spec: "parse_spec x = (c, a, b) \<Longrightarrow> length c \<le> 63 \<and> length a \<le> 63 \<and> length b \<le> 63"
  by (auto simp: parse_spec_def Let_def)

lemma parse_command_args_eq:
  assumes line: "terminated command" and "length c = 64" and "length a = 64" and "length b = 64"
  shows "yields (parse_command_args command c a b) (\<lambda>(c', a', b').
    terminated c' \<and> terminated a' \<and> terminated b' \<and> length c' = 64 \<and> length a' = 64 \<and> length b' = 64 \<and>
    (cstr c', cstr a', cstr b') = parse_spec (cstr command))"
proof -
  let ?p = "\<lparr>parse_state = 0, cmd_len = 0, arg1_len = 0, arg2_len = 0, cmd = c[0 := NUL], arg1 = a[0 := NUL], arg2 = b[0 := NUL]\<rparr>"
  let ?w = "fold collect (take 255 (cstr command)) (0, [], [], [])"
  have "parsed (0, [], [], []) ?p" using assms(2-4) by (simp add: parsed_def holds_def)
  then obtain p where p: "parse_loop command 0 ?p = Some p" "parsed ?w p"
    using parse_loop_collects [OF line, of 0 "(0, [], [], [])" ?p] by (auto simp: yields_iff)
  obtain st x y z where w: "?w = (st, x, y, z)" by (cases ?w)
  have ps: "parse_spec (cstr command) = (x, y, z)"
    using collect_0 [of "[]" "take 255 (cstr command)"] unfolding w by (simp add: parse_spec_def Let_def)
  then have n: "NUL \<notin> set x" "NUL \<notin> set y" "NUL \<notin> set z" using NUL_parse_spec [OF _ ps] by simp_all
  have h: "holds (cmd p) (cmd_len p) x" "holds (arg1 p) (arg1_len p) y" "holds (arg2 p) (arg2_len p) z"
    using p(2) unfolding w parsed_def by simp_all
  have "parse_command_args command c a b =
      Some ((cmd p)[cmd_len p := NUL], (arg1 p)[arg1_len p := NUL], (arg2 p)[arg2_len p := NUL])"
    using assms(2-4) p(1) holds_end(2) [OF h(1)] holds_end(2) [OF h(2)] holds_end(2) [OF h(3)]
    by (simp add: parse_command_args_def)
  then show ?thesis using holds_cstr [OF h(1) n(1)] holds_cstr [OF h(2) n(2)] holds_cstr [OF h(3) n(3)] h ps
    by (simp add: holds_def)
qed

section \<open>Properties\<close>

text \<open>C10: on every terminated line and whatever the three 64-byte buffers hold, the state machine of
  \<open>parse_command_args\<close> stays inside the buffers and finds the words of the first 255 characters:
  the command, the first argument, and everything after it without its blanks, each cut to 63
  characters.\<close>

theorem parse_equals_spec:
  assumes "terminated command" and "length c = 64" and "length a = 64" and "length b = 64"
  shows "yields (parse_command_args command c a b) (\<lambda>(c', a', b').
    terminated c' \<and> terminated a' \<and> terminated b' \<and> (cstr c', cstr a', cstr b') = parse_spec (cstr command))"
  using parse_command_args_eq [OF assms] by (rule yields_mono) auto

lemma parse_equals_spec_witness:
  "yields (parse_command_args (lit ''write  notes two words'') (replicate 64 NUL) (replicate 64 NUL) (replicate 64 NUL))
    (\<lambda>(c', a', b'). (cstr c', cstr a', cstr b') = (''write'', ''notes'', ''twowords''))"
proof -
  have "parse_spec ''write  notes two words'' = (''write'', ''notes'', ''twowords'')" by code_simp
  then show ?thesis
    using parse_equals_spec [of "lit ''write  notes two words''" "replicate 64 NUL" "replicate 64 NUL" "replicate 64 NUL"]
    by (auto simp: cstr_lit elim!: yields_mono)
qed

end
