(* ===== verification/Shell_Output.thy ===== *)
theory Shell_Output
  imports Terminal
begin

text \<open>
  What the shell's commands print: \<open>terminal_writestring\<close> of a literal, \<open>terminal_setcolor\<close> on
  black, and the output they produce together, a list of texts and inks that the abstract
  terminal is fed with.
\<close>

text \<open>\<open>terminal_writestring("...")\<close> and \<open>terminal_setcolor(vga_entry_color(c, VGA_COLOR_BLACK))\<close>.\<close>

definition print :: "string \<Rightarrow> terminal \<Rightarrow> terminal option" where
  "print x t = terminal_writestring (lit x) t"

definition ink :: "vga_color \<Rightarrow> terminal \<Rightarrow> terminal option" where
  "ink c t = Some (terminal_setcolor (vga_entry_color c VGA_COLOR_BLACK) t)"

section \<open>Output\<close>

datatype seg = Say string | Ink vga_color

type_synonym printout = "seg list"

fun show_seg :: "seg \<Rightarrow> 8 word \<times> tty \<Rightarrow> 8 word \<times> tty" where
  "show_seg (Say x) v = fold tty_step x v"
| "show_seg (Ink c) v = (vga_entry_color c VGA_COLOR_BLACK, snd v)"

definition displays :: "printout \<Rightarrow> terminal \<Rightarrow> terminal option \<Rightarrow> bool" where
  "displays xs t m \<longleftrightarrow> yields m (\<lambda>t'. terminal_ok t' \<and> tty_view t' = fold show_seg xs (tty_view t))"

named_theorems displays_intros \<open>what the printing operations display\<close>

lemma displays_return [displays_intros]: "terminal_ok t \<Longrightarrow> displays [] t (Some t)"
  by (simp add: displays_def)

lemma displays_string [displays_intros]:
  assumes "terminal_ok t" and "terminated a"
  shows "displays [Say (cstr a)] t (terminal_writestring a t)"
  using terminal_writestring_ok [OF assms] unfolding displays_def
  by (rule yields_mono) (simp add: tty_view_def fold_tty_step)

lemma displays_print [displays_intros]: "terminal_ok t \<Longrightarrow> NUL \<notin> set x \<Longrightarrow> displays [Say x] t (print x t)"
  using displays_string [of t "lit x"] by (simp add: print_def cstr_lit)

lemma displays_ink [displays_intros]: "terminal_ok t \<Longrightarrow> displays [Ink c] t (ink c t)"
  by (simp add: displays_def ink_def terminal_ok_def terminal_setcolor_def tty_view_def tty_of_def)

lemma displays_bind:
  assumes "displays xs t m" and "\<And>t'. terminal_ok t' \<Longrightarrow> displays ys t' (f t')"
  shows "displays (xs @ ys) t (Option.bind m f)"
proof -
  obtain t' where t': "m = Some t'" "terminal_ok t'" "tty_view t' = fold show_seg xs (tty_view t)"
    using assms(1) by (auto simp: displays_def yields_iff)
  then show ?thesis using assms(2) [OF t'(2)] by (simp add: displays_def)
qed

lemma displays_then [displays_intros]:
  assumes "displays [x] t m" and "\<And>t'. terminal_ok t' \<Longrightarrow> displays ys t' (f t')"
  shows "displays (x # ys) t (Option.bind m f)"
  using displays_bind [OF assms] by simp

lemma displays_if [displays_intros]:
  "(b \<Longrightarrow> displays xs t m) \<Longrightarrow> (\<not> b \<Longrightarrow> displays ys t n) \<Longrightarrow>
    displays (if b then xs else ys) t (if b then m else n)"
  by simp

lemma displays_ofold:
  assumes "terminal_ok t" and "\<And>i t. terminal_ok t \<Longrightarrow> i \<in> set is \<Longrightarrow> displays (g i) t (f i t)"
  shows "displays (concat (map g is)) t (ofold f is t)"
  using assms
proof (induction "is" arbitrary: t)
  case (Cons i "is")
  have "displays (g i @ concat (map g is)) t (do { t \<leftarrow> f i t; ofold f is t })"
    by (rule displays_bind) (use Cons in auto)
  then show ?case by simp
qed (simp add: displays_return)

lemma displays_cong: "displays xs t m \<Longrightarrow> xs = ys \<Longrightarrow> displays ys t m"
  by simp

lemma displays_ok: "displays xs t m \<Longrightarrow> yields m terminal_ok"
  by (auto simp: displays_def elim: yields_mono)

lemma displays_Some: "displays xs t (Some t') \<longleftrightarrow> terminal_ok t' \<and> tty_view t' = fold show_seg xs (tty_view t)"
  by (simp add: displays_def)

end
