(* ===== verification/Shell_Print.thy ===== *)
theory Shell_Print
  imports Shell_Output File_System Fs_Text Decimal
begin

text \<open>
  The shell commands that only print (\<open>help\<close>, \<open>version\<close>, \<open>pwd\<close>, \<open>echo\<close>, \<open>ls\<close>, \<open>cat\<close>, \<open>stat\<close>,
  \<open>tree\<close> of \<open>process_command\<close>, and \<open>shell_prompt\<close>, in \<open>src/kernel/kernel.c\<close>), and what they print
  for a well-formed file system.
\<close>

abbreviation QUOTE :: char where "QUOTE \<equiv> CHR 0x27"

section \<open>The code\<close>

text \<open>A sequence of \<open>terminal_writestring\<close> and \<open>terminal_setcolor\<close> calls.\<close>

fun print_seg :: "seg \<Rightarrow> terminal \<Rightarrow> terminal option" where
  "print_seg (Say x) t = print x t"
| "print_seg (Ink c) t = ink c t"

definition prints :: "printout \<Rightarrow> terminal \<Rightarrow> terminal option" where
  "prints xs t = ofold print_seg xs t"

text \<open>\<open>p->...\<close>, and the test \<open>p && p->type == FILE_TYPE_DIRECTORY\<close>.\<close>

definition load :: "ptr option \<Rightarrow> fs_state \<Rightarrow> fs_node option" where
  "load p s = do { q \<leftarrow> p; node_at s q }"

definition is_dir :: "ptr option \<Rightarrow> fs_state \<Rightarrow> bool option" where
  "is_dir p s = (if p = None then Some False
     else do { d \<leftarrow> load p s; Some (node_type d = FILE_TYPE_DIRECTORY) })"

definition help_text :: printout where
  "help_text = [
     Say (''PhantomOS Shell Commands (POSIX-compatible):'' @ [NL, NL]),
     Ink VGA_COLOR_LIGHT_CYAN,
     Say (''Basic Commands:'' @ [NL]),
     Ink VGA_COLOR_WHITE,
     Say (''  help         - Show this help message'' @ [NL]),
     Say (''  clear        - Clear the screen'' @ [NL]),
     Say (''  echo <text>  - Echo text to the screen'' @ [NL]),
     Say (''  version      - Show OS version'' @ [NL]),
     Say (''  exit         - Halt the system'' @ [NL, NL]),
     Ink VGA_COLOR_LIGHT_CYAN,
     Say (''File System Commands:'' @ [NL]),
     Ink VGA_COLOR_WHITE,
     Say (''  pwd          - Print working directory'' @ [NL]),
     Say (''  ls [dir]     - List directory contents'' @ [NL]),
     Say (''  cd <dir>     - Change directory'' @ [NL]),
     Say (''  mkdir <dir>  - Make directory'' @ [NL]),
     Say (''  rmdir <dir>  - Remove empty directory'' @ [NL]),
     Say (''  stat <file>  - Show file information'' @ [NL, NL]),
     Ink VGA_COLOR_LIGHT_CYAN,
     Say (''File Operations:'' @ [NL]),
     Ink VGA_COLOR_WHITE,
     Say (''  touch <file> - Create empty file'' @ [NL]),
     Say (''  rm <file>    - Remove file'' @ [NL]),
     Say (''  cp <s> <d>   - Copy file'' @ [NL]),
     Say (''  mv <s> <d>   - Move/rename file'' @ [NL]),
     Say (''  cat <file>   - Display file contents'' @ [NL]),
     Say (''  write <file> <text> - Write text to file'' @ [NL]),
     Say (''  stat <file>  - Show file information'' @ [NL]),
     Say (''  tree [dir]   - Show directory tree'' @ [NL]),
     Say (''  edit <file>  - Edit file in text editor'' @ [NL]),
     Say (''  vi <file>    - Edit file (alias for edit)'' @ [NL]),
     Say (''  kbd <layout> - Set keyboard layout (de/us)'' @ [NL])]"

definition shell_help :: "terminal \<Rightarrow> terminal option" where
  "shell_help t = prints help_text t"

definition version_text :: printout where
  "version_text = [Say (''PhantomOS v0.4 - 32-bit Kernel with POSIX File System'' @ [NL]),
     Say (''Features: German/US keyboard layouts, uppercase support, vim-like editor'' @ [NL])]"

definition shell_version :: "terminal \<Rightarrow> terminal option" where
  "shell_version t = prints version_text t"

definition shell_pwd :: "fs_state \<Rightarrow> terminal \<Rightarrow> terminal option" where
  "shell_pwd s t = do {
     t \<leftarrow> terminal_writestring (fs_get_current_path s) t;
     print [NL] t }"

definition shell_echo :: "char list \<Rightarrow> char list \<Rightarrow> terminal \<Rightarrow> terminal option" where
  "shell_echo a b t = do {
     n \<leftarrow> strlen a;
     t \<leftarrow> (if n > 0 then do {
         t \<leftarrow> terminal_writestring a t;
         m \<leftarrow> strlen b;
         if m > 0 then do { t \<leftarrow> print '' '' t; terminal_writestring b t } else Some t }
       else Some t);
     print [NL] t }"

text \<open>The name of a node, a directory's in light blue: the same statements in \<open>ls\<close> and in
  \<open>tree_print_node\<close>.\<close>

definition write_name :: "fs_node \<Rightarrow> terminal \<Rightarrow> terminal option" where
  "write_name d t =
     (if node_type d = FILE_TYPE_DIRECTORY then do {
         t \<leftarrow> ink VGA_COLOR_LIGHT_BLUE t;
         t \<leftarrow> terminal_writestring (node_name d) t;
         ink VGA_COLOR_WHITE t }
      else terminal_writestring (node_name d) t)"

definition list_entry :: "fs_state \<Rightarrow> ptr option \<Rightarrow> terminal \<Rightarrow> terminal option" where
  "list_entry s c t = do {
     d \<leftarrow> load c s;
     t \<leftarrow> write_name d t;
     print '' '' t }"

definition list_dir :: "fs_state \<Rightarrow> ptr option \<Rightarrow> terminal \<Rightarrow> terminal option" where
  "list_dir s p t = do {
     d \<leftarrow> load p s;
     t \<leftarrow> ofold (\<lambda>i t. do { c \<leftarrow> arr_get (node_children d) i; list_entry s c t }) [0..<child_count d] t;
     if child_count d > 0 then print [NL] t else Some t }"

definition shell_ls :: "char list \<Rightarrow> fs_state \<Rightarrow> terminal \<Rightarrow> terminal option" where
  "shell_ls a s t = do {
     n \<leftarrow> strlen a;
     if n > 0 then do {
       dir \<leftarrow> fs_resolve_path (Some a) s;
       b \<leftarrow> is_dir dir s;
       if \<not> b then do {
         t \<leftarrow> print (''ls: cannot access '' @ [QUOTE]) t;
         t \<leftarrow> terminal_writestring a t;
         print (QUOTE # '': No such directory'' @ [NL]) t }
       else list_dir s dir t }
     else list_dir s (fs_get_current_dir s) t }"

definition shell_cat :: "char list \<Rightarrow> fs_state \<Rightarrow> terminal \<Rightarrow> terminal option" where
  "shell_cat a s t = do {
     n \<leftarrow> strlen a;
     if n = 0 then print (''cat: missing file operand'' @ [NL]) t
     else do {
       node \<leftarrow> fs_resolve_path (Some a) s;
       if node = None then do {
         t \<leftarrow> print ''cat: '' t;
         t \<leftarrow> terminal_writestring a t;
         print ('': No such file or directory'' @ [NL]) t }
       else do {
         d \<leftarrow> load node s;
         if node_type d = FILE_TYPE_DIRECTORY then do {
           t \<leftarrow> print ''cat: '' t;
           t \<leftarrow> terminal_writestring a t;
           print ('': Is a directory'' @ [NL]) t }
         else do {
           content \<leftarrow> fs_read_file node s;
           case content of
             None \<Rightarrow> Some t
           | Some b \<Rightarrow> do {
               blk \<leftarrow> block_at s b;
               t \<leftarrow> terminal_writestring blk t;
               m \<leftarrow> strlen blk;
               last \<leftarrow> (if m = 0 then Some NUL else arr_get blk (m - 1));
               if m = 0 \<or> last \<noteq> NL then print [NL] t else Some t } } } } }"

definition stat_node :: "fs_node \<Rightarrow> terminal \<Rightarrow> terminal option" where
  "stat_node d t = do {
     t \<leftarrow> print ''  File: '' t;
     t \<leftarrow> terminal_writestring (node_name d) t;
     t \<leftarrow> print [NL] t;
     t \<leftarrow> print ''  Type: '' t;
     t \<leftarrow> (if node_type d = FILE_TYPE_DIRECTORY then do {
         t \<leftarrow> ink VGA_COLOR_LIGHT_BLUE t;
         print ''directory'' t }
       else print ''regular file'' t);
     t \<leftarrow> ink VGA_COLOR_WHITE t;
     t \<leftarrow> print [NL] t;
     if node_type d = FILE_TYPE_REGULAR then do {
       t \<leftarrow> print ''  Size: '' t;
       size_str \<leftarrow> number_text (node_size d);
       t \<leftarrow> terminal_writestring size_str t;
       print ('' bytes'' @ [NL]) t }
     else if node_type d = FILE_TYPE_DIRECTORY then do {
       t \<leftarrow> print ''  Contents: '' t;
       count_str \<leftarrow> number_text (child_count d);
       t \<leftarrow> terminal_writestring count_str t;
       print ('' items'' @ [NL]) t }
     else Some t }"

definition shell_stat :: "char list \<Rightarrow> fs_state \<Rightarrow> terminal \<Rightarrow> terminal option" where
  "shell_stat a s t = do {
     n \<leftarrow> strlen a;
     if n = 0 then print (''stat: missing file operand'' @ [NL]) t
     else do {
       node \<leftarrow> fs_resolve_path (Some a) s;
       if node = None then do {
         t \<leftarrow> print (''stat: cannot stat '' @ [QUOTE]) t;
         t \<leftarrow> terminal_writestring a t;
         print (QUOTE # '': No such file or directory'' @ [NL]) t }
       else do { d \<leftarrow> load node s; stat_node d t } } }"

lemma ofold_mono [partial_function_mono]:
  assumes "\<And>i t. mono_option (\<lambda>f. g f i t)"
  shows "mono_option (\<lambda>f. ofold (g f) is t)"
proof (induction "is" arbitrary: t)
  case (Cons i "is")
  show ?case unfolding ofold.simps by (intro bind_mono assms Cons)
qed (simp add: option.const_mono)

partial_function (option) tree_print_node :: "fs_state \<Rightarrow> ptr option \<Rightarrow> nat \<Rightarrow> bool \<Rightarrow> terminal \<Rightarrow> terminal option" where
  "tree_print_node s node depth is_last t = do {
     t \<leftarrow> ofold (\<lambda>i t. print ''  '' t) [0..<depth] t;
     t \<leftarrow> (if depth > 0 then print (if is_last then CHR 0x60 # ''-- '' else ''|-- '') t else Some t);
     d \<leftarrow> load node s;
     t \<leftarrow> write_name d t;
     t \<leftarrow> print [NL] t;
     if node_type d = FILE_TYPE_DIRECTORY then
       ofold (\<lambda>i t. do {
         c \<leftarrow> arr_get (node_children d) i;
         tree_print_node s c (depth + 1) (i = child_count d - 1) t }) [0..<child_count d] t
     else Some t }"

definition tree_root :: "fs_state \<Rightarrow> ptr option \<Rightarrow> terminal \<Rightarrow> terminal option" where
  "tree_root s dir t = do {
     t \<leftarrow> ink VGA_COLOR_LIGHT_BLUE t;
     d \<leftarrow> load dir s;
     t \<leftarrow> terminal_writestring (node_name d) t;
     t \<leftarrow> ink VGA_COLOR_WHITE t;
     t \<leftarrow> print [NL] t;
     ofold (\<lambda>i t. do {
       c \<leftarrow> arr_get (node_children d) i;
       tree_print_node s c 0 (i = child_count d - 1) t }) [0..<child_count d] t }"

definition shell_tree :: "char list \<Rightarrow> fs_state \<Rightarrow> terminal \<Rightarrow> terminal option" where
  "shell_tree a s t = do {
     n \<leftarrow> strlen a;
     if n > 0 then do {
       dir \<leftarrow> fs_resolve_path (Some a) s;
       b \<leftarrow> is_dir dir s;
       if \<not> b then do {
         t \<leftarrow> print ''tree: '' t;
         t \<leftarrow> terminal_writestring a t;
         print ('': Not a directory'' @ [NL]) t }
       else tree_root s dir t }
     else tree_root s (fs_get_current_dir s) t }"

definition shell_prompt :: "fs_state \<Rightarrow> terminal \<Rightarrow> terminal option" where
  "shell_prompt s t = do {
     t \<leftarrow> ink VGA_COLOR_LIGHT_GREEN t;
     t \<leftarrow> print ''phantom'' t;
     t \<leftarrow> ink VGA_COLOR_WHITE t;
     t \<leftarrow> print '':'' t;
     t \<leftarrow> ink VGA_COLOR_LIGHT_BLUE t;
     t \<leftarrow> terminal_writestring (fs_get_current_path s) t;
     t \<leftarrow> ink VGA_COLOR_WHITE t;
     print ''$ '' t }"

section \<open>What is printed\<close>

definition directory :: "fs_state \<Rightarrow> ptr \<Rightarrow> bool" where
  "directory s p \<longleftrightarrow> (case node_at s p of None \<Rightarrow> False | Some d \<Rightarrow> node_type d = FILE_TYPE_DIRECTORY)"

definition kids_of :: "fs_state \<Rightarrow> ptr \<Rightarrow> ptr list" where
  "kids_of s p = (case node_at s p of None \<Rightarrow> [] | Some d \<Rightarrow> kids d)"

definition name_out :: "fs_state \<Rightarrow> ptr \<Rightarrow> printout" where
  "name_out s p = (if directory s p then [Ink VGA_COLOR_LIGHT_BLUE, Say (label s p), Ink VGA_COLOR_WHITE]
     else [Say (label s p)])"

definition ls_out :: "fs_state \<Rightarrow> ptr \<Rightarrow> printout" where
  "ls_out s p = concat (map (\<lambda>k. name_out s k @ [Say '' '']) (kids_of s p)) @
     (if kids_of s p = [] then [] else [Say [NL]])"

text \<open>The subtree printed by \<open>tree_print_node\<close>, cut off below level \<open>n\<close>.\<close>

primrec tree_out :: "nat \<Rightarrow> fs_state \<Rightarrow> ptr \<Rightarrow> nat \<Rightarrow> bool \<Rightarrow> printout" where
  "tree_out 0 s p depth is_last = []"
| "tree_out (Suc n) s p depth is_last =
     replicate depth (Say ''  '') @ (if depth > 0 then [Say (if is_last then CHR 0x60 # ''-- '' else ''|-- '')] else []) @
     name_out s p @ [Say [NL]] @
     concat (map (\<lambda>i. tree_out n s (kids_of s p ! i) (depth + 1) (i = length (kids_of s p) - 1)) [0..<length (kids_of s p)])"

lemma writes_name:
  assumes "terminal_ok t" and "node_at s p = Some d" and "terminated (node_name d)"
  shows "displays (name_out s p) t (write_name d t)"
proof -
  have "label s p = cstr (node_name d)" using assms(2) by (simp add: label_def)
  then show ?thesis using assms
    by (auto simp: write_name_def name_out_def directory_def intro!: displays_intros)
qed

lemma kid_at:
  assumes ok: "store_ok s" and p: "node_at s p = Some d" and i: "i < child_count d"
  obtains k e where "arr_get (node_children d) i = Some (Some k)" "k = kids d ! i" "node_at s k = Some e"
    "terminated (node_name e)" "p < k"
proof -
  note shape = store_ok_shape [OF ok p]
  have "kids d ! i \<in> set (kids d)" using i length_kids [OF shape] by simp
  then obtain e where e: "node_at s (kids d ! i) = Some e" "p < kids d ! i"
    using store_ok_links [OF ok p] by (auto simp: node_links_def)
  moreover have "arr_get (node_children d) i = Some (Some (kids d ! i))"
    using children_nth [OF shape i] arr_get_Some [of i "node_children d"] i length_children [OF shape] node_shapeD(3) [OF shape]
    by simp
  moreover have "terminated (node_name e)" using node_shapeD(2) [OF store_ok_shape [OF ok e(1)]] .
  ultimately show ?thesis using that by blast
qed

lemma displays_list_dir:
  assumes ok: "store_ok s" and p: "node_at s p = Some d" and t: "terminal_ok t"
  shows "displays (ls_out s p) t (list_dir s (Some p) t)"
proof -
  have len: "length (kids d) = child_count d" by (rule length_kids [OF store_ok_shape [OF ok p]])
  have entry: "displays (name_out s (kids d ! i) @ [Say '' '']) t (do { c \<leftarrow> arr_get (node_children d) i; list_entry s c t })"
    if t: "terminal_ok t" and i: "i \<in> set [0..<child_count d]" for i t
  proof -
    obtain k e where k: "arr_get (node_children d) i = Some (Some k)" "k = kids d ! i" "node_at s k = Some e"
      "terminated (node_name e)" by (rule kid_at [OF ok p, of i]) (use i in auto)
    have "displays (name_out s k @ [Say '' '']) t (do { t \<leftarrow> write_name e t; print '' '' t })"
      by (intro displays_bind writes_name t k displays_print) simp_all
    then show ?thesis using k by (simp add: list_entry_def load_def)
  qed
  have "displays (concat (map (\<lambda>i. name_out s (kids d ! i) @ [Say '' '']) [0..<child_count d]) @
      (if child_count d > 0 then [Say [NL]] else [])) t
    (do { t \<leftarrow> ofold (\<lambda>i t. do { c \<leftarrow> arr_get (node_children d) i; list_entry s c t }) [0..<child_count d] t;
          if child_count d > 0 then print [NL] t else Some t })"
    by (intro displays_bind displays_ofold t entry displays_if displays_print displays_return) auto
  moreover have "map (\<lambda>i. name_out s (kids d ! i) @ [Say '' '']) [0..<child_count d] =
      map (\<lambda>k. name_out s k @ [Say '' '']) (kids d)"
    using len by (intro nth_equalityI) simp_all
  moreover have "child_count d > 0 \<longleftrightarrow> kids d \<noteq> []" using len by (cases "kids d") auto
  ultimately show ?thesis using p
    by (cases "kids d = []") (simp_all add: list_dir_def load_def ls_out_def kids_of_def)
qed

lemma displays_spaces: "terminal_ok t \<Longrightarrow> displays (replicate n (Say ''  '')) t (ofold (\<lambda>i t. print ''  '' t) [0..<n] t)"
  using displays_ofold [of t "[0..<n]" "\<lambda>i. [Say ''  '']" "\<lambda>i t. print ''  '' t"] displays_print
  by (simp add: map_replicate_const)

lemma displays_tree:
  assumes ok: "store_ok s"
  shows "node_at s p = Some d \<Longrightarrow> unat (memory_offset s) \<le> p + n \<Longrightarrow> terminal_ok t \<Longrightarrow>
    displays (tree_out n s p depth is_last) t (tree_print_node s (Some p) depth is_last t)"
proof (induction n arbitrary: p d t depth is_last)
  case 0
  then show ?case using ok unfolding store_ok_def pool_ok_def SIZEOF_FS_NODE_def by fastforce
next
  case (Suc n)
  note shape = store_ok_shape [OF ok Suc.prems(1)]
  have len: "length (kids d) = child_count d" by (rule length_kids [OF shape])
  have kid: "displays (tree_out n s (kids d ! i) (depth + 1) (i = child_count d - 1)) t
      (do { c \<leftarrow> arr_get (node_children d) i; tree_print_node s c (depth + 1) (i = child_count d - 1) t })"
    if t: "terminal_ok t" and i: "i \<in> set [0..<child_count d]" for i t
  proof -
    obtain k e where k: "arr_get (node_children d) i = Some (Some k)" "k = kids d ! i" "node_at s k = Some e" "p < k"
      by (rule kid_at [OF ok Suc.prems(1), of i]) (use i in auto)
    then show ?thesis using Suc.IH [OF k(3) _ t] Suc.prems(2) by simp
  qed
  have kids: "displays (concat (map (\<lambda>i. tree_out n s (kids d ! i) (depth + 1) (i = child_count d - 1)) [0..<child_count d])) t
      (if node_type d = FILE_TYPE_DIRECTORY then
         ofold (\<lambda>i t. do { c \<leftarrow> arr_get (node_children d) i; tree_print_node s c (depth + 1) (i = child_count d - 1) t })
           [0..<child_count d] t
       else Some t)" if "terminal_ok t" for t
  proof (cases "node_type d = FILE_TYPE_DIRECTORY")
    case True
    then show ?thesis by (simp only: if_True simp_thms) (rule displays_ofold [OF that kid])
  next
    case False
    then have "child_count d = 0" using shape by (simp add: node_shape_def)
    then show ?thesis using False that by (simp add: displays_return)
  qed
  let ?branch = "if is_last then CHR 0x60 # ''-- '' else ''|-- ''"
  have "displays (replicate depth (Say ''  '') @ (if depth > 0 then [Say ?branch] else []) @ name_out s p @ [Say [NL]] @
      concat (map (\<lambda>i. tree_out n s (kids d ! i) (depth + 1) (i = child_count d - 1)) [0..<child_count d])) t
    (tree_print_node s (Some p) depth is_last t)"
    unfolding tree_print_node.simps [of s "Some p" depth is_last t] load_def bind.bind_lunit Suc.prems(1)
    by (intro displays_bind displays_spaces Suc.prems(3) displays_if displays_print displays_return
      writes_name [OF _ Suc.prems(1) node_shapeD(2) [OF shape]] kids) (auto simp del: One_nat_def)
  then show ?case using Suc.prems(1) len by (simp add: kids_of_def)
qed

section \<open>What the commands print\<close>

definition echo_out :: "string \<Rightarrow> string \<Rightarrow> printout" where
  "echo_out a b = (if a = [] then [] else Say a # (if b = [] then [] else [Say '' '', Say b])) @ [Say [NL]]"

definition complain :: "string \<Rightarrow> string \<Rightarrow> string \<Rightarrow> printout" where
  "complain x a y = [Say x, Say a, Say y]"

text \<open>The directory that \<open>ls\<close> and \<open>tree\<close> are about.\<close>

definition target_dir :: "fs_state \<Rightarrow> string \<Rightarrow> ptr option" where
  "target_dir s a = (if a = [] then fs_current_dir s
     else case resolve_spec s a of None \<Rightarrow> None | Some p \<Rightarrow> if directory s p then Some p else None)"

definition ls_spec :: "fs_state \<Rightarrow> string \<Rightarrow> printout" where
  "ls_spec s a = (case target_dir s a of
     None \<Rightarrow> complain (''ls: cannot access '' @ [QUOTE]) a (QUOTE # '': No such directory'' @ [NL])
   | Some p \<Rightarrow> ls_out s p)"

definition cat_spec :: "fs_state \<Rightarrow> string \<Rightarrow> printout" where
  "cat_spec s a = (if a = [] then [Say (''cat: missing file operand'' @ [NL])]
     else case resolve_spec s a of
       None \<Rightarrow> complain ''cat: '' a ('': No such file or directory'' @ [NL])
     | Some p \<Rightarrow> if directory s p then complain ''cat: '' a ('': Is a directory'' @ [NL])
       else case file_text s p of
         None \<Rightarrow> []
       | Some x \<Rightarrow> Say x # (if x = [] \<or> last x \<noteq> NL then [Say [NL]] else []))"

definition stat_out :: "fs_state \<Rightarrow> ptr \<Rightarrow> printout" where
  "stat_out s p = [Say ''  File: '', Say (label s p), Say [NL], Say ''  Type: ''] @
     (if directory s p then [Ink VGA_COLOR_LIGHT_BLUE, Say ''directory''] else [Say ''regular file'']) @
     [Ink VGA_COLOR_WHITE, Say [NL]] @
     (if directory s p
      then [Say ''  Contents: '', Say (decimal (length (kids_of s p))), Say ('' items'' @ [NL])]
      else [Say ''  Size: '', Say (decimal (node_size (the (node_at s p)))), Say ('' bytes'' @ [NL])])"

definition stat_spec :: "fs_state \<Rightarrow> string \<Rightarrow> printout" where
  "stat_spec s a = (if a = [] then [Say (''stat: missing file operand'' @ [NL])]
     else case resolve_spec s a of
       None \<Rightarrow> complain (''stat: cannot stat '' @ [QUOTE]) a (QUOTE # '': No such file or directory'' @ [NL])
     | Some p \<Rightarrow> stat_out s p)"

text \<open>No chain of directories is longer than the pool.\<close>

definition tree_spec :: "fs_state \<Rightarrow> string \<Rightarrow> printout" where
  "tree_spec s a = (case target_dir s a of
     None \<Rightarrow> complain ''tree: '' a ('': Not a directory'' @ [NL])
   | Some p \<Rightarrow> [Ink VGA_COLOR_LIGHT_BLUE, Say (label s p), Ink VGA_COLOR_WHITE, Say [NL]] @
       concat (map (\<lambda>i. tree_out (unat POOL_SIZE) s (kids_of s p ! i) 0 (i = length (kids_of s p) - 1))
         [0..<length (kids_of s p)]))"

definition prompt_out :: "fs_state \<Rightarrow> printout" where
  "prompt_out s = [Ink VGA_COLOR_LIGHT_GREEN, Say ''phantom'', Ink VGA_COLOR_WHITE, Say '':'',
     Ink VGA_COLOR_LIGHT_BLUE, Say (cstr (current_path s)), Ink VGA_COLOR_WHITE, Say ''$ '']"

lemma attached_node:
  assumes "store_ok s" and "attached s p"
  obtains d where "node_at s p = Some d" "terminated (node_name d)" "directory s p \<longleftrightarrow> node_type d = FILE_TYPE_DIRECTORY"
    "label s p = cstr (node_name d)" "kids_of s p = kids d" "node_shape p d"
proof -
  obtain d where d: "node_at s p = Some d" using assms(2) by (auto simp: attached_def)
  note shape = store_ok_shape [OF assms(1) d]
  show ?thesis using that [OF d] node_shapeD(2) [OF shape] shape d by (simp add: directory_def label_def kids_of_def)
qed

lemma prints_displays: "terminal_ok t \<Longrightarrow> \<forall>x. Say x \<in> set xs \<longrightarrow> NUL \<notin> set x \<Longrightarrow> displays xs t (prints xs t)"
  unfolding prints_def
proof (induction xs arbitrary: t)
  case (Cons x xs)
  then have "displays [x] t (print_seg x t)" by (cases x) (auto intro: displays_print displays_ink)
  then show ?case using Cons by (auto intro!: displays_then)
qed (simp add: displays_return)

lemma shell_echo_displays:
  assumes "terminal_ok t" and "terminated a" and "terminated b"
  shows "displays (echo_out (cstr a) (cstr b)) t (shell_echo a b t)"
  by (cases "cstr a = []"; cases "cstr b = []")
     (simp_all add: shell_echo_def echo_out_def strlen_eq assms bind_assoc, (intro displays_intros assms; simp)+)

lemma shell_pwd_displays:
  assumes "wf_fs s" and "terminal_ok t"
  shows "displays [Say (cstr (current_path s)), Say [NL]] t (shell_pwd s t)"
  using assms unfolding shell_pwd_def fs_get_current_path_def
  by (intro displays_intros) (simp_all add: wf_fs_def)

lemma shell_prompt_displays:
  assumes "wf_fs s" and "terminal_ok t"
  shows "displays (prompt_out s) t (shell_prompt s t)"
  using assms unfolding shell_prompt_def fs_get_current_path_def prompt_out_def
  by (intro displays_intros) (simp_all add: wf_fs_def)

lemma complain_displays:
  assumes "terminal_ok t" and "terminated a" and "NUL \<notin> set x" "NUL \<notin> set y"
  shows "displays (complain x (cstr a) y) t (do { t \<leftarrow> print x t; t \<leftarrow> terminal_writestring a t; print y t })"
  unfolding complain_def by (intro displays_intros assms)

lemma help_displays: "terminal_ok t \<Longrightarrow> displays help_text t (shell_help t)"
  unfolding shell_help_def by (rule prints_displays) (auto simp: help_text_def)

lemma resolved:
  assumes wf: "wf_fs s" and a: "terminated a"
  obtains "resolve_spec s (cstr a) = None" "fs_resolve_path (Some a) s = Some None" "is_dir None s = Some False"
  | p d where "resolve_spec s (cstr a) = Some p" "fs_resolve_path (Some a) s = Some (Some p)" "node_at s p = Some d"
      "is_dir (Some p) s = Some (directory s p)" "load (Some p) s = Some d" "terminated (node_name d)"
      "directory s p \<longleftrightarrow> node_type d = FILE_TYPE_DIRECTORY" "label s p = cstr (node_name d)" "kids_of s p = kids d"
      "node_shape p d" "attached s p"
proof (cases "resolve_spec s (cstr a)")
  case None
  then show ?thesis using that(1) fs_resolve_path_eq [OF wf a] by (simp add: is_dir_def)
next
  case (Some p)
  have ok: "store_ok s" using wf by (simp add: wf_fs_def)
  have at: "attached s p" by (rule resolve_spec_attached [OF wf Some])
  obtain d where d: "node_at s p = Some d" "terminated (node_name d)" "directory s p \<longleftrightarrow> node_type d = FILE_TYPE_DIRECTORY"
    "label s p = cstr (node_name d)" "kids_of s p = kids d" "node_shape p d"
    by (rule attached_node [OF ok at])
  show ?thesis using that(2) [of p d] Some d at fs_resolve_path_eq [OF wf a] by (simp add: is_dir_def load_def)
qed

lemma current_dir:
  assumes "wf_fs s"
  obtains c d where "fs_current_dir s = Some c" "fs_get_current_dir s = Some c" "node_at s c = Some d"
    "load (Some c) s = Some d" "node_type d = FILE_TYPE_DIRECTORY" "attached_dir s (Some c)" "directory s c"
proof -
  obtain c where c: "fs_current_dir s = Some c" "attached_dir s (Some c)" using assms by (rule wf_fsE)
  then obtain d where "node_at s c = Some d" "node_type d = FILE_TYPE_DIRECTORY" by (auto simp: attached_dir_def)
  then show ?thesis using that c by (simp add: fs_get_current_dir_def load_def directory_def)
qed

lemma strlen_pos: "terminated a \<Longrightarrow> strlen a = Some (length (cstr a))" "0 < length x \<longleftrightarrow> x \<noteq> []" "length x = 0 \<longleftrightarrow> x = []"
  by (simp_all add: strlen_eq)

lemma shell_ls_displays:
  assumes wf: "wf_fs s" and t: "terminal_ok t" and a: "terminated a"
  shows "displays (ls_spec s (cstr a)) t (shell_ls a s t)"
proof (cases "cstr a = []")
  case True
  obtain c d where c: "fs_current_dir s = Some c" "fs_get_current_dir s = Some c" "node_at s c = Some d"
    by (rule current_dir [OF wf])
  then show ?thesis using True displays_list_dir [OF _ c(3) t] wf
    by (simp add: shell_ls_def ls_spec_def target_dir_def strlen_pos a wf_fs_def)
next
  case False
  have ok: "store_ok s" using wf by (simp add: wf_fs_def)
  note c = complain_displays [OF t a, of "''ls: cannot access '' @ [QUOTE]" "QUOTE # '': No such directory'' @ [NL]"]
  show ?thesis
    by (rule resolved [OF wf a])
       (use False c displays_list_dir [OF ok _ t] in
         \<open>auto simp: shell_ls_def ls_spec_def target_dir_def strlen_pos a\<close>)
qed

lemma shell_cat_displays:
  assumes fs: "fs_ok s" and t: "terminal_ok t" and a: "terminated a"
  shows "displays (cat_spec s (cstr a)) t (shell_cat a s t)"
proof (cases "cstr a = []")
  case True
  then show ?thesis using t by (auto simp: shell_cat_def cat_spec_def strlen_pos a intro!: displays_print)
next
  case False
  note wf = fs_okD(1) [OF fs]
  note c = complain_displays [OF t a, of "''cat: ''"]
  show ?thesis
  proof (rule resolved [OF wf a], goal_cases)
    case 1
    then show ?case using False c [of "'': No such file or directory'' @ [NL]"]
      by (simp add: shell_cat_def cat_spec_def strlen_pos a)
  next
    case (2 p d)
    show ?case
    proof (cases "directory s p")
      case True
      then show ?thesis using 2 False c [of "'': Is a directory'' @ [NL]"]
        by (simp add: shell_cat_def cat_spec_def strlen_pos a)
    next
      case nd: False
      show ?thesis
      proof (cases "node_data d")
        case None
        then have "file_text s p = None" using 2(3) by (simp add: file_text_def file_block_def)
        then show ?thesis using 2 False nd None t
          by (simp add: shell_cat_def cat_spec_def strlen_pos a fs_read_file_def displays_return)
      next
        case (Some b)
        obtain blk where blk: "block_at s b = Some blk" "file_block s p = Some blk"
          using Some 2(3) fs_okD(3) [OF fs] unfolding store_ok_def pool_ok_def file_block_def by fastforce
        obtain x r where x: "blk = x @ NUL # r" "file_text s p = Some x" "NUL \<notin> set x"
          by (rule texts_okE [OF fs_okD(2) [OF fs] blk(2)])
        have blk_x: "terminated blk" "cstr blk = x" using x by (simp_all add: cstr_append)
        have last: "(if length x = 0 then Some NUL else arr_get blk (length x - 1)) = Some (if x = [] then NUL else last x)"
          using x(1) by (cases x rule: rev_cases) simp_all
        have "displays (Say (cstr blk) # (if x = [] \<or> last x \<noteq> NL then [Say [NL]] else [])) t (do {
            t \<leftarrow> terminal_writestring blk t;
            if x = [] \<or> last x \<noteq> NL then print [NL] t else Some t })"
          by (intro displays_intros t blk_x) simp_all
        moreover have "shell_cat a s t = do {
            t \<leftarrow> terminal_writestring blk t;
            if x = [] \<or> last x \<noteq> NL then print [NL] t else Some t }"
          using 2 False nd Some blk(1) blk_x last
          by (simp add: shell_cat_def strlen_pos a fs_read_file_def cong: if_cong)
        ultimately show ?thesis using 2 False nd x(2) blk_x by (simp add: cat_spec_def)
      qed
    qed
  qed
qed

lemma stat_node_displays:
  assumes "node_at s p = Some d" and "node_shape p d" and "terminal_ok t"
  shows "displays (stat_out s p) t (stat_node d t)"
proof -
  have nm: "terminated (node_name d)" "label s p = cstr (node_name d)"
    using assms node_shapeD(2) by (auto simp: label_def)
  have dir: "directory s p \<longleftrightarrow> node_type d = FILE_TYPE_DIRECTORY" using assms by (simp add: directory_def)
  have bounds: "node_size d < 10 ^ 31" "child_count d < 10 ^ 31"
    using assms(2) by (auto simp: node_shape_def MAX_FILE_SIZE_def MAX_FILES_PER_DIR_def)
  obtain y where y: "number_text (node_size d) = Some y" "terminated y" "cstr y = decimal (node_size d)"
    using number_text_eq [OF bounds(1)] by (rule yieldsE) blast
  obtain z where z: "number_text (child_count d) = Some z" "terminated z" "cstr z = decimal (child_count d)"
    using number_text_eq [OF bounds(2)] by (rule yieldsE) blast
  have len: "length (kids_of s p) = child_count d" using assms length_kids by (simp add: kids_of_def)
  have D: "displays [Say (cstr x)] t (terminal_writestring x t)" if "terminal_ok t" "terminated x" for x t
    using that by (rule displays_string)
  show ?thesis
  proof (cases "node_type d = FILE_TYPE_DIRECTORY")
    case True
    then show ?thesis unfolding stat_node_def stat_out_def nm(2) len z(3) [symmetric]
      by (simp add: dir z(1) bind_assoc) (intro displays_intros assms nm z; simp)
  next
    case False
    then show ?thesis unfolding stat_node_def stat_out_def nm(2) using assms(1) y(3) [symmetric]
      by (simp add: dir y(1) bind_assoc) (intro displays_intros assms nm y; simp)
  qed
qed

lemma shell_stat_displays:
  assumes wf: "wf_fs s" and t: "terminal_ok t" and a: "terminated a"
  shows "displays (stat_spec s (cstr a)) t (shell_stat a s t)"
proof (cases "cstr a = []")
  case True
  then show ?thesis using t by (auto simp: shell_stat_def stat_spec_def strlen_pos a intro!: displays_print)
next
  case False
  note c = complain_displays [OF t a, of "''stat: cannot stat '' @ [QUOTE]" "QUOTE # '': No such file or directory'' @ [NL]"]
  show ?thesis
    by (rule resolved [OF wf a])
       (use False c stat_node_displays [OF _ _ t] in \<open>auto simp: shell_stat_def stat_spec_def strlen_pos a\<close>)
qed

lemma tree_root_displays:
  assumes ok: "store_ok s" and p: "node_at s p = Some d" and t: "terminal_ok t"
  shows "displays ([Ink VGA_COLOR_LIGHT_BLUE, Say (label s p), Ink VGA_COLOR_WHITE, Say [NL]] @
       concat (map (\<lambda>i. tree_out (unat POOL_SIZE) s (kids_of s p ! i) 0 (i = length (kids_of s p) - 1))
         [0..<length (kids_of s p)])) t (tree_root s (Some p) t)"
proof -
  note shape = store_ok_shape [OF ok p]
  have k: "kids_of s p = kids d" "length (kids d) = child_count d" "label s p = cstr (node_name d)"
    using p length_kids [OF shape] by (simp_all add: kids_of_def label_def)
  have "memory_offset s < POOL_SIZE" using ok by (simp add: store_ok_def pool_ok_def)
  then have pool: "unat (memory_offset s) \<le> q + unat POOL_SIZE" for q by (simp add: word_less_nat_alt)
  have kid: "displays (tree_out (unat POOL_SIZE) s (kids d ! i) 0 (i = child_count d - 1)) t
      (do { c \<leftarrow> arr_get (node_children d) i; tree_print_node s c 0 (i = child_count d - 1) t })"
    if t: "terminal_ok t" and i: "i \<in> set [0..<child_count d]" for i t
  proof -
    obtain k e where k: "arr_get (node_children d) i = Some (Some k)" "k = kids d ! i" "node_at s k = Some e"
      by (rule kid_at [OF ok p, of i]) (use i in auto)
    then show ?thesis using displays_tree [OF ok k(3) pool t] by simp
  qed
  show ?thesis
    unfolding k tree_root_def load_def bind.bind_lunit p append_Cons append_Nil
    by (intro displays_intros displays_ofold kid t node_shapeD(2) [OF shape]) simp_all
qed

lemma shell_tree_displays:
  assumes wf: "wf_fs s" and t: "terminal_ok t" and a: "terminated a"
  shows "displays (tree_spec s (cstr a)) t (shell_tree a s t)"
proof (cases "cstr a = []")
  case True
  obtain c d where c: "fs_current_dir s = Some c" "fs_get_current_dir s = Some c" "node_at s c = Some d"
    by (rule current_dir [OF wf])
  then show ?thesis using True tree_root_displays [OF _ c(3) t] wf
    by (simp add: shell_tree_def tree_spec_def target_dir_def strlen_pos a wf_fs_def)
next
  case False
  have ok: "store_ok s" using wf by (simp add: wf_fs_def)
  note c = complain_displays [OF t a, of "''tree: ''" "'': Not a directory'' @ [NL]"]
  show ?thesis
  proof (rule resolved [OF wf a], goal_cases)
    case 1
    then show ?case using False c by (simp add: shell_tree_def tree_spec_def target_dir_def strlen_pos a)
  next
    case (2 p d)
    then show ?case using False c tree_root_displays [OF ok 2(3) t]
      by (cases "directory s p") (simp_all add: shell_tree_def tree_spec_def target_dir_def strlen_pos a)
  qed
qed

lemma version_displays: "terminal_ok t \<Longrightarrow> displays version_text t (shell_version t)"
  unfolding shell_version_def by (rule prints_displays) (auto simp: version_text_def)

lemmas shell_prints = shell_echo_displays shell_pwd_displays shell_prompt_displays help_displays version_displays
  shell_ls_displays shell_cat_displays shell_stat_displays shell_tree_displays

lemma demo_kids:
  "kids_of demo_fs 0 = [224]" "kids_of demo_fs 224 = []" "directory demo_fs 0" "\<not> directory demo_fs 224"
proof -
  have ok: "store_ok demo_fs" using demo_wf by (simp add: wf_fs_def)
  obtain d where d: "node_at demo_fs 0 = Some d" "node_type d = FILE_TYPE_DIRECTORY" "child_count d = 1" using demo_dir by blast
  obtain e where e: "node_at demo_fs 224 = Some e" "node_type e = FILE_TYPE_REGULAR" using demo_file by blast
  have "length (kids d) = 1" using length_kids [OF store_ok_shape [OF ok d(1)]] d(3) by simp
  then obtain k where k: "kids d = [k]" by (auto simp: length_Suc_conv)
  have m: "[label demo_fs k \<mapsto> k] = [''notes'' \<mapsto> 224]" using demo_map d(1) k by (simp add: dir_map_def)
  have "k = 224" using fun_cong [OF m, of "''notes''"] by (simp split: if_splits)
  then show "kids_of demo_fs 0 = [224]" using d(1) k by (simp add: kids_of_def)
  have "child_count e = 0" using store_ok_shape [OF ok e(1)] e(2) by (simp add: node_shape_def)
  then show "kids_of demo_fs 224 = []" using length_kids [OF store_ok_shape [OF ok e(1)]] e(1) by (simp add: kids_of_def)
  show "directory demo_fs 0" "\<not> directory demo_fs 224" using d e by (simp_all add: directory_def)
qed

section \<open>Properties\<close>

text \<open>\<open>ls\<close> prints the names of the children in the order of the directory, a directory's in light
  blue, each with a space behind it, for the argument or the current directory, and complains
  about a path that is no directory.\<close>

theorem ls_lists_directory:
  assumes "wf_fs s" and "terminal_ok t" and "terminated a"
  shows "yields (shell_ls a s t) (\<lambda>t'. terminal_ok t' \<and> tty_view t' = fold show_seg (ls_spec s (cstr a)) (tty_view t))"
  using shell_ls_displays [OF assms] by (simp add: displays_def)

lemma ls_lists_directory_witness:
  "yields (shell_ls (lit ''/'') demo_fs demo_terminal) (\<lambda>t'.
     tty_view t' = fold show_seg [Say ''notes'', Say '' '', Say [NL]] (tty_view demo_terminal))"
proof -
  have "ls_spec demo_fs ''/'' = [Say ''notes'', Say '' '', Say [NL]]"
    by (simp add: ls_spec_def target_dir_def demo_resolve demo_kids ls_out_def name_out_def demo_label)
  then show ?thesis using ls_lists_directory [OF demo_wf demo_terminal_ok, of "lit ''/''"] by (auto simp: cstr_lit elim: yields_mono)
qed

text \<open>C11: the recursion of \<open>tree\<close> ends on every well-formed file system, and it prints the whole subtree
  in depth-first order, indented by its depth, with the branch of the last child drawn as such.\<close>

theorem tree_terminates:
  assumes "wf_fs s" and "terminal_ok t" and "terminated a"
  shows "yields (shell_tree a s t) (\<lambda>t'. terminal_ok t' \<and> tty_view t' = fold show_seg (tree_spec s (cstr a)) (tty_view t))"
  using shell_tree_displays [OF assms] by (simp add: displays_def)

lemma tree_terminates_witness:
  "yields (shell_tree (lit []) demo_fs demo_terminal) (\<lambda>t'. tty_view t' = fold show_seg
     [Ink VGA_COLOR_LIGHT_BLUE, Say ''/'', Ink VGA_COLOR_WHITE, Say [NL], Say ''notes'', Say [NL]] (tty_view demo_terminal))"
proof -
  obtain n where n: "unat POOL_SIZE = Suc n" by (cases "unat POOL_SIZE") (simp_all add: POOL_SIZE_def)
  have "tree_spec demo_fs [] = [Ink VGA_COLOR_LIGHT_BLUE, Say ''/'', Ink VGA_COLOR_WHITE, Say [NL], Say ''notes'', Say [NL]]"
    unfolding tree_spec_def n by (simp add: target_dir_def demo_root demo_kids name_out_def demo_label)
  then show ?thesis using tree_terminates [OF demo_wf demo_terminal_ok, of "lit []"] by (auto simp: cstr_lit elim: yields_mono)
qed

text \<open>\<open>cat\<close> prints the text of a regular file, with a newline after it unless it ends with one;
  a file without a buffer prints nothing; a missing file and a directory are reported.\<close>

theorem cat_shows_text:
  assumes "fs_ok s" and "terminal_ok t" and "terminated a"
  shows "yields (shell_cat a s t) (\<lambda>t'. terminal_ok t' \<and> tty_view t' = fold show_seg (cat_spec s (cstr a)) (tty_view t))"
  using shell_cat_displays [OF assms] by (simp add: displays_def)

lemma cat_shows_text_witness:
  "yields (shell_cat (lit ''/notes'') demo_fs demo_terminal) (\<lambda>t'.
     tty_view t' = fold show_seg [Say ''hello'', Say [NL]] (tty_view demo_terminal))"
proof -
  have "text_block ''hello'' (''hello'' @ replicate 4091 NUL)" by (simp add: text_block_def MAX_FILE_SIZE_def)
  then have "file_text demo_fs 224 = Some ''hello''" using text_blockD(1) by (simp add: file_text_def demo_block)
  moreover have "\<not> directory demo_fs 224" using demo_file by (auto simp: directory_def)
  ultimately have "cat_spec demo_fs ''/notes'' = [Say ''hello'', Say [NL]]" by (simp add: cat_spec_def demo_resolve)
  then show ?thesis
    using cat_shows_text [OF demo_fs_ok demo_terminal_ok, of "lit ''/notes''"] by (auto simp: cstr_lit elim: yields_mono)
qed

end
