(* ===== verification/Shell_Files.thy ===== *)
theory Shell_Files
  imports Shell_Print
begin

text \<open>
  The shell commands that change the file system (\<open>cd\<close>, \<open>mkdir\<close>, \<open>rmdir\<close>, \<open>touch\<close>, \<open>rm\<close>, \<open>cp\<close>, \<open>mv\<close>,
  \<open>write\<close> of \<open>process_command\<close> in \<open>src/kernel/kernel.c\<close>): on a well-formed file system they are
  defined, except that \<open>cd\<close> into a directory whose path is too long overruns \<open>current_path\<close>.
\<close>

section \<open>The code\<close>

type_synonym shell = "fs_state \<times> terminal"

text \<open>Printing in between, on the terminal alone.\<close>

definition report :: "fs_state \<Rightarrow> terminal option \<Rightarrow> shell option" where
  "report s m = do { t \<leftarrow> m; Some (s, t) }"

text \<open>Three calls in a row: \<open>terminal_writestring("..."); terminal_writestring(arg1); terminal_writestring("...");\<close>\<close>

definition print_about :: "string \<Rightarrow> char list \<Rightarrow> string \<Rightarrow> terminal \<Rightarrow> terminal option" where
  "print_about x a y t = do { t \<leftarrow> print x t; t \<leftarrow> terminal_writestring a t; print y t }"

definition shell_cd :: "char list \<Rightarrow> fs_state \<Rightarrow> terminal \<Rightarrow> shell option" where
  "shell_cd a s t = do {
     n \<leftarrow> strlen a;
     if n = 0 then report s (print (''cd: missing operand'' @ [NL]) t)
     else do {
       r \<leftarrow> strcmp a (lit ''/'');
       if r = 0 then do {
         (r, s) \<leftarrow> fs_change_directory (Some (lit ''/'')) s;
         Some (s, t) }
       else do {
         r \<leftarrow> strcmp a (lit ''..'');
         if r = 0 then do {
           d \<leftarrow> load (fs_get_current_dir s) s;
           if node_parent d \<noteq> None then do {
             (r, s) \<leftarrow> fs_change_directory (Some (lit ''..'')) s;
             Some (s, t) }
           else Some (s, t) }
         else do {
           r \<leftarrow> strcmp a (lit ''.'');
           if r = 0 then Some (s, t)
           else do {
             (r, s) \<leftarrow> fs_change_directory (Some a) s;
             if r \<noteq> 0 then report s (print_about ''cd: '' a ('': No such directory'' @ [NL]) t)
             else Some (s, t) } } } } }"

text \<open>\<open>new = fs_create_file(...); new && fs_add_child(parent, new) == 0\<close>\<close>

definition enter_new :: "char list \<Rightarrow> file_type \<Rightarrow> ptr option \<Rightarrow> fs_state \<Rightarrow> (bool \<times> fs_state) option" where
  "enter_new nm ty parent s = do {
     (f, s) \<leftarrow> fs_create_file nm ty s;
     if f \<noteq> None then do {
       (r, s) \<leftarrow> fs_add_child parent f s;
       Some (r = 0, s) }
     else Some (False, s) }"

definition shell_mkdir :: "char list \<Rightarrow> fs_state \<Rightarrow> terminal \<Rightarrow> shell option" where
  "shell_mkdir a s t = do {
     n \<leftarrow> strlen a;
     if n = 0 then report s (print (''mkdir: missing operand'' @ [NL]) t)
     else do {
       let parent = fs_get_current_dir s;
       existing \<leftarrow> fs_find_child parent a s;
       if existing \<noteq> None then
         report s (print_about (''mkdir: cannot create directory '' @ [QUOTE]) a (QUOTE # '': File exists'' @ [NL]) t)
       else do {
         (b, s) \<leftarrow> enter_new a FILE_TYPE_DIRECTORY parent s;
         if b then Some (s, t)
         else report s (print (''mkdir: cannot create directory'' @ [NL]) t) } } }"

definition shell_touch :: "char list \<Rightarrow> fs_state \<Rightarrow> terminal \<Rightarrow> shell option" where
  "shell_touch a s t = do {
     n \<leftarrow> strlen a;
     if n = 0 then report s (print (''touch: missing file operand'' @ [NL]) t)
     else do {
       let parent = fs_get_current_dir s;
       existing \<leftarrow> fs_find_child parent a s;
       if existing = None then do {
         (b, s) \<leftarrow> enter_new a FILE_TYPE_REGULAR parent s;
         if b then Some (s, t)
         else report s (print (''touch: cannot create file'' @ [NL]) t) }
       else Some (s, t) } }"

text \<open>\<open>fs_remove_child(node->parent, node->name); fs_delete_node(node);\<close>\<close>

definition unlink_node :: "ptr option \<Rightarrow> fs_state \<Rightarrow> fs_state option" where
  "unlink_node node s = do {
     d \<leftarrow> load node s;
     (r, s) \<leftarrow> fs_remove_child (node_parent d) (node_name d) s;
     (r, s) \<leftarrow> fs_delete_node node s;
     Some s }"

definition shell_rmdir :: "char list \<Rightarrow> fs_state \<Rightarrow> terminal \<Rightarrow> shell option" where
  "shell_rmdir a s t = do {
     n \<leftarrow> strlen a;
     if n = 0 then report s (print (''rmdir: missing operand'' @ [NL]) t)
     else do {
       node \<leftarrow> fs_resolve_path (Some a) s;
       if node = None then
         report s (print_about (''rmdir: failed to remove '' @ [QUOTE]) a (QUOTE # '': No such file or directory'' @ [NL]) t)
       else do {
         d \<leftarrow> load node s;
         if node_type d \<noteq> FILE_TYPE_DIRECTORY then
           report s (print_about (''rmdir: failed to remove '' @ [QUOTE]) a (QUOTE # '': Not a directory'' @ [NL]) t)
         else if child_count d > 0 then
           report s (print_about (''rmdir: failed to remove '' @ [QUOTE]) a (QUOTE # '': Directory not empty'' @ [NL]) t)
         else do { s \<leftarrow> unlink_node node s; Some (s, t) } } } }"

definition shell_rm :: "char list \<Rightarrow> fs_state \<Rightarrow> terminal \<Rightarrow> shell option" where
  "shell_rm a s t = do {
     n \<leftarrow> strlen a;
     if n = 0 then report s (print (''rm: missing operand'' @ [NL]) t)
     else do {
       node \<leftarrow> fs_resolve_path (Some a) s;
       if node = None then
         report s (print_about (''rm: cannot remove '' @ [QUOTE]) a (QUOTE # '': No such file or directory'' @ [NL]) t)
       else do {
         d \<leftarrow> load node s;
         if node_type d = FILE_TYPE_DIRECTORY then
           report s (print_about (''rm: cannot remove '' @ [QUOTE]) a (QUOTE # '': Is a directory'' @ [NL]) t)
         else do { s \<leftarrow> unlink_node node s; Some (s, t) } } } }"

text \<open>\<open>strlen(arg1) == 0 || strlen(arg2) == 0\<close>\<close>

definition missing :: "char list \<Rightarrow> char list \<Rightarrow> bool option" where
  "missing a b = do { n \<leftarrow> strlen a; if n = 0 then Some True else do { m \<leftarrow> strlen b; Some (m = 0) } }"

definition shell_cp :: "char list \<Rightarrow> char list \<Rightarrow> fs_state \<Rightarrow> terminal \<Rightarrow> shell option" where
  "shell_cp a b s t = do {
     m \<leftarrow> missing a b;
     if m then report s (print (''cp: missing file operand'' @ [NL]) t)
     else do {
       (r, s) \<leftarrow> fs_copy_file a b s;
       if r \<noteq> 0 then report s (print (''cp: cannot copy file'' @ [NL]) t) else Some (s, t) } }"

definition shell_mv :: "char list \<Rightarrow> char list \<Rightarrow> fs_state \<Rightarrow> terminal \<Rightarrow> shell option" where
  "shell_mv a b s t = do {
     m \<leftarrow> missing a b;
     if m then report s (print (''mv: missing file operand'' @ [NL]) t)
     else do {
       (r, s) \<leftarrow> fs_move_file a b s;
       if r \<noteq> 0 then report s (print (''mv: cannot move file'' @ [NL]) t) else Some (s, t) } }"

text \<open>The two halves of \<open>write\<close>: the node to write to, and writing.\<close>

definition write_target :: "char list \<Rightarrow> fs_state \<Rightarrow> terminal \<Rightarrow> (ptr option \<times> shell) option" where
  "write_target a s t = do {
     node \<leftarrow> fs_resolve_path (Some a) s;
     if node = None then do {
       let parent = fs_get_current_dir s;
       (node, s) \<leftarrow> fs_create_file a FILE_TYPE_REGULAR s;
       if node \<noteq> None then do {
         (r, s) \<leftarrow> fs_add_child parent node s;
         if r \<noteq> 0 then do {
           t \<leftarrow> print (''write: cannot create file'' @ [NL]) t;
           (r, s) \<leftarrow> fs_delete_node node s;
           Some (None, s, t) }
         else Some (node, s, t) }
       else Some (node, s, t) }
     else Some (node, s, t) }"

definition shell_write :: "char list \<Rightarrow> char list \<Rightarrow> fs_state \<Rightarrow> terminal \<Rightarrow> shell option" where
  "shell_write a b s t = do {
     n \<leftarrow> strlen a;
     if n = 0 then report s (print (''write: missing file operand'' @ [NL]) t)
     else do {
       m \<leftarrow> strlen b;
       if m = 0 then report s (print (''write: missing text operand'' @ [NL]) t)
       else do {
         (node, s, t) \<leftarrow> write_target a s t;
         if node \<noteq> None then do {
           d \<leftarrow> load node s;
           if node_type d = FILE_TYPE_DIRECTORY then
             report s (print_about ''write: '' a ('': Is a directory'' @ [NL]) t)
           else do {
             len \<leftarrow> strlen b;
             (r, s) \<leftarrow> fs_write_file node b len s;
             if r = 0 then Some (s, t)
             else report s (print (''write: cannot write to file'' @ [NL]) t) } }
         else Some (s, t) } } }"

section \<open>Safety\<close>

definition shell_ok :: "shell \<Rightarrow> bool" where
  "shell_ok st \<longleftrightarrow> fs_ok (fst st) \<and> terminal_ok (snd st)"

lemma report_ok: "fs_ok s \<Longrightarrow> displays xs t m \<Longrightarrow> yields (report s m) shell_ok"
  by (auto simp: report_def shell_ok_def displays_def elim: yields_mono)

lemma report_print: "fs_ok s \<Longrightarrow> terminal_ok t \<Longrightarrow> NUL \<notin> set x \<Longrightarrow> yields (report s (print x t)) shell_ok"
  by (rule report_ok [OF _ displays_print])

lemma report_about:
  "fs_ok s \<Longrightarrow> terminal_ok t \<Longrightarrow> terminated a \<Longrightarrow> NUL \<notin> set x \<Longrightarrow> NUL \<notin> set y \<Longrightarrow>
    yields (report s (print_about x a y t)) shell_ok"
  unfolding print_about_def by (rule report_ok [OF _ complain_displays])

lemma shell_okI: "fs_ok s \<Longrightarrow> terminal_ok t \<Longrightarrow> shell_ok (s, t)"
  by (simp add: shell_ok_def)

lemma enter_new_ok:
  assumes ok: "fs_ok s" and nm: "terminated nm" and p: "attached_dir s (Some p)"
  shows "yields (enter_new nm ty (Some p) s) (\<lambda>(b, s'). fs_ok s')"
proof -
  obtain f s1 where f: "fs_create_file nm ty s = Some (f, s1)" "fs_ok s1" "case f of None \<Rightarrow> s1 = s | Some q \<Rightarrow> fresh_node s ty q s1"
    by (rule yields_pairE [OF fs_create_file_ok [OF ok nm, of ty]]) blast
  show ?thesis
  proof (cases f)
    case None
    then show ?thesis using f by (simp add: enter_new_def)
  next
    case (Some q)
    then have "attached_dir s1 (Some p)" "enterable s1 p q" using f(3) p by (simp_all add: fresh_node_def)
    then obtain r s2 where "fs_add_child (Some p) (Some q) s1 = Some (r, s2)" "fs_ok s2"
      using fs_add_child_ok [OF f(2)] by (rule_tac yields_pairE [OF fs_add_child_ok [OF f(2)]]) auto
    then show ?thesis using f(1) Some by (simp add: enter_new_def)
  qed
qed

lemma attached_dir_parent:
  assumes ok: "store_ok s" and p: "attached s p"
  obtains d where "node_at s p = Some d" "load (Some p) s = Some d" "node_parent d = Some (parent_of s p)"
    "attached_dir s (Some (parent_of s p))" "terminated (node_name d)" "label s p = cstr (node_name d)"
proof -
  obtain d q where d: "node_at s p = Some d" "node_parent d = Some q" using p by (auto simp: attached_def)
  then show ?thesis using that [of d] attached_parent(1) [OF ok p] node_shapeD(2) [OF store_ok_shape [OF ok d(1)]]
    by (simp add: load_def parent_of_def label_def)
qed

lemma unlink_node_ok:
  assumes ok: "fs_ok s" and p: "attached s p"
  shows "yields (unlink_node (Some p) s) fs_ok"
proof -
  obtain d where d: "node_at s p = Some d" "load (Some p) s = Some d" "node_parent d = Some (parent_of s p)"
    "attached_dir s (Some (parent_of s p))" "terminated (node_name d)"
    by (rule attached_dir_parent [OF fs_okD(3) [OF ok] p])
  obtain r s1 where s1: "fs_remove_child (Some (parent_of s p)) (node_name d) s = Some (r, s1)" "fs_ok s1" "fs_extends s s1"
    by (rule yields_pairE [OF fs_remove_child_ok [OF ok d(4,5)]]) blast
  obtain d' where d': "node_at s1 p = Some d'" using s1(3) d(1) by (rule fs_extendsD)
  obtain r' s2 where "fs_delete_node (Some p) s1 = Some (r', s2)" "fs_ok s2"
    by (rule yields_pairE [OF fs_delete_node_ok' [OF s1(2) d']]) blast
  then show ?thesis using d(2,3) s1(1) by (simp add: unlink_node_def)
qed

lemma find_in_cwd:
  assumes wf: "wf_fs s" and a: "terminated a"
  obtains c where "fs_current_dir s = Some c" "fs_get_current_dir s = Some c" "attached_dir s (Some c)"
    "fs_find_child (fs_get_current_dir s) a s = Some (dir_map s c (cstr a))"
proof -
  obtain c where c: "fs_current_dir s = Some c" "fs_get_current_dir s = Some c" "attached_dir s (Some c)"
    by (rule current_dir [OF wf])
  have "fs_find_child (Some c) a s = Some (dir_map s c (cstr a))"
    by (rule fs_find_child_attached) (use wf a attached_dir_attached [OF c(3)] in \<open>simp_all add: wf_fs_def\<close>)
  then show ?thesis using that c by simp
qed

lemma new_node_ok:
  assumes ok: "fs_ok s" and a: "terminated a" and t: "terminal_ok t" and c: "attached_dir s (Some c)" and x: "NUL \<notin> set x"
  shows "yields (do { (b, s) \<leftarrow> enter_new a ty (Some c) s; if b then Some (s, t) else report s (print x t) }) shell_ok"
proof -
  obtain b s1 where "enter_new a ty (Some c) s = Some (b, s1)" "fs_ok s1"
    by (rule yields_pairE [OF enter_new_ok [OF ok a c, of ty]]) blast
  then show ?thesis using report_print [OF _ t x] t by (simp add: shell_okI)
qed

lemma shell_mkdir_ok:
  assumes ok: "fs_ok s" and t: "terminal_ok t" and a: "terminated a"
  shows "yields (shell_mkdir a s t) shell_ok"
proof -
  obtain c where c: "fs_get_current_dir s = Some c" "attached_dir s (Some c)"
    "fs_find_child (fs_get_current_dir s) a s = Some (dir_map s c (cstr a))"
    by (rule find_in_cwd [OF fs_okD(1) [OF ok] a])
  have print: "yields (report s (print (''mkdir: missing operand'' @ [NL]) t)) shell_ok"
    by (rule report_print [OF ok t]) simp
  have about: "yields (report s (print_about (''mkdir: cannot create directory '' @ [QUOTE]) a (QUOTE # '': File exists'' @ [NL]) t)) shell_ok"
    by (rule report_about [OF ok t a]) simp_all
  show ?thesis using print about new_node_ok [OF ok a t c(2), of "''mkdir: cannot create directory'' @ [NL]"] c(1,3)
    by (simp add: shell_mkdir_def strlen_pos a)
qed

lemma shell_touch_ok:
  assumes ok: "fs_ok s" and t: "terminal_ok t" and a: "terminated a"
  shows "yields (shell_touch a s t) shell_ok"
proof -
  obtain c where c: "fs_get_current_dir s = Some c" "attached_dir s (Some c)"
    "fs_find_child (fs_get_current_dir s) a s = Some (dir_map s c (cstr a))"
    by (rule find_in_cwd [OF fs_okD(1) [OF ok] a])
  have print: "yields (report s (print (''touch: missing file operand'' @ [NL]) t)) shell_ok"
    by (rule report_print [OF ok t]) simp
  show ?thesis using print new_node_ok [OF ok a t c(2), of "''touch: cannot create file'' @ [NL]"] c(1,3) ok t
    by (simp add: shell_touch_def strlen_pos a shell_okI)
qed

lemma unlinking_ok:
  assumes "fs_ok s" and "terminal_ok t" and "attached s p"
  shows "yields (do { s \<leftarrow> unlink_node (Some p) s; Some (s, t) }) shell_ok"
  using unlink_node_ok [OF assms(1,3)] assms(2) by (auto simp: shell_okI elim: yields_mono)

lemma shell_rmdir_ok:
  assumes ok: "fs_ok s" and t: "terminal_ok t" and a: "terminated a"
  shows "yields (shell_rmdir a s t) shell_ok"
proof -
  note about = report_about [OF ok t a, of "''rmdir: failed to remove '' @ [QUOTE]"]
  have print: "yields (report s (print (''rmdir: missing operand'' @ [NL]) t)) shell_ok"
    by (rule report_print [OF ok t]) simp
  show ?thesis
    by (rule resolved [OF fs_okD(1) [OF ok] a])
       (use print about unlinking_ok [OF ok t] in \<open>simp_all add: shell_rmdir_def strlen_pos a\<close>)
qed

lemma shell_rm_ok:
  assumes ok: "fs_ok s" and t: "terminal_ok t" and a: "terminated a"
  shows "yields (shell_rm a s t) shell_ok"
proof -
  note about = report_about [OF ok t a, of "''rm: cannot remove '' @ [QUOTE]"]
  have print: "yields (report s (print (''rm: missing operand'' @ [NL]) t)) shell_ok"
    by (rule report_print [OF ok t]) simp
  show ?thesis
    by (rule resolved [OF fs_okD(1) [OF ok] a])
       (use print about unlinking_ok [OF ok t] in \<open>simp_all add: shell_rm_def strlen_pos a\<close>)
qed

lemma missing_eq: "terminated a \<Longrightarrow> terminated b \<Longrightarrow> missing a b = Some (cstr a = [] \<or> cstr b = [])"
  by (simp add: missing_def strlen_eq)

text \<open>\<open>cp\<close> and \<open>mv\<close>: the same dialogue around an operation \<open>f\<close>.\<close>

lemma transfer_ok:
  assumes ok: "fs_ok s" and t: "terminal_ok t" and x: "NUL \<notin> set x" "NUL \<notin> set y"
    and f: "yields (f s) (\<lambda>(r :: int, s'). fs_ok s')"
  shows "yields (if b then report s (print x t)
     else do { (r, s) \<leftarrow> f s; if r \<noteq> 0 then report s (print y t) else Some (s, t) }) shell_ok"
proof (cases b)
  case True
  then show ?thesis using report_print [OF ok t x(1)] by simp
next
  case False
  obtain r s' where "f s = Some (r, s')" "fs_ok s'" by (rule yields_pairE [OF f]) blast
  then show ?thesis using False report_print [OF _ t x(2)] t by (simp add: shell_okI)
qed

lemma shell_cp_ok:
  assumes "fs_ok s" and "terminal_ok t" and "terminated a" and "terminated b" and "length (cstr b) < MAX_FILENAME_LENGTH"
  shows "yields (shell_cp a b s t) shell_ok"
  unfolding shell_cp_def missing_eq [OF assms(3,4)] bind.bind_lunit
  by (rule transfer_ok [OF assms(1,2)]) (use fs_copy_file_ok [OF assms(1,3,4,5)] in simp_all)

lemma shell_mv_ok:
  assumes "fs_ok s" and "terminal_ok t" and "terminated a" and "terminated b" and "length (cstr b) < MAX_FILENAME_LENGTH"
  shows "yields (shell_mv a b s t) shell_ok"
  unfolding shell_mv_def missing_eq [OF assms(3,4)] bind.bind_lunit
  by (rule transfer_ok [OF assms(1,2)]) (use fs_move_file_ok [OF assms(1,3,4,5)] in simp_all)

lemma write_target_ok:
  assumes ok: "fs_ok s" and t: "terminal_ok t" and a: "terminated a"
  shows "yields (write_target a s t) (\<lambda>(node, s', t'). fs_ok s' \<and> terminal_ok t' \<and>
    (\<forall>p. node = Some p \<longrightarrow> (\<exists>d. node_at s' p = Some d)))"
proof (rule resolved [OF fs_okD(1) [OF ok] a], goal_cases)
  case (2 p d)
  then show ?case using ok t by (simp add: write_target_def)
next
  case 1
  obtain c where c: "fs_get_current_dir s = Some c" "attached_dir s (Some c)"
    by (rule current_dir [OF fs_okD(1) [OF ok]])
  obtain f s1 where f: "fs_create_file a FILE_TYPE_REGULAR s = Some (f, s1)" "fs_ok s1"
      "case f of None \<Rightarrow> s1 = s | Some q \<Rightarrow> fresh_node s FILE_TYPE_REGULAR q s1"
    by (rule yields_pairE [OF fs_create_file_ok [OF ok a, of FILE_TYPE_REGULAR]]) blast
  show ?case
  proof (cases f)
    case None
    then show ?thesis using 1 f ok t by (simp add: write_target_def)
  next
    case (Some q)
    have q: "attached_dir s1 (Some c)" "enterable s1 c q" using f(3) c(2) Some by (simp_all add: fresh_node_def)
    obtain r s2 where s2: "fs_add_child (Some c) (Some q) s1 = Some (r, s2)" "fs_ok s2" "fs_extends s1 s2"
      by (rule yields_pairE [OF fs_add_child_ok [OF f(2) q]]) blast
    obtain e where "node_at s1 q = Some e" using q(2) by (auto simp: enterable_def split: option.splits)
    then obtain e' where e': "node_at s2 q = Some e'" using s2(3) by (rule_tac fs_extendsD)
    obtain t' where t': "print (''write: cannot create file'' @ [NL]) t = Some t'" "terminal_ok t'"
      by (rule yieldsE [OF displays_ok [OF displays_print [OF t]]]) auto
    obtain r' s3 where s3: "fs_delete_node (Some q) s2 = Some (r', s3)" "fs_ok s3"
      by (rule yields_pairE [OF fs_delete_node_ok' [OF s2(2) e']]) blast
    show ?thesis using 1 f(1) Some c(1) s2 e' t' s3 t by (simp add: write_target_def)
  qed
qed

lemma shell_write_ok:
  assumes ok: "fs_ok s" and t: "terminal_ok t" and a: "terminated a" and b: "terminated b" "length (cstr b) < MAX_FILENAME_LENGTH"
  shows "yields (shell_write a b s t) shell_ok"
proof (cases "cstr a = [] \<or> cstr b = []")
  case True
  note p = report_print [OF ok t]
  show ?thesis using True p [of "''write: missing file operand'' @ [NL]"] p [of "''write: missing text operand'' @ [NL]"]
    by (auto simp: shell_write_def strlen_pos a b)
next
  case False
  obtain node s1 t1 where w: "write_target a s t = Some (node, s1, t1)" "fs_ok s1" "terminal_ok t1"
    "\<forall>p. node = Some p \<longrightarrow> (\<exists>d. node_at s1 p = Some d)"
    by (rule yieldsE [OF write_target_ok [OF ok t a]]) (auto split: prod.splits)
  have eq: "shell_write a b s t = (if node \<noteq> None then do {
           d \<leftarrow> load node s1;
           if node_type d = FILE_TYPE_DIRECTORY then
             report s1 (print_about ''write: '' a ('': Is a directory'' @ [NL]) t1)
           else do {
             (r, s) \<leftarrow> fs_write_file node b (length (cstr b)) s1;
             if r = 0 then Some (s, t1)
             else report s (print (''write: cannot write to file'' @ [NL]) t1) } }
         else Some (s1, t1))"
    using False w(1) by (simp add: shell_write_def strlen_pos a b cong: if_cong)
  show ?thesis
  proof (cases node)
    case None
    then show ?thesis unfolding eq using w by (simp add: shell_okI)
  next
    case (Some p)
    obtain d where d: "node_at s1 p = Some d" using w(4) Some by blast
    have tk: "take (length (cstr b)) b = cstr b" by (metis append_eq_conv_conj b(1) terminatedE)
    obtain r s2 where s2: "fs_write_file (Some p) b (length (cstr b)) s1 = Some (r, s2)" "fs_ok s2"
      by (rule yields_pairE [OF fs_write_file_ok' [OF w(2) d tk NUL_notin_cstr refl]])
         (use b(2) in \<open>auto simp: fs_consts\<close>)
    show ?thesis
      unfolding eq using Some d s2 w(3) report_about [OF w(2,3) a, of "''write: ''" "'': Is a directory'' @ [NL]"]
        report_print [OF s2(2) w(3), of "''write: cannot write to file'' @ [NL]"]
      by (simp add: load_def shell_okI)
  qed
qed

lemma shell_cd_eq:
  assumes "terminated a"
  shows "shell_cd a s t = (
     if cstr a = [] then report s (print (''cd: missing operand'' @ [NL]) t)
     else if cstr a = ''/'' then do { (r, s) \<leftarrow> fs_change_directory (Some (lit ''/'')) s; Some (s, t) }
     else if cstr a = ''..'' then do {
       d \<leftarrow> load (fs_get_current_dir s) s;
       if node_parent d \<noteq> None then do { (r, s) \<leftarrow> fs_change_directory (Some (lit ''..'')) s; Some (s, t) }
       else Some (s, t) }
     else if cstr a = ''.'' then Some (s, t)
     else do {
       (r, s) \<leftarrow> fs_change_directory (Some a) s;
       if r \<noteq> 0 then report s (print_about ''cd: '' a ('': No such directory'' @ [NL]) t) else Some (s, t) })"
proof -
  obtain r1 where r1: "strcmp a (lit ''/'') = Some r1" "r1 = 0 \<longleftrightarrow> cstr a = ''/''" by (rule strcmp_lit [OF assms, of "''/''"]) simp
  obtain r2 where r2: "strcmp a (lit ''..'') = Some r2" "r2 = 0 \<longleftrightarrow> cstr a = ''..''" by (rule strcmp_lit [OF assms, of "''..''"]) simp
  obtain r3 where r3: "strcmp a (lit ''.'') = Some r3" "r3 = 0 \<longleftrightarrow> cstr a = ''.''" by (rule strcmp_lit [OF assms, of "''.''"]) simp
  show ?thesis unfolding shell_cd_def r1(1) r2(1) r3(1) strlen_pos(1) [OF assms] bind.bind_lunit r1(2) r2(2) r3(2) strlen_pos(3)
    by (rule refl)
qed

lemma shell_cd_ok:
  assumes ok: "fs_ok s" and t: "terminal_ok t" and a: "terminated a" and fits: "path_fits s (cstr a)"
  shows "yields (shell_cd a s t) shell_ok"
proof -
  have change: "yields (do { (r, s) \<leftarrow> fs_change_directory (Some p) s; Some (s, t) }) shell_ok"
    if p': "terminated p" "cstr p = cstr a" for p
  proof -
    have p: "terminated p" "path_fits s (cstr p)" using p' fits by simp_all
    obtain r s' where "fs_change_directory (Some p) s = Some (r, s')" "fs_ok s'"
      by (rule yields_pairE [OF fs_change_directory_ok [OF ok p]]) blast
    then show ?thesis using t by (simp add: shell_okI)
  qed
  have change': "yields (do { (r, s) \<leftarrow> fs_change_directory (Some a) s;
       if r \<noteq> 0 then report s (print_about ''cd: '' a ('': No such directory'' @ [NL]) t) else Some (s, t) }) shell_ok"
  proof -
    obtain r s' where s': "fs_change_directory (Some a) s = Some (r, s')" "fs_ok s'"
      by (rule yields_pairE [OF fs_change_directory_ok [OF ok a fits]]) blast
    then show ?thesis using report_about [OF s'(2) t a, of "''cd: ''" "'': No such directory'' @ [NL]"] t by (simp add: shell_okI)
  qed
  have idle: "yields (Some (s, t)) shell_ok" using ok t by (simp add: shell_okI)
  obtain c d where c: "fs_get_current_dir s = Some c" "load (Some c) s = Some d" by (rule current_dir [OF fs_okD(1) [OF ok]])
  have up: "yields (do {
       d \<leftarrow> load (fs_get_current_dir s) s;
       if node_parent d \<noteq> None then do { (r, s) \<leftarrow> fs_change_directory (Some (lit ''..'')) s; Some (s, t) }
       else Some (s, t) }) shell_ok" if "cstr a = ''..''"
  proof -
    have "yields (do { (r, s) \<leftarrow> fs_change_directory (Some (lit ''..'')) s; Some (s, t) }) shell_ok"
      by (rule change) (simp_all add: that cstr_lit)
    with idle show ?thesis unfolding c(1) c(2) bind.bind_lunit by (cases "node_parent d = None") (simp_all only: simp_thms if_True if_False)
  qed
  have root: "yields (do { (r, s) \<leftarrow> fs_change_directory (Some (lit ''/'')) s; Some (s, t) }) shell_ok" if "cstr a = ''/''"
    by (rule change) (simp_all add: that cstr_lit)
  have none: "yields (report s (print (''cd: missing operand'' @ [NL]) t)) shell_ok"
    by (rule report_print [OF ok t]) simp
  show ?thesis
    unfolding shell_cd_eq [OF a] yields_if by (intro if_bool_eq_conj [THEN iffD2] conjI impI none root up idle change')
qed

lemmas shell_files_ok = shell_cd_ok shell_mkdir_ok shell_touch_ok shell_rmdir_ok shell_rm_ok shell_cp_ok shell_mv_ok shell_write_ok

section \<open>Effects\<close>

lemma enter_new_entered:
  assumes ok: "fs_ok s" and a: "terminated a" and c: "attached_dir s (Some c)"
    and can: "can_create s" "\<not> dir_full s c" "dir_map s c (take (MAX_FILENAME_LENGTH - 2) (cstr a)) = None"
  shows "yields (enter_new a ty (Some c) s) (\<lambda>(b, s'). b \<and> fs_ok s' \<and>
    fs_extends s s' \<and> fs_root s' = fs_root s \<and> fs_current_dir s' = fs_current_dir s \<and>
    (\<exists>q. node_at s q = None \<and> map_option node_type (node_at s' q) = Some ty \<and>
      dir_map s' = (dir_map s)(c := (dir_map s c)(take (MAX_FILENAME_LENGTH - 2) (cstr a) \<mapsto> q)) \<and>
      (\<forall>k. node_at s k \<noteq> None \<longrightarrow> file_block s' k = file_block s k)))"
proof -
  let ?nm = "take (MAX_FILENAME_LENGTH - 2) (cstr a)"
  note o = fs_okD [OF ok]
  obtain q e s1 where cr: "fs_create_file a ty s = Some (Some q, s1)" "created s a ty q e s1"
    by (rule fs_create_file_created [OF o(3) a can(1)])
  note cr' = cr(2) [unfolded created_def]
  note m = created_dir_map [OF o(3) cr(2)]
  obtain d where d: "node_at s c = Some d" "node_type d = FILE_TYPE_DIRECTORY" "node_parent d \<noteq> None"
    using c by (auto simp: attached_dir_def)
  have "c + SIZEOF_FS_NODE \<le> unat (memory_offset s)" using o(3) d(1) by (auto simp: store_ok_def pool_ok_def)
  then have cq: "c < q" using cr' by (simp add: SIZEOF_FS_NODE_def)
  have e: "node_at s1 q = Some e" "node_parent e = None" and d1: "node_at s1 c = Some d" and ok1: "store_ok s1"
    using cr' cq d(1) by auto
  have free: "child_count d < MAX_FILES_PER_DIR" "dir_map s1 c (label s1 q) = None"
    using can(2,3) d(1) m(1,3) by (simp_all add: dir_full_def)
  obtain s2 where s2: "fs_add_child (Some c) (Some q) s1 = Some (0, s2)"
    "dir_updated s1 c ((dir_map s1 c)(label s1 q \<mapsto> q)) s2"
    by (rule fs_add_child_added [OF ok1 d1 d(2,3) e cq free])
  note u = s2(2) [unfolded dir_updated_def]
  have "fs_ok s2"
    using dir_updated_ok [OF s2(2)] fs_create_file_ok [OF ok a, of ty] cr(1) by simp
  moreover have "map_option node_type (node_at s2 q) = Some ty"
    using u e(1) cr' by (auto elim!: fs_extendsD)
  moreover have "dir_map s2 = (dir_map s)(c := (dir_map s c)(?nm \<mapsto> q))"
    using u m(1,3) by (auto simp: fun_eq_iff)
  moreover have "file_block s2 k = file_block s k" if "node_at s k \<noteq> None" for k
    using dir_updated_file_block [OF s2(2)] m(4) [OF that] by simp
  moreover have "fs_extends s s2" using created_extends [OF cr(2)] u by (blast intro: fs_extends_trans)
  moreover have "fs_root s2 = fs_root s" "fs_current_dir s2 = fs_current_dir s"
    using u cr' by (simp_all add: only_nodes_def)
  ultimately show ?thesis using cr(1) s2(1) cr' by (auto simp: enter_new_def)
qed

text \<open>No path leads to an entry whose name has a slash; any other new name leads to its node.\<close>

lemma walk_entered:
  assumes ok: "store_ok s" and ext: "fs_extends s s'" and m: "dir_map s' = (dir_map s)(c := (dir_map s c)(nm \<mapsto> q))"
    and slash: "CHR ''/'' \<in> set nm"
  shows "attached s p \<Longrightarrow> \<forall>x \<in> set xs. CHR ''/'' \<notin> set x \<Longrightarrow> walk s' p xs = walk s p xs"
proof (induction xs arbitrary: p)
  case (Cons x xs)
  have "parent_of s' p = parent_of s p"
    using Cons.prems(1) ext by (auto simp: attached_def parent_of_def elim!: fs_extendsD)
  moreover have "x \<noteq> nm" using Cons.prems(2) slash by auto
  then have "dir_map s' p x = dir_map s p x" using m by simp
  ultimately show ?case
    using Cons attached_parent(2) [OF ok Cons.prems(1)] attached_child [OF ok] by (auto split: option.splits)
qed simp

lemma resolve_entered:
  assumes wf: "wf_fs s" and ext: "fs_extends s s'" "fs_root s' = fs_root s" "fs_current_dir s' = fs_current_dir s"
    and m: "dir_map s' = (dir_map s)(c := (dir_map s c)(nm \<mapsto> q))"
  shows "CHR ''/'' \<in> set nm \<Longrightarrow> resolve_spec s' path = resolve_spec s path"
    and "\<lbrakk>clean_name nm; length nm < MAX_FILENAME_LENGTH; fs_current_dir s = Some c\<rbrakk> \<Longrightarrow> resolve_spec s' nm = Some q"
proof -
  have ok: "store_ok s" using wf by (simp add: wf_fs_def)
  obtain r t where rt: "fs_root s = Some r" "attached s r" "fs_current_dir s = Some t" "attached s t"
    by (rule wf_fsE [OF wf])
  show "resolve_spec s' path = resolve_spec s path" if slash: "CHR ''/'' \<in> set nm"
    using walk_entered [OF ok ext(1) m slash rt(2)] walk_entered [OF ok ext(1) m slash rt(4)] comps_no_sep rt(1,3) ext(2,3)
    unfolding resolve_spec_def by (auto split: list.splits)
  show "resolve_spec s' nm = Some q"
    if n: "clean_name nm" "length nm < MAX_FILENAME_LENGTH" "fs_current_dir s = Some c"
  proof -
    have "comps nm = [nm]" using n(1) by (intro comps_single) (auto simp: clean_name_def)
    moreover have "take (MAX_PATH_LENGTH - 2) nm = nm" using n(2) by (simp add: MAX_PATH_LENGTH_def MAX_FILENAME_LENGTH_def)
    moreover obtain h u where "nm = h # u" "h \<noteq> CHR ''/''" using n(1) by (cases nm) (auto simp: clean_name_def)
    moreover have "walk s' c [nm] = Some q" using n(1) m by (simp add: clean_name_def)
    ultimately show ?thesis using n(3) ext(3) unfolding resolve_spec_def by (simp del: walk.simps)
  qed
qed

lemma unlink_removes:
  assumes ok: "fs_ok s" and p: "attached s p" "\<not> directory s p" and listed: "dir_map s (parent_of s p) (label s p) = Some p"
  shows "yields (unlink_node (Some p) s) (\<lambda>s'. fs_ok s' \<and> file_block s' = file_block s \<and> total_files s' = total_files s - 1 \<and>
    dir_map s' = (dir_map s)(parent_of s p := (dir_map s (parent_of s p))(label s p := None)))"
proof -
  note o = fs_okD [OF ok]
  obtain d where d: "node_at s p = Some d" "load (Some p) s = Some d" "node_parent d = Some (parent_of s p)"
    "attached_dir s (Some (parent_of s p))" "terminated (node_name d)" "label s p = cstr (node_name d)"
    by (rule attached_dir_parent [OF o(3) p(1)])
  have reg: "node_type d = FILE_TYPE_REGULAR" using p(2) d(1) by (simp add: directory_def)
  obtain f where f: "node_at s (parent_of s p) = Some f" "node_type f = FILE_TYPE_DIRECTORY"
    using d(4) by (auto simp: attached_dir_def)
  have present: "dir_map s (parent_of s p) (cstr (node_name d)) = Some p" using listed d(6) by simp
  obtain s1 where s1: "fs_remove_child (Some (parent_of s p)) (node_name d) s = Some (0, s1)"
    "dir_updated s (parent_of s p) ((dir_map s (parent_of s p))(cstr (node_name d) := None)) s1"
    "\<And>q. map_option node_parent (node_at s1 q) = map_option node_parent (node_at s q)"
    "\<And>q. q \<noteq> parent_of s p \<Longrightarrow> node_at s1 q = node_at s q"
    "\<And>f'. node_at s1 (parent_of s p) = Some f' \<Longrightarrow> child_count f' = child_count f - 1"
    by (rule fs_remove_child_removed [OF o(3) f d(5) present]) (rule that)
  note u = s1(2) [unfolded dir_updated_def only_nodes_def]
  have ne: "p \<noteq> parent_of s p" using f d(1) reg by auto
  have d1: "node_at s1 p = Some d" using s1(4) [OF ne] d(1) by simp
  have "fs_root s \<noteq> Some p" using o(1) reg d(1) by (auto simp: wf_fs_def attached_dir_def)
  then have del: "deletable s1 p" using u d1 reg by (simp add: deletable_def)
  have ok1: "store_ok s1" using u by blast
  obtain s2 where s2: "fs_delete_node (Some p) s1 = Some (0, s2)" "unlinked s1 p s2"
    by (rule fs_delete_node_ok [OF ok1 del])
  have "fs_ok s2" using unlink_node_ok [OF ok p(1)] s1(1) s2(1) d(2,3) by (simp add: unlink_node_def)
  moreover have "dir_map s2 = (dir_map s)(parent_of s p := (dir_map s (parent_of s p))(label s p := None))"
    using s2(2) u d1 d(3,6) by (auto simp: unlinked_def fun_eq_iff)
  moreover have "file_block s2 = file_block s" using s2(2) dir_updated_file_block [OF s1(2)] by (simp add: unlinked_def)
  moreover have "total_files s2 = total_files s - 1" using s2(2) u by (simp add: unlinked_def)
  ultimately show ?thesis using s1(1) s2(1) d(2,3) by (simp add: unlink_node_def)
qed

section \<open>Properties\<close>

text \<open>C30: \<open>mkdir\<close> of a new name prints nothing and enters one new, empty directory in the current
  directory, under the first 62 characters of its argument; no other entry and no text changes. The
  argument is taken as a name, not as a path: if it has a slash no path leads to the new directory,
  and all paths resolve as before. Otherwise (and unless it is a dot or two) the name leads to it.\<close>

theorem mkdir_enters:
  assumes "fs_ok s" and "terminal_ok t" and "terminated a" and "cstr a \<noteq> []" and "fs_current_dir s = Some c"
    and "can_create s" and "\<not> dir_full s c" and "dir_map s c (cstr a) = None"
    and "nm = take (MAX_FILENAME_LENGTH - 2) (cstr a)" and "dir_map s c nm = None"
  shows "yields (shell_mkdir a s t) (\<lambda>(s', t'). t' = t \<and> fs_ok s' \<and>
    (\<exists>q. node_at s q = None \<and> map_option node_type (node_at s' q) = Some FILE_TYPE_DIRECTORY \<and> dir_map s' q = Map.empty \<and>
      dir_map s' = (dir_map s)(c := (dir_map s c)(nm \<mapsto> q)) \<and>
      (\<forall>k. node_at s k \<noteq> None \<longrightarrow> file_block s' k = file_block s k) \<and>
      (if CHR ''/'' \<in> set nm then \<forall>path. resolve_spec s' path = resolve_spec s path
       else nm \<notin> {''.'', ''..''} \<longrightarrow> resolve_spec s' nm = Some q)))"
proof -
  have wf: "wf_fs s" by (rule fs_okD(1) [OF assms(1)])
  obtain c' where c': "fs_current_dir s = Some c'" "fs_get_current_dir s = Some c'" "attached_dir s (Some c')"
    "fs_find_child (fs_get_current_dir s) a s = Some (dir_map s c' (cstr a))"
    by (rule find_in_cwd [OF wf assms(3)])
  have c: "c' = c" using c'(1) assms(5) by simp
  have cd: "attached_dir s (Some c)" "c \<noteq> q \<or> node_at s q \<noteq> None" for q
    using c'(3) c by (auto simp: attached_dir_def)
  obtain b s' where e: "enter_new a FILE_TYPE_DIRECTORY (Some c) s = Some (b, s')" "b" "fs_ok s'"
    and ext: "fs_extends s s'" "fs_root s' = fs_root s" "fs_current_dir s' = fs_current_dir s"
    and new: "\<exists>q. node_at s q = None \<and> map_option node_type (node_at s' q) = Some FILE_TYPE_DIRECTORY \<and>
      dir_map s' = (dir_map s)(c := (dir_map s c)(nm \<mapsto> q)) \<and>
      (\<forall>k. node_at s k \<noteq> None \<longrightarrow> file_block s' k = file_block s k)"
    by (rule yields_pairE [OF enter_new_entered [OF assms(1,3) cd(1) assms(6,7), of FILE_TYPE_DIRECTORY]])
       (use assms(9,10) in auto)
  have run: "shell_mkdir a s t = Some (s', t)"
    using c'(2,4) c assms(4,8) e(1,2) by (simp add: shell_mkdir_def strlen_pos assms(3))
  obtain q where q: "node_at s q = None" "map_option node_type (node_at s' q) = Some FILE_TYPE_DIRECTORY"
      "dir_map s' = (dir_map s)(c := (dir_map s c)(nm \<mapsto> q))"
      "\<forall>k. node_at s k \<noteq> None \<longrightarrow> file_block s' k = file_block s k"
    using new by blast
  have nm: "nm \<noteq> []" "length nm < MAX_FILENAME_LENGTH" using assms(4,9) by (simp_all add: MAX_FILENAME_LENGTH_def)
  note res = resolve_entered [OF wf ext q(3)]
  have "if CHR ''/'' \<in> set nm then \<forall>path. resolve_spec s' path = resolve_spec s path
      else nm \<notin> {''.'', ''..''} \<longrightarrow> resolve_spec s' nm = Some q"
    using res(1) res(2) [OF _ nm(2) assms(5)] nm(1) by (simp add: clean_name_def)
  moreover have "dir_map s' q = Map.empty" using q(1,3) cd(2) [of q] by (auto simp: dir_map_def)
  ultimately show ?thesis unfolding run yields_Some prod.case using q e(3) by blast
qed

lemma mkdir_enters_witness:
  "yields (shell_mkdir (lit ''docs'') demo_fs demo_terminal) (\<lambda>(s', t'). t' = demo_terminal \<and> resolve_spec s' ''docs'' \<noteq> None \<and>
    dir_map s' 0 ''notes'' = Some 224) \<and>
   yields (shell_mkdir (lit ''docs/a'') demo_fs demo_terminal) (\<lambda>(s', t'). t' = demo_terminal \<and> dir_map s' 0 ''docs/a'' \<noteq> None \<and>
    resolve_spec s' ''docs/a'' = resolve_spec demo_fs ''docs/a'')"
proof -
  have room: "fs_current_dir demo_fs = Some 0" "can_create demo_fs" "\<not> dir_full demo_fs 0"
    using demo_dir by (auto simp: demo_root demo_can_create dir_full_def fs_consts)
  note enters = mkdir_enters [OF demo_fs_ok demo_terminal_ok terminated_lit _ room _ refl]
  have "yields (shell_mkdir (lit ''docs'') demo_fs demo_terminal) (\<lambda>(s', t'). t' = demo_terminal \<and> resolve_spec s' ''docs'' \<noteq> None \<and>
      dir_map s' 0 ''notes'' = Some 224)"
    by (rule yields_mono [OF enters [of "''docs''"]]) (auto simp: cstr_lit demo_map fs_consts)
  moreover have "yields (shell_mkdir (lit ''docs/a'') demo_fs demo_terminal) (\<lambda>(s', t'). t' = demo_terminal \<and>
      dir_map s' 0 ''docs/a'' \<noteq> None \<and> resolve_spec s' ''docs/a'' = resolve_spec demo_fs ''docs/a'')"
    by (rule yields_mono [OF enters [of "''docs/a''"]]) (auto simp: cstr_lit demo_map fs_consts)
  ultimately show ?thesis by blast
qed

text \<open>C31: \<open>rm\<close> of a regular file prints nothing and removes exactly the entry that the path leads to,
  although the code removes it by name and then once more through \<open>fs_delete_node\<close>; the count of
  files drops by one and the bytes of all files stay.\<close>

theorem rm_unlinks:
  assumes "fs_ok s" and "terminal_ok t" and "terminated a" and "cstr a \<noteq> []" and "resolve_spec s (cstr a) = Some p"
    and "\<not> directory s p"
  shows "yields (shell_rm a s t) (\<lambda>(s', t'). t' = t \<and> fs_ok s' \<and> file_block s' = file_block s \<and>
    total_files s' = total_files s - 1 \<and>
    dir_map s' = (dir_map s)(parent_of s p := (dir_map s (parent_of s p))(label s p := None)))"
proof -
  note wf = fs_okD(1) [OF assms(1)]
  have at: "attached s p" by (rule resolve_spec_attached [OF wf assms(5)])
  obtain d where d: "node_at s p = Some d" "load (Some p) s = Some d" by (rule attached_dir_parent [OF fs_okD(3) [OF assms(1)] at])
  have reg: "node_type d = FILE_TYPE_REGULAR" using assms(6) d(1) by (simp add: directory_def)
  have listed: "dir_map s (parent_of s p) (label s p) = Some p"
    by (rule resolve_regular_listed [OF wf assms(5)]) (simp add: d(1) reg)
  have "shell_rm a s t = do { s \<leftarrow> unlink_node (Some p) s; Some (s, t) }"
    using assms(4,5) fs_resolve_path_eq [OF wf assms(3)] d(2) reg by (simp add: shell_rm_def strlen_pos assms(3))
  then show ?thesis using unlink_removes [OF assms(1) at assms(6) listed] by (auto elim: yields_mono)
qed

lemma rm_unlinks_witness:
  "yields (shell_rm (lit ''/notes'') demo_fs demo_terminal) (\<lambda>(s', t'). dir_map s' 0 = Map.empty \<and> total_files s' = 1)"
proof -
  obtain e where e: "node_at demo_fs 224 = Some e" "node_type e = FILE_TYPE_REGULAR" "node_parent e = Some 0" using demo_file by blast
  then have f: "parent_of demo_fs 224 = 0" "\<not> directory demo_fs 224" by (simp_all add: parent_of_def directory_def)
  show ?thesis
    using rm_unlinks [OF demo_fs_ok demo_terminal_ok terminated_lit [of "''/notes''"] _ _ f(2)] f(1)
    by (auto simp: cstr_lit demo_resolve demo_label demo_map demo_counts elim!: yields_mono)
qed

text \<open>C32: writing a nonempty text to an existing file from the shell works, with the tail of the old
  text left behind, but reports that it cannot write: \<open>write\<close> takes the byte count that
  \<open>fs_write_file\<close> returns for an error code.\<close>

theorem write_reports_failure:
  assumes "fs_ok s" and "terminal_ok t" and "terminated a" and "terminated b" and "cstr a \<noteq> []" and "cstr b \<noteq> []"
    and "length (cstr b) < MAX_FILE_SIZE" and "resolve_spec s (cstr a) = Some p"
    and "file_block s p = Some blk" and "text_block y blk"
  shows "yields (shell_write a b s t) (\<lambda>(s', t'). file_text s' p = Some (cstr b @ drop (length (cstr b)) y) \<and>
    dir_map s' = dir_map s \<and> (\<forall>q. q \<noteq> p \<longrightarrow> file_block s' q = file_block s q) \<and>
    tty_view t' = fold show_seg [Say (''write: cannot write to file'' @ [NL])] (tty_view t))"
proof -
  let ?n = "length (cstr b)"
  note o = fs_okD [OF assms(1)]
  obtain d bp where d: "node_at s p = Some d" "node_data d = Some bp" "block_at s bp = Some blk"
    using assms(9) by (auto simp: file_block_def bind_eq_Some_conv)
  have reg: "node_type d = FILE_TYPE_REGULAR" by (rule data_block [OF o(3) d(1,2)])
  have tk: "take ?n b = cstr b" by (metis append_eq_conv_conj assms(4) terminatedE)
  have m: "?n = min ?n MAX_FILE_SIZE" "?n \<le> length b" using assms(7) length_cstr_le [of b] by simp_all
  obtain s' where s': "fs_write_file (Some p) b ?n s = Some (int ?n, s')" "same_tree s s'"
    "file_block s' = (file_block s)(p \<mapsto> take ?n b @ drop ?n blk)"
    by (rule fs_write_file_ok [OF o(3) d m])
  obtain t' where t': "print (''write: cannot write to file'' @ [NL]) t = Some t'"
    "tty_view t' = fold show_seg [Say (''write: cannot write to file'' @ [NL])] (tty_view t)"
    using displays_print [OF assms(2), of "''write: cannot write to file'' @ [NL]"] by (auto simp: displays_def yields_iff)
  have w: "write_target a s t = Some (Some p, s, t)"
    using fs_resolve_path_eq [OF o(1) assms(3)] assms(8) by (simp add: write_target_def)
  have "shell_write a b s t = Some (s', t')"
    using assms(5,6) w s'(1) t'(1) d(1) reg by (simp add: shell_write_def strlen_pos assms(3,4) load_def report_def)
  moreover have "file_text s' p = Some (cstr b @ drop ?n y)"
    using text_blockD(1) [OF text_block_overwrite [OF assms(10) NUL_notin_cstr assms(7)]] s'(3) tk by (simp add: file_text_def)
  ultimately show ?thesis using s' t'(2) by (simp add: same_tree_def)
qed

lemma write_reports_failure_witness:
  "yields (shell_write (lit ''/notes'') (lit ''hi'') demo_fs demo_terminal) (\<lambda>(s', t'). file_text s' 224 = Some ''hillo'' \<and>
    tty_view t' = fold show_seg [Say (''write: cannot write to file'' @ [NL])] (tty_view demo_terminal))"
proof -
  have tb: "text_block ''hello'' (''hello'' @ replicate 4091 NUL)" by (simp add: text_block_def MAX_FILE_SIZE_def)
  show ?thesis
    using write_reports_failure [OF demo_fs_ok demo_terminal_ok terminated_lit [of "''/notes''"] terminated_lit [of "''hi''"] _ _ _ _ demo_block tb]
    by (auto simp: cstr_lit demo_resolve MAX_FILE_SIZE_def elim!: yields_mono)
qed

end
