(* ===== verification/Kernel.thy ===== *)
theory Kernel
  imports Editor_Draw Keyboard Shell_Parse Shell_Files
begin

text \<open>
  The kernel as a whole (\<open>src/kernel/kernel.c\<close>): its state, the dispatch of a command line, the
  keyboard interrupt handler with its two consumers, the shell's line buffer and the editor, the
  installation of the interrupt table, and \<open>kernel_main\<close>.
\<close>

section \<open>State\<close>

text \<open>The statics of \<open>kernel.c\<close> with the state of the other components. \<open>current_editor\<close> tells
  whether the pointer is set; it can only point to the static \<open>editor\<close> of \<open>run_editor\<close>.
  \<open>idtr\<close> is what \<open>lidt\<close> loaded, \<open>interrupts\<close> the flag of \<open>sti\<close> and \<open>cli\<close>; \<open>halted\<close> is set by a
  \<open>hlt\<close> without interrupts, which nothing leaves.\<close>

record kernel =
  vga :: terminal
  fsys :: fs_state
  ports :: bus
  keyboard :: keys
  input_buffer :: "char list"
  input_length :: nat
  idt :: "idt_entry list"
  idt_pointer :: idt_ptr
  idtr :: "idt_ptr option"
  editor_active :: bool
  current_editor :: bool
  editor :: editor_state
  interrupts :: bool
  halted :: bool

text \<open>Commands on parts of the state.\<close>

definition on_screen :: "(terminal \<Rightarrow> terminal option) \<Rightarrow> kernel \<Rightarrow> kernel option" where
  "on_screen f k = do { t \<leftarrow> f (vga k); Some (k\<lparr>vga := t\<rparr>) }"

definition on_files :: "(fs_state \<Rightarrow> terminal \<Rightarrow> shell option) \<Rightarrow> kernel \<Rightarrow> kernel option" where
  "on_files f k = do { (s, t) \<leftarrow> f (fsys k) (vga k); Some (k\<lparr>fsys := s, vga := t\<rparr>) }"

section \<open>The remaining commands\<close>

definition shell_exit :: "kernel \<Rightarrow> kernel option" where
  "shell_exit k = do {
     k \<leftarrow> on_screen (print (''Halting system...'' @ [NL])) k;
     Some (k\<lparr>interrupts := False, halted := True\<rparr>) }"

definition run_editor :: "char list \<Rightarrow> kernel \<Rightarrow> kernel option" where
  "run_editor filename k = do {
     let k = k\<lparr>current_editor := True, editor_active := True\<rparr>;
     ed \<leftarrow> editor_init (editor k);
     n \<leftarrow> strlen filename;
     ed \<leftarrow> (if n > 0 then do {
         f \<leftarrow> strcpy (ed_filename ed) filename;
         editor_open filename (fsys k) (ed\<lparr>ed_filename := f\<rparr>) }
       else do {
         f \<leftarrow> strcpy (ed_filename ed) (lit ''untitled.txt'');
         Some (ed\<lparr>ed_filename := f\<rparr>) });
     t \<leftarrow> editor_draw ed (vga k);
     Some (k\<lparr>editor := ed, vga := t\<rparr>) }"

definition shell_edit :: "char list \<Rightarrow> kernel \<Rightarrow> kernel option" where
  "shell_edit a k = do {
     n \<leftarrow> strlen a;
     if n = 0 then run_editor (lit []) k else run_editor a k }"

definition set_layout :: "bool \<Rightarrow> kernel \<Rightarrow> kernel" where
  "set_layout german k = k\<lparr>keyboard := (keyboard k)\<lparr>use_german_layout := german\<rparr>\<rparr>"

definition shell_kbd :: "char list \<Rightarrow> kernel \<Rightarrow> kernel option" where
  "shell_kbd a k = do {
     n \<leftarrow> strlen a;
     if n = 0 then on_screen (prints [Say ''Current keyboard layout: '',
         Say (if use_german_layout (keyboard k) then ''German (QWERTZ)'' else ''US (QWERTY)''),
         Say [NL], Say (''Usage: kbd <de|us>'' @ [NL])]) k
     else do {
       r \<leftarrow> strcmp a (lit ''de'');
       if r = 0 then on_screen (print (''Keyboard layout switched to German (QWERTZ)'' @ [NL])) (set_layout True k)
       else do {
         r \<leftarrow> strcmp a (lit ''us'');
         if r = 0 then on_screen (print (''Keyboard layout switched to US (QWERTY)'' @ [NL])) (set_layout False k)
         else on_screen (print_about (''kbd: invalid layout '' @ [QUOTE]) a
           (QUOTE # ''. Use '' @ [QUOTE] @ ''de'' @ [QUOTE] @ '' or '' @ [QUOTE] @ ''us'' @ [QUOTE, NL])) k } } }"

section \<open>The command line\<close>

type_synonym handler = "char list \<Rightarrow> char list \<Rightarrow> kernel \<Rightarrow> kernel option"

text \<open>The branches of \<open>process_command\<close> in their order, each behind its \<open>strcmp(cmd, "...") == 0\<close>.\<close>

definition commands :: "(string \<times> handler) list" where
  "commands = [
     (''help'', \<lambda>a b. on_screen shell_help),
     (''clear'', \<lambda>a b. on_screen terminal_clear),
     (''version'', \<lambda>a b. on_screen shell_version),
     (''exit'', \<lambda>a b. shell_exit),
     (''pwd'', \<lambda>a b k. on_screen (shell_pwd (fsys k)) k),
     (''echo'', \<lambda>a b. on_screen (shell_echo a b)),
     (''ls'', \<lambda>a b k. on_screen (shell_ls a (fsys k)) k),
     (''cd'', \<lambda>a b. on_files (shell_cd a)),
     (''mkdir'', \<lambda>a b. on_files (shell_mkdir a)),
     (''rmdir'', \<lambda>a b. on_files (shell_rmdir a)),
     (''touch'', \<lambda>a b. on_files (shell_touch a)),
     (''rm'', \<lambda>a b. on_files (shell_rm a)),
     (''cp'', \<lambda>a b. on_files (shell_cp a b)),
     (''mv'', \<lambda>a b. on_files (shell_mv a b)),
     (''cat'', \<lambda>a b k. on_screen (shell_cat a (fsys k)) k),
     (''write'', \<lambda>a b. on_files (shell_write a b)),
     (''stat'', \<lambda>a b k. on_screen (shell_stat a (fsys k)) k),
     (''tree'', \<lambda>a b k. on_screen (shell_tree a (fsys k)) k),
     (''edit'', \<lambda>a b. shell_edit a),
     (''vi'', \<lambda>a b. shell_edit a),
     (''kbd'', \<lambda>a b. shell_kbd a)]"

fun dispatch :: "(string \<times> (char list \<Rightarrow> char list \<Rightarrow> 'k \<Rightarrow> 'k option)) list \<Rightarrow> (char list \<Rightarrow> 'k \<Rightarrow> 'k option) \<Rightarrow>
    char list \<Rightarrow> char list \<Rightarrow> char list \<Rightarrow> 'k \<Rightarrow> 'k option" where
  "dispatch [] unknown c a b k = unknown c k"
| "dispatch ((w, h) # hs) unknown c a b k = do {
     r \<leftarrow> strcmp c (lit w);
     if r = 0 then h a b k else dispatch hs unknown c a b k }"

definition command_not_found :: "char list \<Rightarrow> kernel \<Rightarrow> kernel option" where
  "command_not_found c = on_screen (print_about ''bash: '' c ('': command not found'' @ [NL]))"

text \<open>The three local arrays are uninitialised; the parser does not read what they hold.\<close>

definition process_command :: "char list \<Rightarrow> kernel \<Rightarrow> kernel option" where
  "process_command line k = do {
     n \<leftarrow> strlen line;
     if n = 0 then Some k
     else do {
       (c, a, b) \<leftarrow> parse_command_args line (replicate 64 NUL) (replicate 64 NUL) (replicate 64 NUL);
       dispatch commands command_not_found c a b k } }"

section \<open>The keyboard interrupt\<close>

definition end_of_interrupt :: "kernel \<Rightarrow> kernel" where
  "end_of_interrupt k = k\<lparr>ports := outb 0x20 0x20 (ports k)\<rparr>"

definition editor_input :: "8 word \<Rightarrow> kernel \<Rightarrow> kernel option" where
  "editor_input scancode k = do {
     ascii \<leftarrow> (if unat scancode < length scancode_to_ascii_de then scancode_ascii (keyboard k) scancode else Some NUL);
     (s, ed) \<leftarrow> editor_process_key ascii scancode (fsys k) (editor k);
     t \<leftarrow> editor_draw ed (vga k);
     let k = k\<lparr>fsys := s, editor := ed, vga := t\<rparr>;
     if ed_mode ed = MODE_EXIT then do {
       let k = k\<lparr>editor_active := False, current_editor := False\<rparr>;
       k \<leftarrow> on_screen terminal_clear k;
       on_screen (shell_prompt (fsys k)) k }
     else Some k }"

text \<open>The shell's line: Enter, and any other character. After \<open>exit\<close> the processor does not come
  back from \<open>process_command\<close>.\<close>

definition enter_line :: "kernel \<Rightarrow> kernel option" where
  "enter_line k = do {
     k \<leftarrow> on_screen (terminal_putchar NL) k;
     line \<leftarrow> arr_set (input_buffer k) (input_length k) NUL;
     let k = k\<lparr>input_buffer := line\<rparr>;
     k \<leftarrow> process_command line k;
     if halted k then Some k
     else on_screen (shell_prompt (fsys k)) (k\<lparr>input_length := 0\<rparr>) }"

definition store_key :: "char \<Rightarrow> kernel \<Rightarrow> kernel option" where
  "store_key ascii k = do {
     line \<leftarrow> arr_set (input_buffer k) (input_length k) ascii;
     on_screen (terminal_putchar ascii) (k\<lparr>input_buffer := line, input_length := input_length k + 1\<rparr>) }"

definition shell_input :: "8 word \<Rightarrow> kernel \<Rightarrow> kernel option" where
  "shell_input scancode k =
     (if unat scancode < length scancode_to_ascii_de then do {
        ascii \<leftarrow> scancode_ascii (keyboard k) scancode;
        if ascii \<noteq> NUL then
          if ascii = NL then enter_line k
          else if input_length k < length (input_buffer k) - 1 then store_key ascii k
          else Some k
        else Some k }
      else if scancode = 0x0E then
        if input_length k > 0 then on_screen (terminal_putchar (CHR 0x08)) (k\<lparr>input_length := input_length k - 1\<rparr>)
        else Some k
      else Some k)"

definition keyboard_handler :: "kernel \<Rightarrow> kernel option" where
  "keyboard_handler k = (
     let (scancode, io) = inb KEYBOARD_DATA_PORT (ports k);
         k = k\<lparr>ports := io\<rparr>;
         key_released = (scancode AND 0x80 \<noteq> 0);
         scancode = scancode AND 0x7F
     in if scancode = SCANCODE_LEFT_SHIFT \<or> scancode = SCANCODE_RIGHT_SHIFT then
          Some (end_of_interrupt (k\<lparr>keyboard := (keyboard k)\<lparr>shift_pressed := \<not> key_released\<rparr>\<rparr>))
        else if scancode = SCANCODE_CAPS_LOCK \<and> \<not> key_released then
          Some (end_of_interrupt (k\<lparr>keyboard := (keyboard k)\<lparr>caps_lock := \<not> caps_lock (keyboard k)\<rparr>\<rparr>))
        else if editor_active k \<and> current_editor k then do {
          k \<leftarrow> (if \<not> key_released then editor_input scancode k else Some k);
          Some (end_of_interrupt k) }
        else do {
          k \<leftarrow> (if \<not> key_released then shell_input scancode k else Some k);
          Some (if halted k then k else end_of_interrupt k) })"

section \<open>Start\<close>

text \<open>\<open>handler\<close> and \<open>table\<close> are the addresses of the assembly stub \<open>keyboard_interrupt_handler\<close>
  and of the array \<open>idt\<close>. \<open>vga[5] = 0x0F\<close> is the color byte of the third cell of the screen.\<close>

definition init_idt :: "32 word \<Rightarrow> 32 word \<Rightarrow> kernel \<Rightarrow> kernel option" where
  "init_idt handler table k = do {
     let io = fold (\<lambda>(p, v). outb p v)
       [(0x20, 0x11), (0xA0, 0x11), (0x21, 0x20), (0xA1, 0x28), (0x21, 0x04), (0xA1, 0x02), (0x21, 0x01), (0xA1, 0x01),
        (0x21, 0xFF), (0xA1, 0xFF), (0x21, 0xFD)] (ports k);
     gates \<leftarrow> idt_set_entry 0x20 handler KERNEL_CODE_SEGMENT_OFFSET 0x8E (idt k);
     gates \<leftarrow> idt_set_entry 0x21 handler KERNEL_CODE_SEGMENT_OFFSET 0x8E gates;
     let p = \<lparr>limit = of_nat (8 * IDT_SIZE) - 1, base = table\<rparr>;
     let (m, io) = inb 0x21 io;
     cell \<leftarrow> arr_get (terminal_buffer (vga k)) 2;
     cells \<leftarrow> arr_set (terminal_buffer (vga k)) 2 ((cell AND 0x00FF) OR push_bit 8 0x0F);
     Some (k\<lparr>ports := io, idt := gates, idt_pointer := p, idtr := Some p,
       vga := (vga k)\<lparr>terminal_buffer := cells\<rparr>, interrupts := True\<rparr>) }"

definition welcome_text :: printout where
  "welcome_text = [
     Ink VGA_COLOR_LIGHT_CYAN,
     Say (''=== PhantomOS 32-bit Kernel ==='' @ [NL]),
     Ink VGA_COLOR_WHITE,
     Say (''32-bit kernel with POSIX file system loaded!'' @ [NL, NL]),
     Say (''Kernel initialized with:'' @ [NL]),
     Say (''  - VGA text mode output'' @ [NL]),
     Say (''  - Keyboard input handling'' @ [NL]),
     Say (''  - Interrupt system'' @ [NL]),
     Say (''  - In-memory file system'' @ [NL]),
     Say (''  - POSIX-compatible shell commands'' @ [NL]),
     Say (''  - Vim-like text editor'' @ [NL]),
     Say (''  - German/US keyboard layouts (type '' @ [QUOTE] @ ''kbd'' @ [QUOTE] @ '' for info)'' @ [NL, NL])]"

definition starting_text :: printout where
  "starting_text = [
     Ink VGA_COLOR_LIGHT_BROWN,
     Say (''Starting PhantomOS Shell...'' @ [NL]),
     Say (''Type '' @ [QUOTE] @ ''help'' @ [QUOTE] @ '' for available commands.'' @ [NL, NL]),
     Ink VGA_COLOR_WHITE]"

text \<open>\<open>kernel_main\<close> up to its final loop of \<open>hlt\<close>; \<open>mem\<close> is the content of the VGA memory.\<close>

definition kernel_main :: "16 word list \<Rightarrow> 32 word \<Rightarrow> 32 word \<Rightarrow> kernel \<Rightarrow> kernel option" where
  "kernel_main mem handler table k = do {
     k \<leftarrow> on_screen (terminal_initialize mem) k;
     k \<leftarrow> on_screen (prints welcome_text) k;
     (msg, s) \<leftarrow> fs_init (fsys k);
     k \<leftarrow> on_screen (terminal_writestring msg) (k\<lparr>fsys := s\<rparr>);
     k \<leftarrow> init_idt handler table k;
     io \<leftarrow> keyboard_init (ports k);
     k \<leftarrow> on_screen (prints starting_text) (k\<lparr>ports := io\<rparr>);
     on_screen (shell_prompt (fsys k)) k }"

text \<open>The statics when the kernel is loaded; the editor's are only written before they are read.\<close>

definition kernel_boot :: "bus \<Rightarrow> kernel" where
  "kernel_boot io = \<lparr> vga = \<lparr>terminal_row = 0, terminal_column = 0, terminal_color = 0, terminal_buffer = []\<rparr>,
     fsys = fs_boot, ports = io,
     keyboard = \<lparr>shift_pressed = False, caps_lock = False, use_german_layout = True\<rparr>,
     input_buffer = replicate 256 NUL, input_length = 0,
     idt = replicate IDT_SIZE \<lparr>offset_low = 0, selector = 0, zero = 0, type_attr = 0, offset_high = 0\<rparr>,
     idt_pointer = \<lparr>limit = 0, base = 0\<rparr>, idtr = None, editor_active = False, current_editor = False,
     editor = editor_zero, interrupts = False, halted = False \<rparr>"

section \<open>Dispatching\<close>

text \<open>A table of commands under a contract: a command is defined exactly when its arguments are safe,
  and then keeps the invariant. The dispatcher inherits the contract, whatever the line says.\<close>

locale command_table =
  fixes inv :: "'k \<Rightarrow> bool"
    and arg :: "char list \<Rightarrow> bool"
    and safe :: "string \<Rightarrow> string \<Rightarrow> 'k \<Rightarrow> bool"
    and entries :: "(string \<times> (char list \<Rightarrow> char list \<Rightarrow> 'k \<Rightarrow> 'k option)) list"
    and unknown :: "char list \<Rightarrow> 'k \<Rightarrow> 'k option"
  assumes names: "(w, h) \<in> set entries \<Longrightarrow> NUL \<notin> set w"
    and args: "arg a \<Longrightarrow> terminated a"
    and command_ok: "\<lbrakk>(w, h) \<in> set entries; inv k; arg a; arg b; safe w (cstr a) k\<rbrakk> \<Longrightarrow> yields (h a b k) inv"
    and command_fault: "\<lbrakk>(w, h) \<in> set entries; inv k; arg a; arg b; \<not> safe w (cstr a) k\<rbrakk> \<Longrightarrow> h a b k = None"
    and unknown_ok: "\<lbrakk>inv k; arg c\<rbrakk> \<Longrightarrow> yields (unknown c k) inv"
    and unknown_safe: "w \<notin> fst ` set entries \<Longrightarrow> safe w x k"
begin

lemma dispatch_part:
  assumes "set hs \<subseteq> set entries" and c: "arg c"
  shows "dispatch hs unknown c a b k = (case map_of hs (cstr c) of None \<Rightarrow> unknown c k | Some h \<Rightarrow> h a b k)"
  using assms(1)
proof (induction hs)
  case (Cons x hs)
  obtain w h where x: "x = (w, h)" by (cases x)
  then have w: "NUL \<notin> set w" using Cons.prems names by auto
  obtain r where "strcmp c (lit w) = Some r" "r = 0 \<longleftrightarrow> cstr c = w" by (rule strcmp_lit [OF args [OF c] w])
  then show ?case using Cons by (simp add: x)
qed simp

lemma dispatch_ok:
  assumes "inv k" "arg c" "arg a" "arg b" "safe (cstr c) (cstr a) k"
  shows "yields (dispatch entries unknown c a b k) inv"
  using dispatch_part [OF order_refl assms(2), of a b k] assms command_ok unknown_ok
  by (auto split: option.split dest: map_of_SomeD)

lemma dispatch_fault:
  assumes "inv k" "arg c" "arg a" "arg b" "\<not> safe (cstr c) (cstr a) k"
  shows "dispatch entries unknown c a b k = None"
proof -
  have "cstr c \<in> fst ` set entries" using unknown_safe assms(5) by blast
  then obtain h where h: "map_of entries (cstr c) = Some h" by (auto dest: weak_map_of_SomeI)
  then show ?thesis using dispatch_part [OF order_refl assms(2), of a b k] command_fault [OF map_of_SomeD [OF h]] assms by simp
qed

end

section \<open>The invariant\<close>

definition kernel_inv :: "kernel \<Rightarrow> bool" where
  "kernel_inv k \<longleftrightarrow> fs_ok (fsys k) \<and> terminal_ok (vga k) \<and>
     length (input_buffer k) = 256 \<and> input_length k \<le> 255 \<and> NUL \<notin> set (take (input_length k) (input_buffer k)) \<and>
     ed_arrays (editor k) \<and> (editor_active k \<longleftrightarrow> current_editor k) \<and> (editor_active k \<longrightarrow> ed_inv (editor k)) \<and>
     length (idt k) = IDT_SIZE"

definition argument :: "char list \<Rightarrow> bool" where
  "argument a \<longleftrightarrow> terminated a \<and> length (cstr a) < MAX_FILENAME_LENGTH"

text \<open>The only command with an undefined case.\<close>

definition cd_safe :: "fs_state \<Rightarrow> string \<Rightarrow> bool" where
  "cd_safe s x \<longleftrightarrow> x = [] \<or> x = ''.'' \<or> path_fits s x"

definition command_safe :: "string \<Rightarrow> string \<Rightarrow> kernel \<Rightarrow> bool" where
  "command_safe w x k \<longleftrightarrow> (w = ''cd'' \<longrightarrow> cd_safe (fsys k) x)"

lemma kernel_invD:
  assumes "kernel_inv k"
  shows "fs_ok (fsys k)" "wf_fs (fsys k)" "terminal_ok (vga k)" "ed_arrays (editor k)"
  using assms fs_okD(1) by (simp_all add: kernel_inv_def)

lemma on_screen_ok: "kernel_inv k \<Longrightarrow> yields (f (vga k)) terminal_ok \<Longrightarrow> yields (on_screen f k) kernel_inv"
  by (auto simp: on_screen_def kernel_inv_def elim!: yields_mono)

lemma on_files_ok: "kernel_inv k \<Longrightarrow> yields (f (fsys k) (vga k)) shell_ok \<Longrightarrow> yields (on_files f k) kernel_inv"
  by (auto simp: on_files_def kernel_inv_def shell_ok_def elim!: yields_mono)

lemma on_screen_displays: "kernel_inv k \<Longrightarrow> displays xs (vga k) (f (vga k)) \<Longrightarrow> yields (on_screen f k) kernel_inv"
  by (rule on_screen_ok [OF _ displays_ok])

lemma on_screen_print: "kernel_inv k \<Longrightarrow> NUL \<notin> set x \<Longrightarrow> yields (on_screen (print x) k) kernel_inv"
  using on_screen_displays [of k "[Say x]" "print x"] displays_print [of "vga k" x] kernel_invD(3) [of k] by blast

lemma on_screen_prints: "kernel_inv k \<Longrightarrow> \<forall>x. Say x \<in> set xs \<longrightarrow> NUL \<notin> set x \<Longrightarrow> yields (on_screen (prints xs) k) kernel_inv"
  using on_screen_displays [of k xs "prints xs"] prints_displays [of "vga k" xs] kernel_invD(3) [of k] by blast

lemma on_screen_about:
  assumes "kernel_inv k" and "terminated a" and "NUL \<notin> set x" "NUL \<notin> set y"
  shows "yields (on_screen (print_about x a y) k) kernel_inv"
  using on_screen_displays [of k "complain x (cstr a) y" "print_about x a y"]
    complain_displays [OF kernel_invD(3) [OF assms(1)] assms(2-4)] assms(1) by (simp add: print_about_def)

lemma path_fits_root:
  assumes "wf_fs s"
  shows "path_fits s ''/''"
proof -
  obtain r where r: "fs_root s = Some r" using assms by (rule wf_fsE)
  then have "resolve_spec s ''/'' = Some r" by (simp add: resolve_spec_def comps.simps)
  moreover have "ancestors s 16 r = []" using r by (simp add: numeral_eq_Suc)
  ultimately show ?thesis by (simp add: path_fits_def path_string_def MAX_PATH_LENGTH_def)
qed

lemma shell_cd_contract:
  assumes "fs_ok s" and "terminal_ok t" and "terminated a"
  shows "cd_safe s (cstr a) \<Longrightarrow> yields (shell_cd a s t) shell_ok"
    and "\<not> cd_safe s (cstr a) \<Longrightarrow> shell_cd a s t = None"
proof -
  show "yields (shell_cd a s t) shell_ok" if "cd_safe s (cstr a)"
  proof (cases "path_fits s (cstr a)")
    case True
    then show ?thesis by (rule shell_cd_ok [OF assms])
  next
    case False
    then have "cstr a = [] \<or> cstr a = ''.''" using that by (simp add: cd_safe_def)
    then show ?thesis using shell_cd_eq [OF assms(3)] report_print [OF assms(1,2), of "''cd: missing operand'' @ [NL]"] assms(1,2)
      by (auto simp: shell_okI)
  qed
  show "shell_cd a s t = None" if no: "\<not> cd_safe s (cstr a)"
  proof -
    have wf: "wf_fs s" by (rule fs_okD(1) [OF assms(1)])
    have fault: "fs_change_directory (Some p) s = None" if "terminated p" "cstr p = cstr a" for p
      by (cases rule: fs_change_directory_cases [OF wf that(1)])
         (use no that(2) in \<open>auto simp: cd_safe_def path_fits_def attached_dir_def dest!: length_cstr_less\<close>)
    have "cstr a \<noteq> ''/''" using no path_fits_root [OF wf] by (auto simp: cd_safe_def)
    obtain c d where c: "fs_get_current_dir s = Some c" "load (Some c) s = Some d" "attached_dir s (Some c)" "node_at s c = Some d"
      by (rule current_dir [OF wf])
    then have "node_parent d \<noteq> None" by (auto simp: attached_dir_def)
    then show ?thesis
      using shell_cd_eq [OF assms(3), of s t] no \<open>cstr a \<noteq> ''/''\<close> fault [OF assms(3) refl] fault [of "lit ''..''"] c
      by (auto simp: cd_safe_def cstr_lit)
  qed
qed

section \<open>Every command keeps the invariant\<close>

lemma split_text_clean: "NL \<notin> set cur \<Longrightarrow> l \<in> set (split_text cur x) \<Longrightarrow> NL \<notin> set l"
  by (induction cur x rule: split_text.induct) (auto split: if_splits)

lemma file_lines_clean: "l \<in> set (file_lines x) \<Longrightarrow> NL \<notin> set l"
  unfolding file_lines_def using split_text_clean [of "[]" l x] by (auto dest: in_set_takeD)

text \<open>The editor after \<open>edit name\<close>: the lines of the file, if there is one.\<close>

definition opened :: "fs_state \<Rightarrow> string \<Rightarrow> string list" where
  "opened s name = (if name = [] then [[]] else case open_source s name of
     None \<Rightarrow> [[]] | Some x \<Rightarrow> if x = [] then [[]] else file_lines x)"

lemma run_editor_ok:
  assumes inv: "kernel_inv k" and a: "argument a"
  shows "yields (run_editor a k) (\<lambda>k'. kernel_inv k' \<and> editor_active k' \<and> fsys k' = fsys k \<and>
    ed_view (editor k') = (opened (fsys k) (cstr a), 0, 0, False) \<and> ed_mode (editor k') = MODE_NORMAL \<and>
    cstr (ed_filename (editor k')) = (if cstr a = [] then ''untitled.txt'' else cstr a))"
proof -
  note i = kernel_invD [OF inv]
  have t: "terminated a" "length (cstr a) < MAX_FILENAME_LENGTH" using a by (simp_all add: argument_def)
  obtain ed where ed: "editor_init (editor k) = Some ed" "ed_ok ed" "ed_view ed = ([[]], 0, 0, False)" "ed_mode ed = MODE_NORMAL"
    "texts (ed_buffer ed) ! 0 = []" by (rule yieldsE [OF editor_init_eq [OF i(4)]]) blast
  have home: "cursor_x ed = 0" "cursor_y ed = 0" "ed_lines ed = [[]]" "\<not> ed_modified ed"
    using ed(2,3) by (simp_all add: ed_view_def ed_ok_def)
  let ?name = "if cstr a = [] then lit ''untitled.txt'' else a"
  have nm: "terminated ?name" "length (cstr ?name) < MAX_FILENAME_LENGTH"
    using t by (simp_all add: cstr_lit MAX_FILENAME_LENGTH_def)
  obtain f where f: "strcpy (ed_filename ed) ?name = Some f" "length f = MAX_FILENAME_LENGTH" "terminated f" "cstr f = cstr ?name"
    using strcpy_fits [OF nm(1), of "ed_filename ed"] nm(2) ed(2) by (auto simp: yields_iff ed_ok_def)
  let ?ed = "ed\<lparr>ed_filename := f\<rparr>"
  have ok: "ed_ok ?ed" "ed_view ?ed = ([[]], 0, 0, False)" using ed(2,3) f by (simp_all add: ed_ok_def ed_view_def ed_lines_def)
  obtain ed' where ed': "(if 0 < length (cstr a) then editor_open a (fsys k) ?ed else Some ?ed) = Some ed'" "ed_ok ed'"
    "ed_mode ed' = MODE_NORMAL" "ed_view ed' = (opened (fsys k) (cstr a), 0, 0, False)"
    "cstr (ed_filename ed') = (if cstr a = [] then ''untitled.txt'' else cstr a)"
  proof (cases "cstr a = []")
    case True
    then show ?thesis using that [of ?ed] ok ed(4) f(4) by (simp add: opened_def cstr_lit)
  next
    case False
    obtain ed' where ed': "editor_open a (fsys k) ?ed = Some ed'" "ed_ok ed'" "cstr (ed_filename ed') = cstr a" "ed_mode ed' = ed_mode ?ed"
      "ed_view ed' = (case open_source (fsys k) (cstr a) of None \<Rightarrow> ed_lines ?ed
        | Some x \<Rightarrow> if x = [] then [texts (ed_buffer ?ed) ! 0] else file_lines x, 0, 0, ed_modified ?ed)"
      by (rule yieldsE [OF editor_open_eq [OF i(2) fs_okD(2) [OF i(1)] ok(1) _ _ t]]) (use home in auto)
    have "ed_view ed' = (opened (fsys k) (cstr a), 0, 0, False)"
      using ed'(5) False home ed(5) by (auto simp: opened_def ed_lines_def split: option.splits)
    then show ?thesis using that [of ed'] ed' False ed(4) by simp
  qed
  have "\<forall>l \<in> set (opened (fsys k) (cstr a)). NL \<notin> set l"
    using file_lines_clean by (auto simp: opened_def split: option.splits if_splits)
  then have einv: "ed_inv ed'" using ed'(2-4) by (simp add: ed_inv_def ed_view_def)
  obtain t' where t': "editor_draw ed' (vga k) = Some t'" "terminal_ok t'"
    by (rule yieldsE [OF editor_draw_ok [OF einv i(3)]]) blast
  have "run_editor a k = Some (k\<lparr>current_editor := True, editor_active := True, editor := ed', vga := t'\<rparr>)"
    using ed(1) f(1) ed'(1) t'(1) by (auto simp: run_editor_def strlen_eq t(1) Let_def split: if_splits)
  then show ?thesis using inv einv ed' t'(2) ed_ok_arrays [OF ed'(2)] by (simp add: kernel_inv_def)
qed

lemma shell_edit_eq: "terminated a \<Longrightarrow> shell_edit a k = (if cstr a = [] then run_editor (lit []) k else run_editor a k)"
  by (simp add: shell_edit_def strlen_pos)

lemma shell_edit_ok:
  assumes "kernel_inv k" and "argument a"
  shows "yields (shell_edit a k) kernel_inv"
proof -
  have e: "argument (lit [])" by (simp add: argument_def cstr_lit MAX_FILENAME_LENGTH_def)
  have t: "terminated a" using assms(2) by (simp add: argument_def)
  show ?thesis unfolding shell_edit_eq [OF t]
    using run_editor_ok [OF assms] run_editor_ok [OF assms(1) e] by (auto elim!: yields_mono)
qed

lemma set_layout_inv [simp]: "kernel_inv (set_layout g k) = kernel_inv k"
  by (simp add: set_layout_def kernel_inv_def)

lemma shell_kbd_ok:
  assumes inv: "kernel_inv k" and a: "argument a"
  shows "yields (shell_kbd a k) kernel_inv"
proof -
  have t: "terminated a" using a by (simp add: argument_def)
  obtain r1 where r1: "strcmp a (lit ''de'') = Some r1" by (rule strcmp_lit [OF t, of "''de''"]) simp_all
  obtain r2 where r2: "strcmp a (lit ''us'') = Some r2" by (rule strcmp_lit [OF t, of "''us''"]) simp_all
  have usage: "yields (on_screen (prints [Say ''Current keyboard layout: '', Say (if g then ''German (QWERTZ)'' else ''US (QWERTY)''),
         Say [NL], Say (''Usage: kbd <de|us>'' @ [NL])]) k) kernel_inv" for g
    by (rule on_screen_prints [OF inv]) auto
  have say: "yields (on_screen (print (x @ [NL])) (set_layout g k)) kernel_inv" if "NUL \<notin> set x" for x g
    by (rule on_screen_print) (use inv that in simp_all)
  have about: "yields (on_screen (print_about x a y) k) kernel_inv" if "NUL \<notin> set x" "NUL \<notin> set y" for x y
    by (rule on_screen_about [OF inv t that])
  show ?thesis
    unfolding shell_kbd_def strlen_pos(1) [OF t] bind.bind_lunit r1 r2 yields_if
    by (intro if_bool_eq_conj [THEN iffD2] conjI impI usage say about) simp_all
qed

lemma shell_exit_ok: "kernel_inv k \<Longrightarrow> yields (shell_exit k) kernel_inv"
  using on_screen_print [of k "''Halting system...'' @ [NL]"] unfolding shell_exit_def
  by (auto simp: yields_iff kernel_inv_def)

lemma command_not_found_ok:
  assumes "kernel_inv k" and "argument c"
  shows "yields (command_not_found c k) kernel_inv"
  unfolding command_not_found_def by (rule on_screen_about) (use assms in \<open>simp_all add: argument_def\<close>)

lemma command_contract:
  assumes inv: "kernel_inv k" and a: "argument a" and b: "argument b"
  shows "list_all (\<lambda>(w, h). NUL \<notin> set w \<and>
    (if command_safe w (cstr a) k then yields (h a b k) kernel_inv else h a b k = None)) commands"
proof -
  note i = kernel_invD [OF inv]
  have t: "terminated a" "terminated b" "length (cstr b) < MAX_FILENAME_LENGTH" using a b by (simp_all add: argument_def)
  have screen: "yields (on_screen shell_help k) kernel_inv" "yields (on_screen (shell_pwd (fsys k)) k) kernel_inv"
    "yields (on_screen (shell_echo a b) k) kernel_inv" "yields (on_screen (shell_ls a (fsys k)) k) kernel_inv"
    "yields (on_screen (shell_cat a (fsys k)) k) kernel_inv" "yields (on_screen (shell_stat a (fsys k)) k) kernel_inv"
    "yields (on_screen (shell_tree a (fsys k)) k) kernel_inv"
    by (rule on_screen_displays [OF inv], rule shell_prints, (rule i t)+)+
  have screen': "yields (on_screen terminal_clear k) kernel_inv" "yields (on_screen shell_version k) kernel_inv"
    by (rule on_screen_ok [OF inv], rule terminal_clear_ok displays_ok [OF version_displays], rule i)+
  have files: "yields (on_files (shell_mkdir a) k) kernel_inv" "yields (on_files (shell_rmdir a) k) kernel_inv"
    "yields (on_files (shell_touch a) k) kernel_inv" "yields (on_files (shell_rm a) k) kernel_inv"
    "yields (on_files (shell_cp a b) k) kernel_inv" "yields (on_files (shell_mv a b) k) kernel_inv"
    "yields (on_files (shell_write a b) k) kernel_inv"
    by (rule on_files_ok [OF inv], rule shell_files_ok(2-8), (rule i t)+)+
  note cd = shell_cd_contract [OF i(1,3) t(1)]
  have "yields (on_files (shell_cd a) k) kernel_inv" if "cd_safe (fsys k) (cstr a)"
    by (rule on_files_ok [OF inv]) (rule cd(1) [OF that])
  moreover have "on_files (shell_cd a) k = None" if "\<not> cd_safe (fsys k) (cstr a)"
    using cd(2) [OF that] by (simp add: on_files_def)
  ultimately show ?thesis
    unfolding commands_def using screen screen' files shell_exit_ok [OF inv] shell_edit_ok [OF inv a] shell_kbd_ok [OF inv a]
    by (simp add: command_safe_def)
qed

interpretation shell: command_table kernel_inv argument command_safe commands command_not_found
proof (unfold_locales, goal_cases)
  case (1 w h)
  then show ?case by (auto simp: commands_def)
next
  case (2 a)
  then show ?case by (simp add: argument_def)
next
  case (3 w h k a b)
  then show ?case using command_contract [of k a b] by (auto simp: list_all_iff)
next
  case (4 w h k a b)
  then show ?case using command_contract [of k a b] by (auto simp: list_all_iff)
next
  case (5 k c)
  then show ?case by (rule command_not_found_ok)
next
  case (6 w x k)
  then show ?case by (auto simp: command_safe_def commands_def)
qed

text \<open>A line is safe unless it is a \<open>cd\<close> into a directory whose path does not fit.\<close>

definition line_safe :: "kernel \<Rightarrow> string \<Rightarrow> bool" where
  "line_safe k x \<longleftrightarrow> (case parse_spec x of (w, a, b) \<Rightarrow> command_safe w a k)"

lemma process_command_eq:
  assumes "terminated line"
  obtains c a b where "argument c" "argument a" "argument b" "parse_spec (cstr line) = (cstr c, cstr a, cstr b)"
    "process_command line k = (if cstr line = [] then Some k else dispatch commands command_not_found c a b k)"
proof -
  obtain w x y where p: "parse_spec (cstr line) = (w, x, y)" by (cases "parse_spec (cstr line)")
  obtain c a b where ca: "parse_command_args line (replicate 64 NUL) (replicate 64 NUL) (replicate 64 NUL) = Some (c, a, b)"
    "terminated c" "terminated a" "terminated b" "cstr c = w" "cstr a = x" "cstr b = y"
    using parse_command_args_eq [OF assms, of "replicate 64 NUL" "replicate 64 NUL" "replicate 64 NUL"] p
    by (auto simp: yields_iff)
  have "argument c" "argument a" "argument b"
    using ca length_parse_spec [OF p] by (simp_all add: argument_def MAX_FILENAME_LENGTH_def)
  moreover have "process_command line k = (if cstr line = [] then Some k else dispatch commands command_not_found c a b k)"
    using ca(1) by (simp add: process_command_def strlen_pos assms)
  ultimately show ?thesis using that p ca(5-7) by blast
qed

lemma process_command_contract:
  assumes inv: "kernel_inv k" and line: "terminated line"
  shows "line_safe k (cstr line) \<Longrightarrow> yields (process_command line k) kernel_inv"
    and "\<not> line_safe k (cstr line) \<Longrightarrow> process_command line k = None"
proof -
  obtain c a b where args: "argument c" "argument a" "argument b" and p: "parse_spec (cstr line) = (cstr c, cstr a, cstr b)"
    and run: "process_command line k = (if cstr line = [] then Some k else dispatch commands command_not_found c a b k)"
    by (rule process_command_eq [OF line])
  have safe: "line_safe k (cstr line) \<longleftrightarrow> command_safe (cstr c) (cstr a) k" by (simp add: line_safe_def p)
  show "yields (process_command line k) kernel_inv" if "line_safe k (cstr line)"
    unfolding run using shell.dispatch_ok [OF inv args] that inv safe by simp
  show "process_command line k = None" if "\<not> line_safe k (cstr line)"
  proof -
    have "cstr line \<noteq> []" using that p by (auto simp: line_safe_def parse_spec_def first_word_def command_safe_def)
    then show ?thesis unfolding run using shell.dispatch_fault [OF inv args] that safe by simp
  qed
qed

section \<open>The keyboard handler\<close>

definition typed_line :: "kernel \<Rightarrow> string" where
  "typed_line k = take (input_length k) (input_buffer k)"

definition key_in_table :: "kernel \<Rightarrow> 8 word \<Rightarrow> bool" where
  "key_in_table k scancode \<longleftrightarrow> use_german_layout (keyboard k) \<or> unat scancode < 58 \<or> 90 \<le> unat scancode"

definition input_safe :: "8 word \<Rightarrow> kernel \<Rightarrow> bool" where
  "input_safe scancode k \<longleftrightarrow> key_in_table k scancode \<and>
     (if editor_active k then key_fits scancode (editor k)
      else unat scancode < 90 \<and> scancode_ascii (keyboard k) scancode = Some NL \<longrightarrow> line_safe k (typed_line k))"

lemma key_ascii:
  shows "key_in_table k sc \<Longrightarrow> unat sc < 90 \<Longrightarrow> \<exists>c. scancode_ascii (keyboard k) sc = Some c"
    and "\<not> key_in_table k sc \<Longrightarrow> unat sc < 90 \<and> scancode_ascii (keyboard k) sc = None"
  by (auto simp: key_in_table_def scancode_ascii_eq length_table split: if_splits)

lemma line_safe_cong: "fsys k' = fsys k \<Longrightarrow> line_safe k' x = line_safe k x"
  by (simp add: line_safe_def command_safe_def split: prod.split)

lemma on_screen_frame: "on_screen f k = Some k' \<Longrightarrow> \<exists>t. k' = k\<lparr>vga := t\<rparr> \<and> f (vga k) = Some t"
  by (auto simp: on_screen_def bind_eq_Some_conv)

lemma prompt_ok: "kernel_inv k \<Longrightarrow> yields (on_screen (shell_prompt (fsys k)) k) kernel_inv"
  using on_screen_displays [of k "prompt_out (fsys k)" "shell_prompt (fsys k)"] shell_prompt_displays [of "fsys k" "vga k"]
    kernel_invD [of k] by blast

lemma clear_ok: "kernel_inv k \<Longrightarrow> yields (on_screen terminal_clear k) kernel_inv"
  by (rule on_screen_ok) (simp_all add: terminal_clear_ok kernel_invD)

text \<open>The character that a key gives to the editor, and what the editor makes of it.\<close>

definition key_char :: "kernel \<Rightarrow> 8 word \<Rightarrow> char option" where
  "key_char k scancode = (if unat scancode < 90 then scancode_ascii (keyboard k) scancode else Some NUL)"

lemma editor_input_refines:
  assumes inv: "kernel_inv k" and act: "editor_active k" and c: "key_char k scancode = Some c" and fits: "key_fits scancode (editor k)"
  shows "yields (editor_input scancode k) (\<lambda>k'. kernel_inv k' \<and> (editor_active k' \<longleftrightarrow> ed_mode (editor k') \<noteq> MODE_EXIT) \<and>
    (\<not> saves scancode (editor k) \<longrightarrow> fsys k' = fsys k) \<and> typed_line k' = typed_line k \<and>
    (\<exists>saved. (saved \<longrightarrow> join_lines (ed_lines (editor k)) = []) \<and>
      ed_spec (editor k') = spec_key saved c scancode (ed_spec (editor k))))"
proof -
  note i = kernel_invD [OF inv]
  have ed: "ed_inv (editor k)" using inv act by (simp add: kernel_inv_def)
  obtain s e where e: "editor_process_key c scancode (fsys k) (editor k) = Some (s, e)" "fs_ok s" "ed_inv e"
    and step: "\<not> saves scancode (editor k) \<longrightarrow> s = fsys k"
      "\<exists>saved. (saved \<longrightarrow> join_lines (ed_lines (editor k)) = []) \<and> ed_spec e = spec_key saved c scancode (ed_spec (editor k))"
    by (rule yields_pairE [OF process_key_refines [OF i(1) ed fits, of c]]) blast
  obtain t where t: "editor_draw e (vga k) = Some t" "terminal_ok t"
    by (rule yieldsE [OF editor_draw_ok [OF e(3) i(3)]]) blast
  let ?k = "k\<lparr>fsys := s, editor := e, vga := t\<rparr>"
  have k: "kernel_inv ?k" using inv act e t ed_ok_arrays [OF ed_inv_ok [OF e(3)]] by (simp add: kernel_inv_def)
  let ?off = "?k\<lparr>editor_active := False, current_editor := False\<rparr>"
  have "kernel_inv ?off" using k by (simp add: kernel_inv_def)
  then obtain k2 where k2: "on_screen terminal_clear ?off = Some k2" "kernel_inv k2"
    by (rule_tac yieldsE [OF clear_ok]) auto
  obtain k3 where k3: "on_screen (shell_prompt (fsys k2)) k2 = Some k3" "kernel_inv k3"
    by (rule yieldsE [OF prompt_ok [OF k2(2)]]) blast
  have frame: "fsys k3 = s" "editor k3 = e" "\<not> editor_active k3" "typed_line k3 = typed_line k"
    using on_screen_frame [OF k2(1)] on_screen_frame [OF k3(1)] by (auto simp: typed_line_def)
  have "editor_input scancode k = Some (if ed_mode e = MODE_EXIT then k3 else ?k)"
    using c e(1) t(1) k2(1) k3(1) by (simp add: editor_input_def key_char_def)
  then show ?thesis using k k3(2) frame step act by (simp add: typed_line_def)
qed

lemma editor_input_contract:
  assumes inv: "kernel_inv k" and act: "editor_active k"
  shows "if input_safe scancode k then yields (editor_input scancode k) kernel_inv else editor_input scancode k = None"
proof (cases "key_in_table k scancode")
  case False
  then show ?thesis using key_ascii(2) [OF False] by (simp add: input_safe_def editor_input_def)
next
  case True
  obtain c where c: "key_char k scancode = Some c" using key_ascii(1) [OF True] by (fastforce simp: key_char_def)
  have ed: "ed_inv (editor k)" using inv act by (simp add: kernel_inv_def)
  show ?thesis
  proof (cases "key_fits scancode (editor k)")
    case False
    then show ?thesis using process_key_overflows [OF ed False] c act by (simp add: input_safe_def editor_input_def key_char_def)
  next
    case fits: True
    then show ?thesis using editor_input_refines [OF inv act c fits] True act by (auto simp: input_safe_def elim: yields_mono)
  qed
qed

lemma typed_line_end:
  assumes "kernel_inv k"
  obtains line where "arr_set (input_buffer k) (input_length k) NUL = Some line" "terminated line" "cstr line = typed_line k"
    "kernel_inv (k\<lparr>input_buffer := line\<rparr>)"
proof -
  let ?n = "input_length k" and ?b = "input_buffer k"
  have n: "?n < length ?b" "NUL \<notin> set (take ?n ?b)" using assms by (simp_all add: kernel_inv_def)
  have "?b[?n := NUL] = take ?n ?b @ NUL # drop (Suc ?n) ?b" using n(1) by (rule upd_conv_take_nth_drop)
  then have "terminated (?b[?n := NUL])" "cstr (?b[?n := NUL]) = typed_line k" using n(2) by (simp_all add: cstr_append typed_line_def)
  moreover have "kernel_inv (k\<lparr>input_buffer := ?b[?n := NUL]\<rparr>)" using assms by (simp add: kernel_inv_def)
  ultimately show ?thesis using that [of "?b[?n := NUL]"] n(1) by simp
qed

lemma enter_contract:
  assumes inv: "kernel_inv k"
  shows "if line_safe k (typed_line k) then yields (enter_line k) kernel_inv else enter_line k = None"
proof -
  obtain k1 where k1: "on_screen (terminal_putchar NL) k = Some k1" "kernel_inv k1"
    by (rule yieldsE [OF on_screen_ok [OF inv, of "terminal_putchar NL"]])
       (use terminal_putchar_refines [OF kernel_invD(3) [OF inv], of NL] in \<open>auto elim: yields_mono\<close>)
  obtain t where t: "k1 = k\<lparr>vga := t\<rparr>" using on_screen_frame [OF k1(1)] by blast
  then have same: "typed_line k1 = typed_line k" by (simp add: typed_line_def)
  obtain line where line: "arr_set (input_buffer k1) (input_length k1) NUL = Some line" "terminated line" "cstr line = typed_line k1"
    "kernel_inv (k1\<lparr>input_buffer := line\<rparr>)" by (rule typed_line_end [OF k1(2)])
  let ?k = "k1\<lparr>input_buffer := line\<rparr>"
  have safe: "line_safe ?k (cstr line) \<longleftrightarrow> line_safe k (typed_line k)"
    using line(3) same line_safe_cong [of ?k k] t by simp
  note run = process_command_contract [OF line(4,2), unfolded safe]
  have eq: "enter_line k = do { k \<leftarrow> process_command line ?k; if halted k then Some k
      else on_screen (shell_prompt (fsys k)) (k\<lparr>input_length := 0\<rparr>) }"
    using k1(1) line(1) by (simp add: enter_line_def)
  show ?thesis
  proof (cases "line_safe k (typed_line k)")
    case True
    obtain k2 where k2: "process_command line ?k = Some k2" "kernel_inv k2" by (rule yieldsE [OF run(1) [OF True]])
    have "kernel_inv (k2\<lparr>input_length := 0\<rparr>)" using k2(2) by (simp add: kernel_inv_def)
    from prompt_ok [OF this] have "yields (enter_line k) kernel_inv" unfolding eq using k2 by simp
    then show ?thesis using True by simp
  next
    case False
    then have "enter_line k = None" unfolding eq using run(2) by simp
    then show ?thesis using False by simp
  qed
qed

lemma store_key_ok:
  assumes inv: "kernel_inv k" and c: "c \<noteq> NUL" and room: "input_length k < length (input_buffer k) - 1"
  shows "yields (store_key c k) (\<lambda>k'. kernel_inv k' \<and> typed_line k' = typed_line k @ [c])"
proof -
  let ?b = "input_buffer k" and ?n = "input_length k"
  have b: "length ?b = 256" "NUL \<notin> set (take ?n ?b)" using inv by (simp_all add: kernel_inv_def)
  have tk: "take (Suc ?n) (?b[?n := c]) = take ?n ?b @ [c]" using room by (simp add: take_Suc_conv_app_nth)
  let ?k = "k\<lparr>input_buffer := ?b[?n := c], input_length := ?n + 1\<rparr>"
  have k: "kernel_inv ?k" using inv b c room tk by (simp add: kernel_inv_def)
  obtain k' where k': "on_screen (terminal_putchar c) ?k = Some k'" "kernel_inv k'"
    by (rule yieldsE [OF on_screen_ok [OF k, of "terminal_putchar c"]])
       (use terminal_putchar_refines [OF kernel_invD(3) [OF k], of c] in \<open>auto elim: yields_mono\<close>)
  moreover have "typed_line k' = typed_line k @ [c]"
    using on_screen_frame [OF k'(1)] tk by (auto simp: typed_line_def)
  ultimately show ?thesis using room by (simp add: store_key_def)
qed

lemma shell_input_contract:
  assumes inv: "kernel_inv k" and off: "\<not> editor_active k"
  shows "if input_safe scancode k then yields (shell_input scancode k) kernel_inv else shell_input scancode k = None"
proof -
  have len: "length (input_buffer k) = 256" using inv by (simp add: kernel_inv_def)
  show ?thesis
  proof (cases "key_in_table k scancode \<and> unat scancode < 90")
    case False
    show ?thesis
    proof (cases "key_in_table k scancode")
      case no: False
      then show ?thesis using key_ascii(2) [OF no] by (simp add: input_safe_def shell_input_def)
    next
      case True
      have "unat scancode \<noteq> 14" using False True by linarith
      then have "scancode \<noteq> 0x0E" by (intro notI) simp
      then show ?thesis using False True off inv by (simp add: input_safe_def shell_input_def)
    qed
  next
    case True
    obtain c where c: "scancode_ascii (keyboard k) scancode = Some c" using key_ascii(1) True by blast
    show ?thesis
    proof (cases "c = NL")
      case nl: True
      show ?thesis using enter_contract [OF inv] True c nl off by (simp add: input_safe_def shell_input_def)
    next
      case False
      have "yields (shell_input scancode k) kernel_inv"
        using True c False inv store_key_ok [OF inv, of c] by (auto simp: shell_input_def len elim!: yields_mono)
      then show ?thesis using True c False off by (simp add: input_safe_def)
    qed
  qed
qed

text \<open>The byte that the next interrupt reads, and when handling it is defined.\<close>

definition next_byte :: "kernel \<Rightarrow> 8 word" where
  "next_byte k = shd (bus_answers (ports k))"

definition key_code :: "kernel \<Rightarrow> 8 word" where
  "key_code k = next_byte k AND 0x7F"

definition pressed :: "kernel \<Rightarrow> bool" where
  "pressed k \<longleftrightarrow> next_byte k AND 0x80 = 0"

definition modifier :: "8 word \<Rightarrow> bool" where
  "modifier sc \<longleftrightarrow> sc = SCANCODE_LEFT_SHIFT \<or> sc = SCANCODE_RIGHT_SHIFT \<or> sc = SCANCODE_CAPS_LOCK"

lemma shift_not_caps: "SCANCODE_LEFT_SHIFT \<noteq> SCANCODE_CAPS_LOCK" "SCANCODE_RIGHT_SHIFT \<noteq> SCANCODE_CAPS_LOCK"
  by (simp_all add: SCANCODE_LEFT_SHIFT_def SCANCODE_RIGHT_SHIFT_def SCANCODE_CAPS_LOCK_def)

definition handler_safe :: "kernel \<Rightarrow> bool" where
  "handler_safe k \<longleftrightarrow> (pressed k \<and> \<not> modifier (key_code k) \<longrightarrow> input_safe (key_code k) k)"

definition after_read :: "kernel \<Rightarrow> kernel" where
  "after_read k = k\<lparr>ports := snd (inb KEYBOARD_DATA_PORT (ports k))\<rparr>"

lemma kernel_inv_frame [simp]:
  "kernel_inv (k\<lparr>ports := io\<rparr>) = kernel_inv k" "kernel_inv (k\<lparr>keyboard := ks\<rparr>) = kernel_inv k"
  "kernel_inv (end_of_interrupt k) = kernel_inv k" "kernel_inv (after_read k) = kernel_inv k"
  by (simp_all add: kernel_inv_def end_of_interrupt_def after_read_def)

lemma input_safe_after_read [simp]: "input_safe sc (after_read k) = input_safe sc k"
  using line_safe_cong [of "after_read k" k]
  by (simp add: input_safe_def key_in_table_def typed_line_def after_read_def)

lemma keyboard_handler_eq: "keyboard_handler k = (
    if key_code k = SCANCODE_LEFT_SHIFT \<or> key_code k = SCANCODE_RIGHT_SHIFT then
      Some (end_of_interrupt ((after_read k)\<lparr>keyboard := (keyboard k)\<lparr>shift_pressed := pressed k\<rparr>\<rparr>))
    else if key_code k = SCANCODE_CAPS_LOCK \<and> pressed k then
      Some (end_of_interrupt ((after_read k)\<lparr>keyboard := (keyboard k)\<lparr>caps_lock := \<not> caps_lock (keyboard k)\<rparr>\<rparr>))
    else if editor_active k \<and> current_editor k then do {
      k \<leftarrow> (if pressed k then editor_input (key_code k) (after_read k) else Some (after_read k));
      Some (end_of_interrupt k) }
    else do {
      k \<leftarrow> (if pressed k then shell_input (key_code k) (after_read k) else Some (after_read k));
      Some (if halted k then k else end_of_interrupt k) })"
  by (simp add: keyboard_handler_def inb_def key_code_def pressed_def next_byte_def after_read_def Let_def)

lemma handler_contract:
  assumes inv: "kernel_inv k"
  shows "if handler_safe k then yields (keyboard_handler k) kernel_inv else keyboard_handler k = None"
proof (cases "modifier (key_code k) \<and> (pressed k \<or> key_code k \<noteq> SCANCODE_CAPS_LOCK)")
  case True
  then have "handler_safe k" by (simp add: handler_safe_def)
  moreover have "yields (keyboard_handler k) kernel_inv"
    using True inv unfolding keyboard_handler_eq modifier_def by auto
  ultimately show ?thesis by simp
next
  case False
  have act: "editor_active k \<and> current_editor k \<longleftrightarrow> editor_active (after_read k)" "current_editor k \<longleftrightarrow> editor_active k"
    using inv by (auto simp: kernel_inv_def after_read_def)
  have inv': "kernel_inv (after_read k)" using inv by simp
  have eq: "keyboard_handler k = (if editor_active (after_read k) then do {
      k \<leftarrow> (if pressed k then editor_input (key_code k) (after_read k) else Some (after_read k));
      Some (end_of_interrupt k) }
    else do {
      k \<leftarrow> (if pressed k then shell_input (key_code k) (after_read k) else Some (after_read k));
      Some (if halted k then k else end_of_interrupt k) })"
    unfolding keyboard_handler_eq act(1) using False shift_not_caps by (auto simp: modifier_def)
  show ?thesis
  proof (cases "pressed k")
    case up: False
    then have "handler_safe k" "yields (keyboard_handler k) kernel_inv" unfolding eq using inv by (simp_all add: handler_safe_def)
    then show ?thesis by simp
  next
    case down: True
    then have safe: "handler_safe k \<longleftrightarrow> input_safe (key_code k) (after_read k)" using False by (auto simp: handler_safe_def)
    show ?thesis
    proof (cases "editor_active (after_read k)")
      case True
      have "keyboard_handler k = do { k \<leftarrow> editor_input (key_code k) (after_read k); Some (end_of_interrupt k) }"
        unfolding eq using True down by simp
      then show ?thesis using editor_input_contract [OF inv' True, of "key_code k"] unfolding safe by auto
    next
      case off: False
      have "keyboard_handler k = do { k \<leftarrow> shell_input (key_code k) (after_read k); Some (if halted k then k else end_of_interrupt k) }"
        unfolding eq using off down by simp
      then show ?thesis using shell_input_contract [OF inv' off, of "key_code k"] unfolding safe by (auto elim!: yields_mono)
    qed
  qed
qed

section \<open>Sessions\<close>

inductive kernel_run :: "kernel \<Rightarrow> kernel \<Rightarrow> bool" for k0 where
  run_start: "kernel_run k0 k0"
| run_key: "kernel_run k0 k \<Longrightarrow> \<not> halted k \<Longrightarrow> keyboard_handler k = Some k' \<Longrightarrow> kernel_run k0 k'"

lemma handler_inv: "kernel_inv k \<Longrightarrow> keyboard_handler k = Some k' \<Longrightarrow> kernel_inv k'"
  using handler_contract [of k] by (auto split: if_splits)

lemma kernel_run_inv: "kernel_run k0 k \<Longrightarrow> kernel_inv k0 \<Longrightarrow> kernel_inv k"
  by (induction rule: kernel_run.induct) (auto intro: handler_inv)

end
