(* ===== verification/Kernel_Run.thy ===== *)
theory Kernel_Run
  imports Kernel
begin

text \<open>
  The running system: booting (\<open>kernel_main\<close>), sessions of keyboard interrupts, and the properties
  of the kernel that span its components.
\<close>

section \<open>Booting\<close>

lemma terminal_initialize_ok:
  "length mem = 2000 \<Longrightarrow> yields (terminal_initialize mem t) terminal_ok"
  by (simp add: terminal_initialize_def blank_screen_eq terminal_ok_def vga_consts)

definition pic_bytes :: "(16 word \<times> 8 word) list" where
  "pic_bytes = [(0x20, 0x11), (0xA0, 0x11), (0x21, 0x20), (0xA1, 0x28), (0x21, 0x04), (0xA1, 0x02), (0x21, 0x01), (0xA1, 0x01),
     (0x21, 0xFF), (0xA1, 0xFF), (0x21, 0xFD)]"

lemma fold_outb:
  "bus_answers (fold (\<lambda>(p, v). outb p v) ps b) = bus_answers b"
  "\<forall>x \<in> set ps. fst x \<noteq> 0x80 \<Longrightarrow> sent (fold (\<lambda>(p, v). outb p v) ps b) = sent b @ ps"
  by (induction ps arbitrary: b) (auto simp: split_beta)

definition booted :: "32 word \<Rightarrow> 32 word \<Rightarrow> kernel \<Rightarrow> bool" where
  "booted handler addr k \<longleftrightarrow> kernel_inv k \<and> \<not> editor_active k \<and> \<not> halted k \<and> interrupts k \<and> typed_line k = [] \<and>
     cstr (current_path (fsys k)) = ''/'' \<and> keyboard k = \<lparr>shift_pressed = False, caps_lock = False, use_german_layout = True\<rparr> \<and>
     gate_address (idt k ! 0x20) = handler \<and> gate_address (idt k ! 0x21) = handler \<and>
     idtr k = Some \<lparr>limit = 0x7FF, base = addr\<rparr>"

lemma booted_screen: "booted h a (k\<lparr>vga := t, ports := io\<rparr>) = (booted h a k \<and> terminal_ok t)" if "terminal_ok (vga k)"
  using that by (auto simp: booted_def kernel_inv_def typed_line_def)

lemma init_idt_ok:
  assumes "length (idt k) = IDT_SIZE" and "terminal_ok (vga k)"
  shows "yields (init_idt handler addr k) (\<lambda>k'. \<exists>io gates cells. k' = k\<lparr>ports := io, idt := gates,
      idt_pointer := \<lparr>limit = 0x7FF, base = addr\<rparr>, idtr := Some \<lparr>limit = 0x7FF, base = addr\<rparr>,
      vga := (vga k)\<lparr>terminal_buffer := cells\<rparr>, interrupts := True\<rparr> \<and>
    bus_answers io = stl (bus_answers (ports k)) \<and> sent io = sent (ports k) @ pic_bytes \<and>
    length gates = IDT_SIZE \<and> gate_address (gates ! 0x20) = handler \<and> gate_address (gates ! 0x21) = handler \<and>
    terminal_ok ((vga k)\<lparr>terminal_buffer := cells\<rparr>))"
proof -
  let ?io = "fold (\<lambda>(p, v). outb p v) pic_bytes (ports k)"
  have io: "bus_answers ?io = bus_answers (ports k)" "sent ?io = sent (ports k) @ pic_bytes"
    by (simp_all add: fold_outb pic_bytes_def)
  obtain g1 where g1: "idt_set_entry 0x20 handler KERNEL_CODE_SEGMENT_OFFSET 0x8E (idt k) = Some g1" "length g1 = IDT_SIZE"
    "gate_address (g1 ! 0x20) = handler"
    using idt_set_entry_ok [where n = "0x20" and gates = "idt k" and handler = handler and sel = KERNEL_CODE_SEGMENT_OFFSET and attr = "0x8E"] assms(1) by (auto simp: yields_iff IDT_SIZE_def)
  obtain g2 where g2: "idt_set_entry 0x21 handler KERNEL_CODE_SEGMENT_OFFSET 0x8E g1 = Some g2" "length g2 = IDT_SIZE"
    "gate_address (g2 ! 0x21) = handler" "g2 ! 0x20 = g1 ! 0x20"
    using idt_set_entry_ok [where n = "0x21" and gates = g1 and handler = handler and sel = KERNEL_CODE_SEGMENT_OFFSET and attr = "0x8E"] g1(2) by (auto simp: yields_iff IDT_SIZE_def)
  have len: "length (terminal_buffer (vga k)) = 2000" using assms(2) by (simp add: terminal_ok_def)
  let ?v = "(terminal_buffer (vga k) ! 2 AND 0x00FF) OR push_bit 8 0x0F"
  let ?cells = "(terminal_buffer (vga k))[2 := ?v]"
  have cells: "terminal_ok ((vga k)\<lparr>terminal_buffer := ?cells\<rparr>)" using assms(2) by (simp add: terminal_ok_def)
  have "init_idt handler addr k = Some (k\<lparr>ports := snd (inb 0x21 ?io), idt := g2,
      idt_pointer := \<lparr>limit = 0x7FF, base = addr\<rparr>, idtr := Some \<lparr>limit = 0x7FF, base = addr\<rparr>,
      vga := (vga k)\<lparr>terminal_buffer := ?cells\<rparr>, interrupts := True\<rparr>)"
    using g1(1) g2(1) len by (simp add: init_idt_def pic_bytes_def [symmetric] split_beta Let_def IDT_SIZE_def)
  then show ?thesis
    by (simp only: yields_Some)
       (intro exI [of _ "snd (inb 0x21 ?io)"] exI [of _ g2] exI [of _ ?cells] conjI refl cells, use io g1 g2 in simp_all)
qed

text \<open>\<open>kernel_main\<close> reaches its idle loop exactly when the keyboard controller takes part in the
  dialogue of \<open>keyboard_init\<close>; the first answer of the bus goes to \<open>init_idt\<close>, which reads a mask.\<close>

lemma boot_contract:
  assumes mem: "length mem = 2000"
  shows "dialogue (stl (bus_answers io)) c ys \<Longrightarrow>
      yields (kernel_main mem handler addr (kernel_boot io)) (\<lambda>k. booted handler addr k \<and> bus_answers (ports k) = ys \<and>
        (\<exists>config. dialogue (stl (bus_answers io)) config ys \<and>
          sent (ports k) = sent io @ pic_bytes @ init_commands config))"
    and "(\<nexists>config ys. dialogue (stl (bus_answers io)) config ys) \<Longrightarrow>
      kernel_main mem handler addr (kernel_boot io) = None"
proof -
  let ?k0 = "kernel_boot io"
  obtain t1 where t1: "terminal_initialize mem (vga ?k0) = Some t1" "terminal_ok t1"
    by (rule yieldsE [OF terminal_initialize_ok [OF mem]]) blast
  obtain t2 where t2: "prints welcome_text t1 = Some t2" "terminal_ok t2"
    by (rule yieldsE [OF displays_ok [OF prints_displays [OF t1(2)]]]) (auto simp: welcome_text_def)
  obtain msg s where s: "fs_init fs_boot = Some (msg, s)" "fs_ok s" "terminated msg" "cstr (current_path s) = ''/''"
    by (rule yields_pairE [OF fs_init_ok]) blast
  obtain t3 where t3: "terminal_writestring msg t2 = Some t3" "terminal_ok t3"
    by (rule yieldsE [OF displays_ok [OF displays_string [OF t2(2) s(3)]]]) blast
  let ?k3 = "?k0\<lparr>fsys := s, vga := t3\<rparr>"
  have len: "length (idt ?k3) = IDT_SIZE" "terminal_ok (vga ?k3)" using t3(2) by (simp_all add: kernel_boot_def)
  obtain k4 bus gates cells where k4: "init_idt handler addr ?k3 = Some k4" "k4 = ?k3\<lparr>ports := bus, idt := gates,
      idt_pointer := \<lparr>limit = 0x7FF, base = addr\<rparr>, idtr := Some \<lparr>limit = 0x7FF, base = addr\<rparr>,
      vga := (vga ?k3)\<lparr>terminal_buffer := cells\<rparr>, interrupts := True\<rparr>"
    and bus: "bus_answers bus = stl (bus_answers io)" "sent bus = sent io @ pic_bytes"
    and g: "length gates = IDT_SIZE" "gate_address (gates ! 0x20) = handler" "gate_address (gates ! 0x21) = handler"
    and t4: "terminal_ok (vga k4)"
    by (rule yieldsE [OF init_idt_ok [OF len, of handler addr]]) (auto simp: kernel_boot_def)
  have k: "booted handler addr k4" using s(2,4) g t4 k4(2) ed_arrays_zero
    by (simp add: booted_def kernel_inv_def kernel_boot_def typed_line_def)
  have b: "bus_answers (ports k4) = stl (bus_answers io)" "sent (ports k4) = sent io @ pic_bytes" using k4(2) bus by simp_all
  have main: "kernel_main mem handler addr ?k0 = do {
      io \<leftarrow> keyboard_init (ports k4);
      k \<leftarrow> on_screen (prints starting_text) (k4\<lparr>ports := io\<rparr>);
      on_screen (shell_prompt (fsys k)) k }"
  proof -
    have "fsys ?k0 = fs_boot" by (simp add: kernel_boot_def)
    then show ?thesis using t1(1) t2(1) s(1) t3(1) k4(1) by (simp add: kernel_main_def on_screen_def)
  qed
  show "yields (kernel_main mem handler addr ?k0) (\<lambda>k. booted handler addr k \<and> bus_answers (ports k) = ys \<and>
        (\<exists>config. dialogue (stl (bus_answers io)) config ys \<and>
          sent (ports k) = sent io @ pic_bytes @ init_commands config))"
    if answered: "dialogue (stl (bus_answers io)) c ys"
  proof -
    obtain io' where io': "keyboard_init (ports k4) = Some io'" "bus_answers io' = ys"
      using answered keyboard_init_complete [of "ports k4"] b(1) by auto
    then obtain config where c: "dialogue (stl (bus_answers io)) config ys"
      "sent io' = sent io @ pic_bytes @ init_commands config" using keyboard_init_sound b by fastforce
    obtain t5 where t5: "prints starting_text (vga k4) = Some t5" "terminal_ok t5"
      by (rule yieldsE [OF displays_ok [OF prints_displays [OF t4]]]) (auto simp: starting_text_def)
    have "wf_fs (fsys k4)" using s(2) k4(2) fs_okD(1) by simp
    then obtain t6 where t6: "shell_prompt (fsys k4) t5 = Some t6" "terminal_ok t6"
      by (rule_tac yieldsE [OF displays_ok [OF shell_prompt_displays [OF _ t5(2)]]]) blast
    have "kernel_main mem handler addr ?k0 = Some (k4\<lparr>vga := t6, ports := io'\<rparr>)"
      unfolding main using io' t5(1) t6(1) by (simp add: on_screen_def)
    then show ?thesis using booted_screen [OF t4] k t6(2) c io'(2) by auto
  qed
  show "kernel_main mem handler addr ?k0 = None" if "\<nexists>config ys. dialogue (stl (bus_answers io)) config ys"
  proof -
    have "keyboard_init (ports k4) = None" using that keyboard_init_sound [of "ports k4"] b(1)
      by (cases "keyboard_init (ports k4)") auto
    then show ?thesis unfolding main by simp
  qed
qed

section \<open>Answers of the shell\<close>

text \<open>What the shell answers to the lines that only print, by the specifications of the outputs: nothing
  to an empty line, and a complaint about a word that is not the name of a command.\<close>

definition command_names :: "string list" where
  "command_names = [''help'', ''clear'', ''version'', ''exit'', ''pwd'', ''echo'', ''ls'', ''cd'', ''mkdir'', ''rmdir'', ''touch'',
     ''rm'', ''cp'', ''mv'', ''cat'', ''write'', ''stat'', ''tree'', ''edit'', ''vi'', ''kbd'']"

definition query_out :: "fs_state \<Rightarrow> string \<Rightarrow> printout option" where
  "query_out s x = (if x = [] then Some [] else case parse_spec x of (w, a, b) \<Rightarrow>
     if w \<notin> set command_names then Some (complain ''bash: '' w ('': command not found'' @ [NL]))
     else map_of [
       (''help'', help_text),
       (''version'', version_text),
       (''pwd'', [Say (cstr (current_path s)), Say [NL]]),
       (''echo'', echo_out a b),
       (''ls'', ls_spec s a),
       (''cat'', cat_spec s a),
       (''stat'', stat_spec s a),
       (''tree'', tree_spec s a)] w)"

text \<open>Steps of the shell that print \<open>xs\<close> and leave the files and the mode alone.\<close>

definition answers :: "printout \<Rightarrow> kernel \<Rightarrow> kernel \<Rightarrow> bool" where
  "answers xs k k' \<longleftrightarrow> kernel_inv k' \<and> fsys k' = fsys k \<and> editor_active k' = editor_active k \<and>
     halted k' = halted k \<and> tty_view (vga k') = fold show_seg xs (tty_view (vga k))"

lemma answersD:
  "answers xs k k' \<Longrightarrow> kernel_inv k'" "answers xs k k' \<Longrightarrow> fsys k' = fsys k"
  "answers xs k k' \<Longrightarrow> editor_active k' = editor_active k" "answers xs k k' \<Longrightarrow> halted k' = halted k"
  by (simp_all add: answers_def)

lemma answers_trans: "answers xs k k1 \<Longrightarrow> answers ys k1 k2 \<Longrightarrow> answers (xs @ ys) k k2"
  by (simp add: answers_def)

lemma on_screen_answers:
  assumes "kernel_inv k" and "displays xs (vga k) (f (vga k))"
  shows "yields (on_screen f k) (\<lambda>k'. answers xs k k' \<and> ports k' = ports k \<and> keyboard k' = keyboard k \<and>
    input_buffer k' = input_buffer k \<and> input_length k' = input_length k)"
  using assms by (auto simp: displays_def on_screen_def answers_def kernel_inv_def yields_iff)

lemma names_commands: "map_of commands w = None \<longleftrightarrow> w \<notin> set command_names"
  by (simp add: map_of_eq_None_iff commands_def command_names_def)

lemma query_displays:
  assumes inv: "kernel_inv k" and c: "argument c" and a: "argument a" and b: "argument b"
    and q: "query_out (fsys k) x = Some xs" and p: "parse_spec x = (cstr c, cstr a, cstr b)" and x: "x \<noteq> []"
  obtains f where "dispatch commands command_not_found c a b k = on_screen f k" "displays xs (vga k) (f (vga k))"
proof -
  note i = kernel_invD [OF inv] and run = shell.dispatch_part [OF order_refl c, of a b k]
  have t: "terminated a" "terminated b" "terminated c" using a b c by (simp_all add: argument_def)
  show ?thesis
  proof (cases "map_of commands (cstr c)")
    case None
    then have xs: "xs = complain ''bash: '' (cstr c) ('': command not found'' @ [NL])"
      using q x by (simp add: query_out_def p names_commands)
    have "displays xs (vga k) (print_about ''bash: '' c ('': command not found'' @ [NL]) (vga k))"
      unfolding xs print_about_def by (rule complain_displays [OF i(3) t(3)]) simp_all
    moreover have "dispatch commands command_not_found c a b k = on_screen (print_about ''bash: '' c ('': command not found'' @ [NL])) k"
      unfolding run None by (simp add: command_not_found_def)
    ultimately show ?thesis using that by blast
  next
    case (Some h)
    have d: "displays help_text (vga k) (shell_help (vga k))" "displays version_text (vga k) (shell_version (vga k))"
      "displays [Say (cstr (current_path (fsys k))), Say [NL]] (vga k) (shell_pwd (fsys k) (vga k))"
      "displays (echo_out (cstr a) (cstr b)) (vga k) (shell_echo a b (vga k))"
      "displays (ls_spec (fsys k) (cstr a)) (vga k) (shell_ls a (fsys k) (vga k))"
      "displays (cat_spec (fsys k) (cstr a)) (vga k) (shell_cat a (fsys k) (vga k))"
      "displays (stat_spec (fsys k) (cstr a)) (vga k) (shell_stat a (fsys k) (vga k))"
      "displays (tree_spec (fsys k) (cstr a)) (vga k) (shell_tree a (fsys k) (vga k))"
      by (rule shell_prints, (rule i t)+)+
    have "cstr c \<in> set command_names" using names_commands [of "cstr c"] Some by auto
    then have "\<exists>f. h a b k = on_screen f k \<and> displays xs (vga k) (f (vga k))"
      using Some q x d by (auto simp: query_out_def p commands_def split: if_splits)
    moreover have "dispatch commands command_not_found c a b k = h a b k" unfolding run Some by simp
    ultimately show ?thesis using that by auto
  qed
qed

lemma putchar_displays: "terminal_ok t \<Longrightarrow> displays [Say [c]] t (terminal_putchar c t)"
  using terminal_putchar_refines [of t c] unfolding displays_def
  by (auto simp: tty_view_def tty_step_def elim: yields_mono)

lemma enter_eq:
  assumes inv: "kernel_inv k"
  obtains k1 c a b where "answers [Say [NL]] k k1" "ports k1 = ports k" "keyboard k1 = keyboard k"
    "argument c" "argument a" "argument b" "parse_spec (typed_line k) = (cstr c, cstr a, cstr b)"
    "enter_line k = do {
       k \<leftarrow> (if typed_line k = [] then Some k1 else dispatch commands command_not_found c a b k1);
       if halted k then Some k else on_screen (shell_prompt (fsys k)) (k\<lparr>input_length := 0\<rparr>) }"
proof -
  obtain k1 where k1: "on_screen (terminal_putchar NL) k = Some k1" "answers [Say [NL]] k k1" "ports k1 = ports k" "keyboard k1 = keyboard k"
    "input_buffer k1 = input_buffer k" "input_length k1 = input_length k"
    by (rule yieldsE [OF on_screen_answers [where f = "terminal_putchar NL", OF inv putchar_displays [OF kernel_invD(3) [OF inv]]]]) blast
  have same: "typed_line k1 = typed_line k" using k1(5,6) by (simp add: typed_line_def)
  obtain line where line: "arr_set (input_buffer k1) (input_length k1) NUL = Some line" "terminated line" "cstr line = typed_line k"
    "kernel_inv (k1\<lparr>input_buffer := line\<rparr>)" by (rule typed_line_end [OF answersD(1) [OF k1(2)], unfolded same])
  let ?k = "k1\<lparr>input_buffer := line\<rparr>"
  obtain c a b where p: "argument c" "argument a" "argument b" "parse_spec (cstr line) = (cstr c, cstr a, cstr b)"
    "process_command line ?k = (if cstr line = [] then Some ?k else dispatch commands command_not_found c a b ?k)"
    by (rule process_command_eq [OF line(2)])
  have "answers [Say [NL]] k ?k" using k1(2) line(4) by (simp add: answers_def)
  moreover have "enter_line k = do {
       k \<leftarrow> (if typed_line k = [] then Some ?k else dispatch commands command_not_found c a b ?k);
       if halted k then Some k else on_screen (shell_prompt (fsys k)) (k\<lparr>input_length := 0\<rparr>) }"
    using k1(1) line(1,3) p(5) by (simp add: enter_line_def)
  ultimately show ?thesis using that [of ?k] k1(3,4) p(1-4) line(3) by simp
qed

lemma enter_answers:
  assumes inv: "kernel_inv k" and on: "\<not> halted k" and q: "query_out (fsys k) (typed_line k) = Some xs"
  shows "yields (enter_line k) (\<lambda>k'. answers (Say [NL] # xs @ prompt_out (fsys k)) k k' \<and> ports k' = ports k \<and>
    keyboard k' = keyboard k \<and> typed_line k' = [])"
proof -
  obtain k1 c a b where k1: "answers [Say [NL]] k k1" "ports k1 = ports k" "keyboard k1 = keyboard k" and p: "argument c" "argument a" "argument b"
      "parse_spec (typed_line k) = (cstr c, cstr a, cstr b)"
    and eq: "enter_line k = do {
       k \<leftarrow> (if typed_line k = [] then Some k1 else dispatch commands command_not_found c a b k1);
       if halted k then Some k else on_screen (shell_prompt (fsys k)) (k\<lparr>input_length := 0\<rparr>) }"
    by (rule enter_eq [OF inv])
  note i1 = answersD [OF k1(1)]
  have q1: "query_out (fsys k1) (typed_line k) = Some xs" using q i1(2) by simp
  obtain k2 where k2: "(if typed_line k = [] then Some k1 else dispatch commands command_not_found c a b k1) = Some k2"
    "answers xs k1 k2" "ports k2 = ports k1" "keyboard k2 = keyboard k1"
  proof (cases "typed_line k = []")
    case True
    then have "answers xs k1 k1" using q i1(1) by (simp add: query_out_def answers_def)
    then show ?thesis using that [of k1] True by simp
  next
    case False
    obtain f where f: "dispatch commands command_not_found c a b k1 = on_screen f k1" "displays xs (vga k1) (f (vga k1))"
      by (rule query_displays [OF i1(1) p(1-3) q1 p(4) False])
    show ?thesis by (rule yieldsE [OF on_screen_answers [where f = f, OF i1(1) f(2)]]) (use that f(1) False in auto)
  qed
  let ?k = "k2\<lparr>input_length := 0\<rparr>"
  have k3: "answers [] k2 ?k" using k2(2) by (auto simp: answers_def kernel_inv_def)
  note i3 = answersD [OF k3]
  obtain k4 where k4: "on_screen (shell_prompt (fsys k2)) ?k = Some k4" "answers (prompt_out (fsys k2)) ?k k4" "ports k4 = ports ?k"
    "keyboard k4 = keyboard ?k" "input_length k4 = input_length ?k"
    by (rule yieldsE [OF on_screen_answers [where f = "shell_prompt (fsys k2)", OF i3(1) shell_prompt_displays]])
       (use kernel_invD [OF i3(1)] in auto)
  have "answers ([Say [NL]] @ xs @ [] @ prompt_out (fsys k2)) k k4"
    by (intro answers_trans [OF k1(1)] answers_trans [OF k2(2)] answers_trans [OF k3] k4(2))
  moreover have "halted k2 = False" "fsys k2 = fsys k" using answersD [OF k2(2)] i1 on by simp_all
  ultimately show ?thesis unfolding eq using k2(1,3,4) k4(1,3-5) k1(2,3) by (simp add: typed_line_def)
qed

section \<open>Lines from the keyboard\<close>

text \<open>The decoding of scan codes: what a byte of the keyboard does to Shift and Caps Lock, and the
  character it adds to the line. Releases, the keys with no character and the codes from 90 on add
  nothing; a code behind the end of the US tables has no meaning.\<close>

definition decode_byte :: "keys \<Rightarrow> 8 word \<Rightarrow> (keys \<times> string) option" where
  "decode_byte ks b = (
     let sc = b AND 0x7F; down = (b AND 0x80 = 0)
     in if sc = SCANCODE_LEFT_SHIFT \<or> sc = SCANCODE_RIGHT_SHIFT then Some (ks\<lparr>shift_pressed := down\<rparr>, [])
        else if sc = SCANCODE_CAPS_LOCK \<and> down then Some (ks\<lparr>caps_lock := \<not> caps_lock ks\<rparr>, [])
        else if \<not> down \<or> 90 \<le> unat sc then Some (ks, [])
        else do { c \<leftarrow> scancode_ascii ks sc; Some (ks, if c = NUL then [] else [c]) })"

fun decode :: "keys \<Rightarrow> 8 word list \<Rightarrow> (keys \<times> string) option" where
  "decode ks [] = Some (ks, [])"
| "decode ks (b # bs) = do { (ks, x) \<leftarrow> decode_byte ks b; (ks, y) \<leftarrow> decode ks bs; Some (ks, x @ y) }"

lemma length_typed_line: "kernel_inv k \<Longrightarrow> length (typed_line k) = input_length k"
  by (simp add: typed_line_def kernel_inv_def)

lemma shell_step:
  assumes "\<not> editor_active k" and "\<not> (key_code k = SCANCODE_LEFT_SHIFT \<or> key_code k = SCANCODE_RIGHT_SHIFT)"
    and "\<not> (key_code k = SCANCODE_CAPS_LOCK \<and> pressed k)"
  shows "keyboard_handler k = do {
      k \<leftarrow> (if pressed k then shell_input (key_code k) (after_read k) else Some (after_read k));
      Some (if halted k then k else end_of_interrupt k) }"
  unfolding keyboard_handler_eq using assms by auto

lemma shell_input_char:
  assumes inv: "kernel_inv k" and c: "scancode_ascii (keyboard k) sc = Some c" "unat sc < 90" "c \<noteq> NL"
    and room: "length (typed_line k @ (if c = NUL then [] else [c])) \<le> 255"
  shows "yields (shell_input sc k) (\<lambda>k'. answers [Say (if c = NUL then [] else [c])] k k' \<and> ports k' = ports k \<and>
    keyboard k' = keyboard k \<and> typed_line k' = typed_line k @ (if c = NUL then [] else [c]))"
proof (cases "c = NUL")
  case True
  then show ?thesis using inv c by (simp add: shell_input_def answers_def)
next
  case False
  have room': "input_length k < length (input_buffer k) - 1" using room False inv length_typed_line [OF inv] by (simp add: kernel_inv_def)
  let ?k = "k\<lparr>input_buffer := (input_buffer k)[input_length k := c], input_length := input_length k + 1\<rparr>"
  obtain k' where k': "store_key c k = Some k'" "kernel_inv k'" "typed_line k' = typed_line k @ [c]"
    by (rule yieldsE [OF store_key_ok [OF inv False room']]) blast
  have "store_key c k = on_screen (terminal_putchar c) ?k" using room' by (simp add: store_key_def)
  then obtain t where t: "k' = ?k\<lparr>vga := t\<rparr>" "terminal_putchar c (vga k) = Some t" using k'(1) on_screen_frame [of _ ?k k'] by auto
  have "tty_view t = tty_step c (tty_view (vga k))"
    using putchar_displays [OF kernel_invD(3) [OF inv], of c] t(2) by (simp add: displays_def)
  then show ?thesis using k' t c False room' by (simp add: shell_input_def answers_def)
qed

lemma byte_step:
  assumes inv: "kernel_inv k" and off: "\<not> editor_active k" and on: "\<not> halted k"
    and b: "decode_byte (keyboard k) (next_byte k) = Some (ks, x)" "NL \<notin> set x" and room: "length (typed_line k @ x) \<le> 255"
  shows "yields (keyboard_handler k) (\<lambda>k'. answers [Say x] k k' \<and> keyboard k' = ks \<and> typed_line k' = typed_line k @ x \<and>
    bus_answers (ports k') = stl (bus_answers (ports k)))"
proof -
  let ?r = "after_read k"
  have r: "kernel_inv ?r" "bus_answers (ports ?r) = stl (bus_answers (ports k))" "typed_line ?r = typed_line k" "keyboard ?r = keyboard k"
    "halted ?r = halted k" using inv by (simp_all add: after_read_def inb_def typed_line_def)
  show ?thesis
  proof (cases "key_code k = SCANCODE_LEFT_SHIFT \<or> key_code k = SCANCODE_RIGHT_SHIFT \<or> key_code k = SCANCODE_CAPS_LOCK \<and> pressed k")
    case True
    then show ?thesis using b inv r shift_not_caps unfolding keyboard_handler_eq
      by (auto simp: decode_byte_def key_code_def pressed_def Let_def answers_def after_read_def end_of_interrupt_def typed_line_def
        split: if_splits)
  next
    case False
    then have step: "keyboard_handler k = do {
        k \<leftarrow> (if pressed k then shell_input (key_code k) ?r else Some ?r);
        Some (if halted k then k else end_of_interrupt k) }" by (intro shell_step off) auto
    have "yields (if pressed k then shell_input (key_code k) ?r else Some ?r) (\<lambda>k'. answers [Say x] ?r k' \<and>
        ports k' = ports ?r \<and> keyboard k' = ks \<and> typed_line k' = typed_line k @ x)"
    proof (cases "pressed k \<and> unat (key_code k) < 90")
      case True
      then obtain c where c: "scancode_ascii (keyboard k) (key_code k) = Some c" "x = (if c = NUL then [] else [c])" "ks = keyboard k"
        using b False by (auto simp: decode_byte_def key_code_def pressed_def Let_def bind_eq_Some_conv)
      then have "c \<noteq> NL" using b(2) by (auto split: if_splits)
      then show ?thesis using shell_input_char [OF r(1), of "key_code k" c] True c room r(3,4) by simp
    next
      case off: False
      have "key_code k = 0x0E \<Longrightarrow> unat (key_code k) < 90" by simp
      then have "(if pressed k then shell_input (key_code k) ?r else Some ?r) = Some ?r" "x = []" "ks = keyboard k"
        using off b False by (auto simp: shell_input_def decode_byte_def key_code_def pressed_def Let_def)
      then show ?thesis using r by (simp add: answers_def)
    qed
    then obtain k' where k': "(if pressed k then shell_input (key_code k) ?r else Some ?r) = Some k'" "answers [Say x] ?r k'"
      "ports k' = ports ?r" "keyboard k' = ks" "typed_line k' = typed_line k @ x" by (auto simp: yields_iff)
    have "keyboard_handler k = Some (end_of_interrupt k')" unfolding step using k'(1) answersD(4) [OF k'(2)] r(5) on by simp
    then show ?thesis using k' r(2) by (simp add: answers_def after_read_def end_of_interrupt_def typed_line_def)
  qed
qed

lemma kernel_run_step: "\<not> halted k \<Longrightarrow> keyboard_handler k = Some k1 \<Longrightarrow> kernel_run k1 k' \<Longrightarrow> kernel_run k k'"
  by (rotate_tac 2, induction rule: kernel_run.induct) (auto intro: kernel_run.intros)

lemma line_run:
  assumes "kernel_inv k" "\<not> editor_active k" "\<not> halted k" "bus_answers (ports k) = bs @- rest"
    and "decode (keyboard k) bs = Some (ks, x)" "NL \<notin> set x" "length (typed_line k @ x) \<le> 255"
  shows "\<exists>k'. kernel_run k k' \<and> answers [Say x] k k' \<and> keyboard k' = ks \<and> typed_line k' = typed_line k @ x \<and>
    bus_answers (ports k') = rest"
  using assms
proof (induction bs arbitrary: k x)
  case Nil
  then show ?case by (intro exI [of _ k]) (auto simp: answers_def run_start)
next
  case (Cons b bs)
  obtain ks1 y z where d: "decode_byte (keyboard k) b = Some (ks1, y)" "decode ks1 bs = Some (ks, z)" "x = y @ z"
    using Cons.prems(5) by (auto simp: bind_eq_Some_conv)
  have "next_byte k = b" using Cons.prems(4) by (simp add: next_byte_def)
  then obtain k1 where k1: "keyboard_handler k = Some k1" "answers [Say y] k k1" "keyboard k1 = ks1" "typed_line k1 = typed_line k @ y"
    "bus_answers (ports k1) = bs @- rest"
    by (rule_tac yieldsE [OF byte_step [OF Cons.prems(1-3), of ks1 y]]) (use d Cons.prems in auto)
  note a = answersD [OF k1(2)]
  obtain k2 where k2: "kernel_run k1 k2" "answers [Say z] k1 k2" "keyboard k2 = ks" "typed_line k2 = typed_line k1 @ z"
    "bus_answers (ports k2) = rest"
    using Cons.IH [OF a(1) _ _ k1(5), of z] a(3,4) Cons.prems(2,3,6,7) k1(3,4) d by auto
  have "answers [Say x] k k2" using answers_trans [OF k1(2) k2(2)] d(3) by (simp add: answers_def)
  then show ?case using kernel_run_step [OF Cons.prems(3) k1(1) k2(1)] k2 k1(4) d(3) by auto
qed

lemma enter_key: "scancode_ascii ks 0x1C = Some NL"
  by (simp add: scancode_ascii_eq layout_def apply_caps_eq lower_def scancode_to_ascii_def scancode_to_ascii_de_def
    scancode_to_ascii_shift_def scancode_to_ascii_de_shift_def)

lemma enter_handler:
  assumes "next_byte k = 0x1C" and off: "\<not> editor_active k"
  shows "keyboard_handler k = do { k \<leftarrow> enter_line (after_read k); Some (if halted k then k else end_of_interrupt k) }"
proof -
  have "key_code k = 0x1C" "pressed k" using assms(1) by (simp_all add: key_code_def pressed_def)
  then show ?thesis using shell_step [OF off] enter_key
    by (simp add: shell_input_def SCANCODE_LEFT_SHIFT_def SCANCODE_RIGHT_SHIFT_def SCANCODE_CAPS_LOCK_def)
qed

text \<open>No handler but the interrupt's own code touches the ports.\<close>

definition quiet :: "(kernel \<Rightarrow> kernel option) \<Rightarrow> bool" where
  "quiet f \<longleftrightarrow> (\<forall>k k'. f k = Some k' \<longrightarrow> ports k' = ports k)"

lemma quietD: "quiet f \<Longrightarrow> f k = Some k' \<Longrightarrow> ports k' = ports k"
  by (simp add: quiet_def)

lemma quiet_on_screen: "quiet (on_screen f)" "quiet (\<lambda>k. on_screen (g k) k)" "quiet (on_files h)"
  by (auto simp: quiet_def on_screen_def on_files_def bind_eq_Some_conv)

lemma quiet_run_editor: "quiet (run_editor a)"
  by (auto simp: quiet_def run_editor_def Let_def bind_eq_Some_conv)

lemma quiet_kbd: "quiet (shell_kbd a)"
  unfolding quiet_def shell_kbd_def bind_eq_Some_conv
  by (auto simp: set_layout_def bind_eq_Some_conv dest!: on_screen_frame split: if_split_asm)

lemma quiet_editor: "quiet (shell_edit a)" "quiet shell_exit"
  using quiet_run_editor
  by (auto simp: quiet_def shell_edit_def shell_exit_def bind_eq_Some_conv dest!: on_screen_frame split: if_split_asm)

lemma quiet_commands: "list_all (\<lambda>(w, h). quiet (h a b)) commands"
  unfolding commands_def list.pred_inject prod.case
  by (intro conjI list.pred_inject(1) quiet_on_screen quiet_editor quiet_kbd)

lemma quiet_dispatch: "list_all (\<lambda>(w, h). quiet (h a b)) hs \<Longrightarrow> quiet (dispatch hs command_not_found c a b)"
proof (induction hs)
  case Nil
  then show ?case unfolding dispatch.simps command_not_found_def by (simp add: quiet_on_screen)
next
  case (Cons x hs)
  obtain w h where x: "x = (w, h)" by (cases x)
  have q: "quiet (h a b)" "quiet (dispatch hs command_not_found c a b)" using Cons by (simp_all add: x)
  have "ports k' = ports k" if run: "dispatch (x # hs) command_not_found c a b k = Some k'" for k k'
  proof -
    have "h a b k = Some k' \<or> dispatch hs command_not_found c a b k = Some k'"
      using run unfolding x dispatch.simps bind_eq_Some_conv by (metis (full_types))
    then show ?thesis using quietD [OF q(1)] quietD [OF q(2)] by blast
  qed
  then show ?case by (simp add: quiet_def)
qed

lemma quiet_process_command: "quiet (process_command line)"
  using quietD [OF quiet_dispatch [OF quiet_commands]]
  by (auto simp: quiet_def process_command_def bind_eq_Some_conv split: if_splits)

lemma quiet_enter: "quiet enter_line"
  unfolding quiet_def enter_line_def Let_def bind_eq_Some_conv
  by (auto dest!: on_screen_frame quietD [OF quiet_process_command] split: if_split_asm)

lemma quiet_store: "quiet (store_key c)"
  unfolding quiet_def store_key_def bind_eq_Some_conv by (auto dest!: on_screen_frame)

lemma quiet_shell_input: "quiet (shell_input sc)"
  using quietD [OF quiet_enter] quietD [OF quiet_store] unfolding quiet_def shell_input_def bind_eq_Some_conv
  by (auto dest!: on_screen_frame simp: bind_eq_Some_conv split: if_split_asm)

lemma editor_input_frame: "editor_input sc k = Some k' \<Longrightarrow> ports k' = ports k \<and> halted k' = halted k"
  unfolding editor_input_def Let_def bind_eq_Some_conv
  by (auto simp: bind_eq_Some_conv dest!: on_screen_frame split: if_split_asm)

text \<open>Opening the editor from the shell, and a key without meaning.\<close>

lemma run_editor_halted: "run_editor a k = Some k' \<Longrightarrow> halted k' = halted k"
  by (auto simp: run_editor_def Let_def bind_eq_Some_conv)

lemma edit_line:
  assumes inv: "kernel_inv k" and on: "\<not> halted k" and p: "parse_spec (typed_line k) = (w, x, y)" and w: "w \<in> {''edit'', ''vi''}"
  shows "yields (enter_line k) (\<lambda>k'. kernel_inv k' \<and> editor_active k' \<and> fsys k' = fsys k \<and> \<not> halted k' \<and> typed_line k' = [] \<and>
    ed_view (editor k') = (opened (fsys k) x, 0, 0, False) \<and> ed_mode (editor k') = MODE_NORMAL \<and>
    cstr (ed_filename (editor k')) = (if x = [] then ''untitled.txt'' else x))"
proof -
  obtain k1 c a b where k1: "answers [Say [NL]] k k1" and c: "argument c" "argument a" "argument b" "(w, x, y) = (cstr c, cstr a, cstr b)"
    and eq: "enter_line k = do {
       k \<leftarrow> (if typed_line k = [] then Some k1 else dispatch commands command_not_found c a b k1);
       if halted k then Some k else on_screen (shell_prompt (fsys k)) (k\<lparr>input_length := 0\<rparr>) }"
    by (rule enter_eq [OF inv]) (auto simp: p)
  note i1 = answersD [OF k1]
  let ?a = "if x = [] then lit [] else a"
  have a: "argument ?a" "cstr ?a = x" "terminated a" using c(2,4) by (auto simp: argument_def cstr_lit MAX_FILENAME_LENGTH_def)
  have "map_of commands w = Some (\<lambda>a b. shell_edit a)" using w by (auto simp: commands_def)
  then have d: "dispatch commands command_not_found c a b k1 = run_editor ?a k1"
    using shell.dispatch_part [OF order_refl c(1), of a b k1] c(4) shell_edit_eq [OF a(3), of k1] by auto
  obtain k2 where k2: "run_editor ?a k1 = Some k2" "kernel_inv k2" "editor_active k2" "fsys k2 = fsys k1"
    "ed_view (editor k2) = (opened (fsys k1) x, 0, 0, False)" "ed_mode (editor k2) = MODE_NORMAL"
    "cstr (ed_filename (editor k2)) = (if x = [] then ''untitled.txt'' else x)"
    by (rule yieldsE [OF run_editor_ok [OF i1(1) a(1), unfolded a(2)]]) blast
  have live: "\<not> halted k2" using run_editor_halted [OF k2(1)] i1(4) on by simp
  let ?k = "k2\<lparr>input_length := 0\<rparr>"
  have inv2: "kernel_inv ?k" using k2(2) by (simp add: kernel_inv_def)
  obtain k3 where k3: "on_screen (shell_prompt (fsys k2)) ?k = Some k3" "kernel_inv k3"
    using prompt_ok [OF inv2] by (auto simp: yields_iff)
  obtain t where t: "k3 = ?k\<lparr>vga := t\<rparr>" using on_screen_frame [OF k3(1)] by blast
  have "typed_line k \<noteq> []" using p w by (auto simp: parse_spec_def first_word_def)
  then have "enter_line k = Some k3" unfolding eq using d k2(1) live k3(1) by simp
  then show ?thesis using k3(2) t k2 live i1(2) by (simp add: typed_line_def)
qed

lemma backspace_key: "scancode_ascii ks 0x0E = Some NUL"
  by (simp add: scancode_ascii_eq layout_def apply_caps_eq lower_def scancode_to_ascii_def scancode_to_ascii_de_def
    scancode_to_ascii_shift_def scancode_to_ascii_de_shift_def)

section \<open>A concrete kernel\<close>

definition demo_kernel :: "8 word stream \<Rightarrow> string \<Rightarrow> kernel" where
  "demo_kernel bytes x = (kernel_boot \<lparr>bus_answers = bytes, bus_log = []\<rparr>)\<lparr>vga := demo_terminal, fsys := demo_fs,
     input_buffer := x @ replicate (256 - length x) NUL, input_length := length x\<rparr>"

lemma demo_kernel [simp]:
  "fsys (demo_kernel bytes x) = demo_fs" "vga (demo_kernel bytes x) = demo_terminal" "typed_line (demo_kernel bytes x) = x"
  "bus_answers (ports (demo_kernel bytes x)) = bytes" "sent (ports (demo_kernel bytes x)) = []"
  "keyboard (demo_kernel bytes x) = \<lparr>shift_pressed = False, caps_lock = False, use_german_layout = True\<rparr>"
  "\<not> editor_active (demo_kernel bytes x)" "\<not> halted (demo_kernel bytes x)" "next_byte (demo_kernel bytes x) = shd bytes"
  by (simp_all add: demo_kernel_def kernel_boot_def typed_line_def sent_def next_byte_def)

lemma demo_kernel_inv: "length x \<le> 255 \<Longrightarrow> NUL \<notin> set x \<Longrightarrow> kernel_inv (demo_kernel bytes x)"
  by (simp add: kernel_inv_def demo_kernel_def kernel_boot_def demo_fs_ok demo_terminal_ok ed_arrays_zero)

definition demo_bus :: "8 word stream \<Rightarrow> bus" where
  "demo_bus ys = \<lparr>bus_answers = 0xFF ## [0, 0, 0x45, 1, 0xFA, 1, 0xAA, 1, 0xFA] @- ys, bus_log = []\<rparr>"

lemma demo_bus: "dialogue (stl (bus_answers (demo_bus ys))) 0x45 ys" "sent (demo_bus ys) = []"
  unfolding demo_bus_def using demo_dialogue [of ys] by (simp_all add: sent_def)

section \<open>Properties\<close>

text \<open>C2: handling an interrupt is defined exactly when the key is safe: a key inside the tables of
  the layout, in the editor a Backspace whose joined line fits its row, in the shell an Enter on
  any line but a \<open>cd\<close> to a directory whose path overruns \<open>current_path\<close>. Then the state stays well-formed:
  files, screen, line, editor and interrupt table; otherwise the code leaves an array.\<close>

theorem handler_exact:
  assumes "kernel_inv k"
  shows "if handler_safe k then yields (keyboard_handler k) kernel_inv else keyboard_handler k = None"
  using assms by (rule handler_contract)

text \<open>C9: booting reaches the idle loop exactly when the keyboard controller answers; the kernel is
  then well-formed, at the root of its file system with an empty line and interrupts on, both
  gates lead to the handler, the table is loaded with its size, and the ports have received the
  bytes for the two interrupt controllers and then those for the keyboard controller.\<close>

theorem kernel_boots:
  assumes "length mem = 2000"
  shows "if \<exists>config ys. dialogue (stl (bus_answers io)) config ys
    then yields (kernel_main mem handler addr (kernel_boot io)) (\<lambda>k. booted handler addr k \<and>
        (\<exists>config. dialogue (stl (bus_answers io)) config (bus_answers (ports k)) \<and>
          sent (ports k) = sent io @ pic_bytes @ init_commands config))
    else kernel_main mem handler addr (kernel_boot io) = None"
proof (cases "\<exists>config ys. dialogue (stl (bus_answers io)) config ys")
  case True
  then obtain c ys where "dialogue (stl (bus_answers io)) c ys" by blast
  from boot_contract(1) [OF assms this] have "yields (kernel_main mem handler addr (kernel_boot io)) (\<lambda>k. booted handler addr k \<and>
        (\<exists>config. dialogue (stl (bus_answers io)) config (bus_answers (ports k)) \<and>
          sent (ports k) = sent io @ pic_bytes @ init_commands config))" by (rule yields_mono) auto
  then show ?thesis using True by simp
next
  case False
  then show ?thesis using boot_contract(2) [OF assms] by simp
qed

text \<open>C1: every state that a booted kernel reaches by handling keyboard interrupts, whatever bytes the
  keyboard sends, satisfies the invariant of the whole system.\<close>

theorem kernel_session_inv:
  assumes mem: "length mem = 2000" and boot: "kernel_main mem handler addr (kernel_boot io) = Some k0" and run: "kernel_run k0 k"
  shows "kernel_inv k"
proof -
  obtain c ys where "dialogue (stl (bus_answers io)) c ys" using boot_contract(2) [OF mem] boot by fastforce
  from boot_contract(1) [OF mem this, of handler addr] have "kernel_inv k0" using boot by (auto simp: booted_def)
  with run show ?thesis by (rule kernel_run_inv)
qed

text \<open>C21: each interrupt reads one byte from the keyboard and, unless it halts the machine, sends one
  end-of-interrupt to the first interrupt controller and nothing else to any port.\<close>

theorem interrupt_acknowledged:
  assumes "keyboard_handler k = Some k'" and "\<not> halted k"
  shows "bus_answers (ports k') = stl (bus_answers (ports k)) \<and>
    sent (ports k') = sent (ports k) @ (if halted k' then [] else [(0x20, 0x20)])"
proof -
  have r: "ports (after_read k) = snd (inb KEYBOARD_DATA_PORT (ports k))" "halted (after_read k) = halted k"
    by (simp_all add: after_read_def)
  obtain k1 where k1: "ports k1 = ports (after_read k)" "k' = (if halted k1 then k1 else end_of_interrupt k1)"
  proof (cases "editor_active k \<and> current_editor k \<and> pressed k \<and> \<not> modifier (key_code k)")
    case True
    then obtain k1 where k1: "editor_input (key_code k) (after_read k) = Some k1" "k' = end_of_interrupt k1"
      using assms(1) by (auto simp: keyboard_handler_eq modifier_def bind_eq_Some_conv)
    then show ?thesis using that [of k1] editor_input_frame [OF k1(1)] assms(2) r(2) by simp
  next
    case False
    then consider ks where "k' = end_of_interrupt ((after_read k)\<lparr>keyboard := ks\<rparr>)" | "k' = end_of_interrupt (after_read k)"
      | "shell_input (key_code k) (after_read k) = Some k'" "halted k'"
      | k1 where "shell_input (key_code k) (after_read k) = Some k1" "\<not> halted k1" "k' = end_of_interrupt k1"
      using assms r(2) unfolding keyboard_handler_eq modifier_def
      by (auto simp: bind_eq_Some_conv split: if_split_asm) (cases "halted k'"; simp)+
    then show ?thesis
    proof cases
      case (1 ks)
      then show ?thesis using that [of "(after_read k)\<lparr>keyboard := ks\<rparr>"] assms(2) r(2) by simp
    next
      case 2
      then show ?thesis using that [of "after_read k"] assms(2) r(2) by simp
    next
      case 3
      then show ?thesis using that [OF quietD [OF quiet_shell_input 3(1)]] by simp
    next
      case (4 k1)
      then show ?thesis using that [OF quietD [OF quiet_shell_input 4(1)]] by simp
    qed
  qed
  show ?thesis using k1(1) r(1) unfolding k1(2) by (simp add: end_of_interrupt_def)
qed

text \<open>C5: a line that only prints is answered. Let the line be empty, start with a word that is no
  command, or be one of \<open>help\<close>, \<open>version\<close>, \<open>pwd\<close>, \<open>echo\<close>, \<open>ls\<close>, \<open>cat\<close>, \<open>stat\<close>, \<open>tree\<close>, and have at most 255
  characters. The bytes of its keys, with Shift and Caps Lock as the user holds them, and then Enter,
  show the line, the answer to it and the prompt; the files are as before and the line is empty again.
  Words are printed as they are typed: \<open>echo\<close> keeps quotation marks and drops blanks after the second word.\<close>

theorem line_answered:
  assumes "kernel_inv k" and "\<not> editor_active k" and "\<not> halted k" and empty: "typed_line k = []"
    and bus: "bus_answers (ports k) = bs @- 0x1C ## rest"
    and x: "decode (keyboard k) bs = Some (ks, x)" "NL \<notin> set x" "length x \<le> 255"
    and q: "query_out (fsys k) x = Some xs"
  shows "\<exists>k'. kernel_run k k' \<and> kernel_inv k' \<and> fsys k' = fsys k \<and> keyboard k' = ks \<and> typed_line k' = [] \<and> \<not> editor_active k' \<and>
    bus_answers (ports k') = rest \<and>
    tty_view (vga k') = fold show_seg ([Say x, Say [NL]] @ xs @ prompt_out (fsys k)) (tty_view (vga k))"
proof -
  obtain k1 where k1: "kernel_run k k1" "answers [Say x] k k1" "keyboard k1 = ks" "typed_line k1 = x" "bus_answers (ports k1) = 0x1C ## rest"
    using line_run [OF assms(1-3) bus x(1,2)] x(3) empty by auto
  let ?r = "after_read k1"
  have r: "kernel_inv ?r" "fsys ?r = fsys k" "\<not> halted ?r" "\<not> editor_active k1" "typed_line ?r = x" "vga ?r = vga k1" "keyboard ?r = ks"
    "bus_answers (ports ?r) = rest" "\<not> halted k1" "next_byte k1 = 0x1C" "editor_active ?r = editor_active k"
    using k1 assms(2,3) answersD [OF k1(2)] by (simp_all add: after_read_def inb_def typed_line_def next_byte_def)
  have "query_out (fsys ?r) (typed_line ?r) = Some xs" using q r(2,5) by simp
  then obtain k2 where k2: "enter_line ?r = Some k2" "answers (Say [NL] # xs @ prompt_out (fsys ?r)) ?r k2" "ports k2 = ports ?r"
    "keyboard k2 = keyboard ?r" "typed_line k2 = []"
    by (rule_tac yieldsE [OF enter_answers [OF r(1,3)]]) auto
  note a = answersD [OF k2(2)]
  have h: "keyboard_handler k1 = Some (end_of_interrupt k2)" unfolding enter_handler [OF r(10,4)] using k2(1) a(4) r(3) by simp
  have "kernel_run k (end_of_interrupt k2)" by (rule run_key [OF k1(1) r(9) h])
  moreover have "tty_view (vga k2) = fold show_seg ([Say x, Say [NL]] @ xs @ prompt_out (fsys k)) (tty_view (vga k))"
    using k1(2) k2(2) r(2,6) by (simp add: answers_def)
  ultimately show ?thesis using a r k2(3-5) assms(2)
    by (intro exI [of _ "end_of_interrupt k2"]) (simp add: end_of_interrupt_def kernel_inv_def typed_line_def)
qed

text \<open>C19: Enter on a line \<open>edit name\<close> or \<open>vi name\<close> opens the editor: it is in normal mode at the first
  character with the lines of the file, or an empty line when there is no such file, under the given
  name or \<open>untitled.txt\<close>; the files are untouched, and the next keys go to the editor.\<close>

theorem edit_opens_file:
  assumes "kernel_inv k" and "\<not> halted k" and "\<not> editor_active k" and key: "next_byte k = 0x1C"
    and p: "parse_spec (typed_line k) = (w, x, y)" and w: "w \<in> {''edit'', ''vi''}"
  shows "yields (keyboard_handler k) (\<lambda>k'. kernel_inv k' \<and> editor_active k' \<and> fsys k' = fsys k \<and> typed_line k' = [] \<and>
    ed_view (editor k') = (opened (fsys k) x, 0, 0, False) \<and> ed_mode (editor k') = MODE_NORMAL \<and>
    cstr (ed_filename (editor k')) = (if x = [] then ''untitled.txt'' else x))"
proof -
  let ?r = "after_read k"
  have r: "kernel_inv ?r" "\<not> halted ?r" "typed_line ?r = typed_line k" "fsys ?r = fsys k"
    using assms(1,2) by (simp_all add: after_read_def typed_line_def)
  obtain k1 where k1: "enter_line ?r = Some k1" "kernel_inv k1" "editor_active k1" "fsys k1 = fsys k" "\<not> halted k1" "typed_line k1 = []"
    "ed_view (editor k1) = (opened (fsys k) x, 0, 0, False)" "ed_mode (editor k1) = MODE_NORMAL"
    "cstr (ed_filename (editor k1)) = (if x = [] then ''untitled.txt'' else x)"
    by (rule yieldsE [OF edit_line [OF r(1,2) p [folded r(3)] w, unfolded r(4)]]) blast
  then show ?thesis unfolding enter_handler [OF key assms(3)] by (simp add: end_of_interrupt_def typed_line_def)
qed

text \<open>C20: while the editor is active, every key that is pressed goes to it as the layout, Shift and Caps
  Lock translate it, and does to the lines, the cursor, the mode and the command line what the
  editor's state machine says; the shell's line stays as it is, the files change only when a save
  runs, and the shell gets the keyboard back exactly when the editor exits.\<close>

theorem editor_keys_handled:
  assumes "kernel_inv k" and act: "editor_active k" and key: "pressed k" "\<not> modifier (key_code k)"
    and c: "key_char k (key_code k) = Some c" and fits: "key_fits (key_code k) (editor k)"
  shows "yields (keyboard_handler k) (\<lambda>k'. kernel_inv k' \<and> (editor_active k' \<longleftrightarrow> ed_mode (editor k') \<noteq> MODE_EXIT) \<and>
    (\<not> saves (key_code k) (editor k) \<longrightarrow> fsys k' = fsys k) \<and> typed_line k' = typed_line k \<and>
    (\<exists>saved. (saved \<longrightarrow> join_lines (ed_lines (editor k)) = []) \<and>
      ed_spec (editor k') = spec_key saved c (key_code k) (ed_spec (editor k))))"
proof -
  let ?r = "after_read k"
  have "key_char ?r sc = key_char k sc" for sc by (simp add: key_char_def after_read_def)
  then have r: "kernel_inv ?r" "editor_active ?r" "key_char ?r (key_code k) = Some c" "key_fits (key_code k) (editor ?r)"
    "editor ?r = editor k" "fsys ?r = fsys k" "typed_line ?r = typed_line k"
    using assms by (simp_all add: after_read_def typed_line_def)
  have "current_editor k" using assms(1) act by (simp add: kernel_inv_def)
  then have h: "keyboard_handler k = do { k \<leftarrow> editor_input (key_code k) ?r; Some (end_of_interrupt k) }"
    using key act unfolding keyboard_handler_eq modifier_def by simp
  show ?thesis unfolding h
    by (rule yieldsE [OF editor_input_refines [OF r(1-4), unfolded r(5-7)]])
       (simp add: end_of_interrupt_def typed_line_def)
qed

text \<open>C39: Backspace does nothing in the shell: its scan code is below the bound of the tables, which
  have no character for it, so that the branch that removes a character is never taken.\<close>

theorem backspace_ignored:
  assumes "next_byte k = 0x0E" and "\<not> editor_active k"
  shows "\<exists>io. keyboard_handler k = Some (k\<lparr>ports := io\<rparr>)"
proof -
  have "key_code k = 0x0E" "pressed k" using assms(1) by (simp_all add: key_code_def pressed_def)
  then have "keyboard_handler k = Some (if halted k then after_read k else end_of_interrupt (after_read k))"
    using shell_step [OF assms(2)] backspace_key
    by (simp add: shell_input_def after_read_def SCANCODE_LEFT_SHIFT_def SCANCODE_RIGHT_SHIFT_def SCANCODE_CAPS_LOCK_def)
  then show ?thesis by (auto simp: after_read_def end_of_interrupt_def)
qed

lemma handler_exact_witness:
  "yields (keyboard_handler (demo_kernel (sconst 0x1E) [])) kernel_inv \<and>
    keyboard_handler (set_layout False (demo_kernel (sconst 0x4B) [])) = None"
proof
  have "scancode_ascii \<lparr>shift_pressed = False, caps_lock = False, use_german_layout = True\<rparr> 0x1E = Some (CHR ''a'')" by code_simp
  then have "handler_safe (demo_kernel (sconst 0x1E) [])"
    by (simp add: handler_safe_def input_safe_def key_in_table_def key_code_def)
  then show "yields (keyboard_handler (demo_kernel (sconst 0x1E) [])) kernel_inv"
    using handler_exact [OF demo_kernel_inv [of "[]" "sconst 0x1E"]] by simp
  let ?k = "set_layout False (demo_kernel (sconst 0x4B) [])"
  have "next_byte ?k = 0x4B" "\<not> use_german_layout (keyboard ?k)" by (simp_all add: set_layout_def next_byte_def)
  then have "\<not> handler_safe ?k"
    by (simp add: handler_safe_def pressed_def key_code_def modifier_def input_safe_def key_in_table_def
      SCANCODE_LEFT_SHIFT_def SCANCODE_RIGHT_SHIFT_def SCANCODE_CAPS_LOCK_def)
  then show "keyboard_handler ?k = None"
    using handler_exact [of ?k] demo_kernel_inv [of "[]" "sconst 0x4B"] by simp
qed

lemma kernel_boots_witness:
  "yields (kernel_main (replicate 2000 0) 0x1000 0x2000 (kernel_boot (demo_bus (sconst 0)))) (\<lambda>k. booted 0x1000 0x2000 k \<and>
    (\<exists>config. sent (ports k) = pic_bytes @ init_commands config))"
  using kernel_boots [of "replicate 2000 0" "demo_bus (sconst 0)" "0x1000" "0x2000"] demo_bus(1) [of "sconst 0"]
  by (auto simp: demo_bus(2) split: if_splits elim!: yields_mono)

lemma kernel_session_inv_witness:
  "\<exists>k0 k1. kernel_main (replicate 2000 0) 0x1000 0x2000 (kernel_boot (demo_bus (sconst 0x2A))) = Some k0 \<and>
    kernel_run k0 k1 \<and> shift_pressed (keyboard k1) \<and> \<not> shift_pressed (keyboard k0) \<and> kernel_inv k1"
proof -
  have mem: "length (replicate 2000 (0 :: 16 word)) = 2000" by simp
  obtain k0 where k0: "kernel_main (replicate 2000 0) 0x1000 0x2000 (kernel_boot (demo_bus (sconst 0x2A))) = Some k0"
    "booted 0x1000 0x2000 k0" "bus_answers (ports k0) = sconst 0x2A"
    by (rule yieldsE [OF boot_contract(1) [OF mem demo_bus(1), of "0x1000" "0x2000"]]) blast
  have "next_byte k0 = 0x2A" using k0(3) by (simp add: next_byte_def)
  then have "key_code k0 = SCANCODE_LEFT_SHIFT" "pressed k0" by (simp_all add: key_code_def pressed_def SCANCODE_LEFT_SHIFT_def)
  then have h: "keyboard_handler k0 = Some (end_of_interrupt ((after_read k0)\<lparr>keyboard := (keyboard k0)\<lparr>shift_pressed := True\<rparr>\<rparr>))"
    by (simp add: keyboard_handler_eq)
  let ?k1 = "end_of_interrupt ((after_read k0)\<lparr>keyboard := (keyboard k0)\<lparr>shift_pressed := True\<rparr>\<rparr>)"
  have run: "kernel_run k0 ?k1" by (rule run_key [OF run_start _ h]) (use k0(2) in \<open>simp add: booted_def\<close>)
  have "\<not> shift_pressed (keyboard k0)" "shift_pressed (keyboard ?k1)" using k0(2) by (simp_all add: booted_def end_of_interrupt_def)
  with kernel_session_inv [OF mem k0(1) run] k0(1) run show ?thesis by blast
qed

lemma interrupt_acknowledged_witness:
  "\<exists>k'. keyboard_handler (demo_kernel (sconst 0x0E) []) = Some k' \<and> sent (ports k') = [(0x20, 0x20)]"
proof -
  let ?k = "demo_kernel (sconst 0x0E) []"
  have "key_code ?k = 0x0E" "pressed ?k" by (simp_all add: key_code_def pressed_def)
  then have "keyboard_handler ?k = Some (end_of_interrupt (after_read ?k))"
    using shell_step [of ?k] backspace_key
    by (simp add: shell_input_def after_read_def SCANCODE_LEFT_SHIFT_def SCANCODE_RIGHT_SHIFT_def SCANCODE_CAPS_LOCK_def)
  moreover have "\<not> halted (end_of_interrupt (after_read ?k))" by (simp add: end_of_interrupt_def after_read_def)
  ultimately show ?thesis using interrupt_acknowledged [of ?k] by simp
qed

lemma line_answered_witness:
  "\<exists>k'. kernel_run (demo_kernel ([0x12, 0x2E, 0x23, 0x18, 0x39, 0x2A, 0x23, 0xAA, 0x17] @- 0x1C ## sconst 0) []) k' \<and>
    tty_view (vga k') = fold show_seg ([Say ''echo Hi'', Say [NL], Say ''Hi'', Say [NL]] @ prompt_out demo_fs) (tty_view demo_terminal)"
proof -
  let ?bs = "[0x12, 0x2E, 0x23, 0x18, 0x39, 0x2A, 0x23, 0xAA, 0x17] :: 8 word list"
  let ?ks = "\<lparr>shift_pressed = False, caps_lock = False, use_german_layout = True\<rparr>"
  let ?k = "demo_kernel (?bs @- 0x1C ## sconst 0) []"
  have "decode ?ks ?bs = Some (?ks, ''echo Hi'')" by code_simp
  then have d: "decode (keyboard ?k) ?bs = Some (?ks, ''echo Hi'')" by simp
  have "parse_spec ''echo Hi'' = (''echo'', ''Hi'', [])" by code_simp
  then have q: "query_out (fsys ?k) ''echo Hi'' = Some [Say ''Hi'', Say [NL]]" by (simp add: query_out_def command_names_def echo_out_def)
  have "bus_answers (ports ?k) = ?bs @- 0x1C ## sconst 0" by (rule demo_kernel(4))
  from line_answered [OF demo_kernel_inv _ _ _ this d _ _ q] show ?thesis by auto
qed

lemma edit_opens_file_witness:
  "yields (keyboard_handler (demo_kernel (sconst 0x1C) ''edit notes'')) (\<lambda>k'. editor_active k' \<and>
    ed_view (editor k') = ([''hello''], 0, 0, False) \<and> cstr (ed_filename (editor k')) = ''notes'')"
proof -
  let ?k = "demo_kernel (sconst 0x1C) ''edit notes''"
  have "text_block ''hello'' (''hello'' @ replicate 4091 NUL)" by (simp add: text_block_def MAX_FILE_SIZE_def)
  then have "file_text demo_fs 224 = Some ''hello''" using text_blockD(1) by (simp add: file_text_def demo_block)
  moreover have "file_lines ''hello'' = [''hello'']" by code_simp
  ultimately have o: "opened demo_fs ''notes'' = [''hello'']" by (simp add: opened_def open_source_def demo_resolve)
  have p: "parse_spec (typed_line ?k) = (''edit'', ''notes'', [])" unfolding demo_kernel(3) by code_simp
  have "next_byte ?k = 0x1C" by simp
  from edit_opens_file [OF demo_kernel_inv _ _ this p] show ?thesis by (auto simp: o elim!: yields_mono)
qed

lemma editor_keys_handled_witness:
  "yields (keyboard_handler ((demo_kernel (sconst 0x17) [])\<lparr>editor := demo_mode MODE_NORMAL [], editor_active := True, current_editor := True\<rparr>))
    (\<lambda>k'. editor_active k' \<and> fsys k' = demo_fs \<and> ed_spec (editor k') = (MODE_INSERT, ([''hi''], 0, 0, True), []))"
proof -
  let ?ed = "demo_mode MODE_NORMAL []" and ?k0 = "demo_kernel (sconst 0x17) []"
  let ?k = "?k0\<lparr>editor := demo_mode MODE_NORMAL [], editor_active := True, current_editor := True\<rparr>"
  have n: "NUL \<notin> set []" "length ([] :: string) < 78" by simp_all
  note d = demo_mode [OF n, of MODE_NORMAL]
  have sp: "ed_spec ?ed = (MODE_NORMAL, ([''hi''], 0, 0, True), [])" by (simp add: ed_spec_def d)
  have inv: "kernel_inv ?k" using demo_kernel_inv [of "[]" "sconst 0x17"] d(1) ed_ok_arrays [OF ed_inv_ok [OF d(1)]]
    by (simp add: kernel_inv_def)
  have "next_byte ?k = 0x17" by (simp add: next_byte_def)
  then have k: "key_code ?k = 0x17" "pressed ?k" by (simp_all add: key_code_def pressed_def)
  have m: "\<not> modifier 0x17" by (simp add: modifier_def SCANCODE_LEFT_SHIFT_def SCANCODE_RIGHT_SHIFT_def SCANCODE_CAPS_LOCK_def)
  have "scancode_ascii \<lparr>shift_pressed = False, caps_lock = False, use_german_layout = True\<rparr> 0x17 = Some (CHR ''i'')" by code_simp
  then have c: "key_char ?k (key_code ?k) = Some (CHR ''i'')" by (simp add: key_char_def k(1))
  have step: "spec_normal (CHR ''i'') ([''hi''], 0, 0, True) = (MODE_INSERT, ([''hi''], 0, 0, True))" by code_simp
  have arrow: "spec_arrow 0x17 ([''hi''], 0, 0, True) = ([''hi''], 0, 0, True)" by code_simp
  have "key_fits (key_code ?k) (editor ?k)" "\<not> saves (key_code ?k) (editor ?k)" by (simp_all add: k(1) key_fits_def saves_def)
  moreover have "ed_mode e = MODE_INSERT" if "ed_spec e = (MODE_INSERT, v, cmd)" for e v cmd using that by (simp add: ed_spec_def)
  ultimately show ?thesis using editor_keys_handled [OF inv _ k(2) _ c] m unfolding k(1)
    by (auto simp: sp step arrow elim!: yields_mono)
qed

lemma backspace_ignored_witness:
  "\<exists>io. keyboard_handler (demo_kernel (sconst 0x0E) ''lss'') = Some ((demo_kernel (sconst 0x0E) ''lss'')\<lparr>ports := io\<rparr>)"
  by (rule backspace_ignored) simp_all

end
