(* ===== verification/Spec2Isabelle.thy ===== *)
theory Spec2Isabelle
  imports File_System Terminal Editor_Draw Kernel_Run
begin

text \<open>
  PhantomOS: a verification library for the C code of the kernel (\<open>src/kernel\<close>).

  The program. PhantomOS is a 32-bit kernel without processes. \<open>kernel_main\<close> initialises the
  screen, an in-memory file system, the interrupt table and the keyboard controller, prints the
  prompt and halts until the next interrupt. Everything else happens in \<open>keyboard_handler\<close>: it
  reads a scan code, tracks Shift and Caps Lock, and gives the key to the shell, which collects a
  line in \<open>input_buffer\<close> and runs \<open>process_command\<close> on Enter, or to the text editor while that is
  active. Shell and editor work on the file system and print on the VGA text screen.

  The model. Every C function is a function of the same name. State is passed explicitly: a
  record per component, joined in the record \<open>kernel\<close>. The result is an \<open>option\<close>; \<open>None\<close> is what
  C leaves undefined (an index outside an array, a pointer that is \<open>NULL\<close> or points to nothing, a
  string without terminator) and a loop that does not end. Arrays are lists of their C length,
  \<open>size_t\<close> values that may wrap and everything that is calculated bitwise are words, signed
  counters are \<open>int\<close>; error codes of the source are returned as they are.

  Theories, from the bottom:

    \<^item> \<open>Phantom_Prelude\<close>: array access, the predicate \<open>yields m P\<close> (defined, with a result that
      satisfies \<open>P\<close>), folds over loops, locales for state transformers that refine a specification.
    \<^item> \<open>C_String\<close>: \<open>strlen\<close> to \<open>strcat\<close> of \<open>kernel.c\<close> and \<open>filesystem.c\<close>; \<open>cstr\<close> is the text of an
      array, \<open>terminated\<close> says that it has one.
    \<^item> \<open>Fs_Store\<close>, \<open>Fs_Dir\<close>, \<open>Fs_Path\<close>, \<open>Fs_File\<close>, \<open>Fs_Text\<close>, \<open>File_System\<close>: \<open>filesystem.c\<close>. The store
      maps addresses of the 64 KB pool to nodes and buffers; \<open>dir_map\<close> is the abstract directory and
      \<open>file_text\<close> the abstract file. The invariants are \<open>wf_fs\<close> (nodes lie in the pool one after the
      other, directories are trees of distinct names, parents are older than their children) and
      \<open>fs_ok\<close>, which adds that the texts of the files are terminated. \<open>fs_call\<close> is the step relation of
      the interface, with the theorems on reachable states.
    \<^item> \<open>Terminal\<close>: the screen of \<open>kernel.c\<close>; its specification is a typewriter \<open>tty\<close> on 25 rows.
    \<^item> \<open>Decimal\<close>: the digit loops of \<open>editor_draw\<close> and of \<open>stat\<close>.
    \<^item> \<open>Editor\<close>, \<open>Editor_Text\<close>, \<open>Editor_File\<close>, \<open>Editor_Keys\<close>, \<open>Editor_Draw\<close>: \<open>editor.c\<close>. \<open>ed_view\<close> is the
      abstract buffer (lines, cursor, modified), \<open>ed_inv\<close> the invariant, \<open>spec_key\<close> the editor as a
      state machine, and a display list says what is drawn.
    \<^item> \<open>Keyboard\<close>: ports, keyboard controller, scan code tables and interrupt gates of \<open>kernel.c\<close>. The
      answers of the hardware are an arbitrary stream; every access is logged.
    \<^item> \<open>Shell_Parse\<close>, \<open>Shell_Output\<close>, \<open>Shell_Print\<close>, \<open>Shell_Files\<close>: \<open>parse_command_args\<close> and the commands of
      \<open>process_command\<close>. What a command prints is a list of texts and inks (\<open>printout\<close>), defined on the
      abstract directories and files, and related to the code by \<open>displays\<close>.
    \<^item> \<open>Kernel\<close>, \<open>Kernel_Run\<close>: the statics of \<open>kernel.c\<close>, dispatch of a line, the interrupt handler,
      \<open>kernel_main\<close>, and the runs of the system. The dispatcher is verified against the locale
      \<open>command_table\<close>, interpreted on the 21 commands.

  What is shown. On the whole system: booting ends exactly when the keyboard controller answers;
  every state reached by keyboard interrupts satisfies \<open>kernel_inv\<close>; an interrupt is handled without
  undefined behaviour exactly under \<open>handler_safe\<close>, whose three exceptions are the defects of the code
  (a key outside the US tables, a joined line that overruns its row, a path that overruns
  \<open>current_path\<close>); each interrupt is acknowledged once; a typed line of a command that only prints is
  answered by the printout that the specification gives for it; a key in the editor does what \<open>spec_key\<close>
  says. On the components: refinement of the typewriter by the terminal, of paths by a walk on the
  directory maps, of the editor by \<open>spec_key\<close>, of the drawing by its display list; functional
  specifications of the file operations and commands on all branches, with the exact conditions under
  which \<open>fs_change_directory\<close>, \<open>fs_copy_file\<close> and \<open>fs_move_file\<close> leave their arrays; round trips (\<open>cd\<close> and
  the path string, saving and opening, typing and erasing, numbers and their digits, gates and
  addresses); the error behaviour of the code where it differs from what it reports or documents.

  Bounds and loops. Loops that always end are structural recursions or have a measure. The three
  that need an argument are partial functions, in which \<open>None\<close> stands for running forever: the two
  polling loops of \<open>keyboard_init\<close>, which end exactly when the stream of answers says so, and
  \<open>tree_print_node\<close>, which ends because children lie behind their parents in the pool; its
  specification \<open>tree_out\<close> is cut at a depth of the size of the pool, which no path reaches. The
  line holds 255 characters, each word of a command 63, a path 255, a row of the editor 75, the
  editor 50 rows; a number printed by \<open>stat\<close> has at most 10 of the 31 characters that fit.

  Not modelled: the boot loader, the kernel's entry and the interrupt stubs (assembly), the
  linker script, the build and test scripts. \<open>fs_normalize_path\<close> is declared in \<open>filesystem.h\<close> but
  defined nowhere. Interrupts are handled one after the other in the idle loop; one that arrives
  between \<open>sti\<close> in \<open>init_idt\<close> and the end of \<open>kernel_main\<close>, while \<open>keyboard_init\<close> polls the same
  port, is outside the model. The timer gate leads to the same handler, but its interrupt is masked.
  \<open>lidt\<close>, \<open>sti\<close>, \<open>cli\<close> and \<open>hlt\<close> are the fields \<open>idtr\<close>, \<open>interrupts\<close> and \<open>halted\<close>.
\<close>

end
